(* ===== verification/Prelude.thy ===== *)
theory Prelude
  imports Main "HOL-Library.Word" "HOL-Library.Signed_Division"
begin

text \<open>
  Shared vocabulary of the development: the machine words of the C code, the result type of
  code that may stop at a failed \<^verbatim>\<open>assert\<close> or run into undefined behaviour, C arrays with
  checked indices, C's \<^verbatim>\<open>int\<close> conversions, and the lemmas on single bits of words on which the
  interrupt-controller proofs rest.

  The collection \<open>vmm_flags\<close> gathers the definitions of flag constants and of the test of a flag,
  which proofs unfold together to read a flag as a bit of its word.
\<close>

unbundle bit_operations_syntax

named_theorems vmm_flags "flag constants and the test of a flag"

type_synonym u8 = "8 word"
type_synonym u16 = "16 word"
type_synonym u32 = "32 word"
type_synonym u64 = "64 word"

section \<open>Results of C code\<close>

text \<open>
  \<open>Assert_failed\<close>: an \<^verbatim>\<open>assert\<close> of \<^verbatim>\<open>util.h\<close> failed; \<^verbatim>\<open>assert_fail\<close> prints and then
  spins for ever, so control never comes back. The other errors are the points where the C
  code has no defined behaviour: a null pointer is dereferenced, an array is indexed out of
  its bounds, a shift count is negative, a signed operation or a conversion to an integer type
  overflows, or a variable argument is read with another type than it was passed with. The last
  one, \<open>Call_depth\<close>, is the model's own: two functions that call each other nested deeper than the
  bound the model was given.
\<close>

datatype vmm_error = Assert_failed | Null_deref | Out_of_bounds | Bad_shift | Int_overflow | Bad_vararg | Call_depth

datatype 'a res = Fault vmm_error | Ret 'a

primrec bind_res :: "'a res \<Rightarrow> ('a \<Rightarrow> 'b res) \<Rightarrow> 'b res" where
  "bind_res (Fault e) f = Fault e"
| "bind_res (Ret x) f = f x"

definition c_assert :: "bool \<Rightarrow> 'a res \<Rightarrow> 'a res" where
  "c_assert P r = (if P then r else Fault Assert_failed)"

definition returns :: "'a res \<Rightarrow> bool" where
  "returns r \<longleftrightarrow> (\<exists>x. r = Ret x)"

lemma returns_simps [simp]:
  "returns (Ret x)" "\<not> returns (Fault e)"
  by (simp_all add: returns_def)

lemma bind_res_assoc: "bind_res (bind_res m f) g = bind_res m (\<lambda>x. bind_res (f x) g)"
  by (cases m) simp_all

lemma bind_res_eq_Ret [simp]:
  "bind_res m f = Ret y \<longleftrightarrow> (\<exists>x. m = Ret x \<and> f x = Ret y)"
  by (cases m) auto

lemma bind_res_eq_Fault [simp]:
  "bind_res m f = Fault e \<longleftrightarrow> m = Fault e \<or> (\<exists>x. m = Ret x \<and> f x = Fault e)"
  by (cases m) auto

lemma bind_res_cong [fundef_cong]:
  "m = m' \<Longrightarrow> (\<And>x. m' = Ret x \<Longrightarrow> f x = g x) \<Longrightarrow> bind_res m f = bind_res m' g"
  by (cases m') auto

lemma bind_res_Ret_right [simp]: "bind_res m Ret = m"
  by (cases m) simp_all

lemma c_assert_simps [simp]:
  "c_assert True r = r" "c_assert False r = Fault Assert_failed"
  by (simp_all add: c_assert_def)

lemma c_assert_eq_Ret [simp]: "c_assert P r = Ret x \<longleftrightarrow> P \<and> r = Ret x"
  by (simp add: c_assert_def)

lemma c_assert_cong [fundef_cong]:
  "P = Q \<Longrightarrow> (Q \<Longrightarrow> r = r') \<Longrightarrow> c_assert P r = c_assert Q r'"
  by (simp add: c_assert_def)

text \<open>Running an effectful body for each element of a list, left to right.\<close>

primrec for_each :: "('a \<Rightarrow> 's \<Rightarrow> 's res) \<Rightarrow> 'a list \<Rightarrow> 's \<Rightarrow> 's res" where
  "for_each f [] s = Ret s"
| "for_each f (x # xs) s = bind_res (f x s) (for_each f xs)"

lemma for_each_append:
  "for_each f (xs @ ys) s = bind_res (for_each f xs s) (for_each f ys)"
  by (induction xs arbitrary: s) (auto simp: bind_res_assoc intro: bind_res_cong)

text \<open>The invariant rule for such a loop: if the body returns and keeps \<open>I\<close>, so does the loop.\<close>

lemma for_each_invariant:
  assumes "\<And>x s. x \<in> set xs \<Longrightarrow> I s \<Longrightarrow> \<exists>s'. f x s = Ret s' \<and> I s'"
    and "I s"
  shows "\<exists>s'. for_each f xs s = Ret s' \<and> I s'"
  using assms
proof (induction xs arbitrary: s)
  case Nil
  then show ?case by simp
next
  case (Cons x xs)
  from Cons.prems obtain s1 where s1: "f x s = Ret s1" "I s1" by force
  have "\<exists>s'. for_each f xs s1 = Ret s' \<and> I s'"
    using Cons.prems(1) s1(2) by (intro Cons.IH) auto
  with s1 show ?case by simp
qed

section \<open>C arrays\<close>

text \<open>An access outside the array is undefined behaviour, an error of the model.\<close>

definition arr_get :: "'a list \<Rightarrow> int \<Rightarrow> 'a res" where
  "arr_get xs i = (if 0 \<le> i \<and> i < int (length xs) then Ret (xs ! nat i) else Fault Out_of_bounds)"

definition arr_mod :: "'a list \<Rightarrow> int \<Rightarrow> ('a \<Rightarrow> 'a) \<Rightarrow> 'a list res" where
  "arr_mod xs i f =
     (if 0 \<le> i \<and> i < int (length xs) then Ret (xs[nat i := f (xs ! nat i)]) else Fault Out_of_bounds)"

lemma arr_get_in [simp]: "0 \<le> i \<Longrightarrow> i < int (length xs) \<Longrightarrow> arr_get xs i = Ret (xs ! nat i)"
  by (simp add: arr_get_def)

lemma arr_get_out: "int (length xs) \<le> i \<Longrightarrow> arr_get xs i = Fault Out_of_bounds"
  by (simp add: arr_get_def)

lemma arr_mod_in [simp]:
  "0 \<le> i \<Longrightarrow> i < int (length xs) \<Longrightarrow> arr_mod xs i f = Ret (xs[nat i := f (xs ! nat i)])"
  by (simp add: arr_mod_def)

lemma arr_mod_out: "int (length xs) \<le> i \<Longrightarrow> arr_mod xs i f = Fault Out_of_bounds"
  by (simp add: arr_mod_def)

lemma arr_get_eq_Ret: "arr_get xs i = Ret x \<longleftrightarrow> 0 \<le> i \<and> i < int (length xs) \<and> x = xs ! nat i"
  by (auto simp: arr_get_def)

lemma arr_mod_eq_Ret:
  "arr_mod xs i f = Ret ys \<longleftrightarrow> 0 \<le> i \<and> i < int (length xs) \<and> ys = xs[nat i := f (xs ! nat i)]"
  by (auto simp: arr_mod_def)

lemma uint_less_int: "unat w < n \<Longrightarrow> uint w < int n"
  by (metis of_nat_less_iff uint_nat)

lemma arr_get_uint [simp]: "unat w < length xs \<Longrightarrow> arr_get xs (uint w) = Ret (xs ! unat w)"
  by (simp add: arr_get_def uint_less_int)

lemma arr_mod_uint [simp]:
  "unat w < length xs \<Longrightarrow> arr_mod xs (uint w) f = Ret (xs[unat w := f (xs ! unat w)])"
  by (simp add: arr_mod_def uint_less_int)

section \<open>Lists with holes\<close>

lemma map_filter_append: "List.map_filter f (xs @ ys) = List.map_filter f xs @ List.map_filter f ys"
  by (simp add: List.map_filter_def)

lemma map_filter_length: "(\<forall>x \<in> set xs. f x \<noteq> None) \<Longrightarrow> length (List.map_filter f xs) = length xs"
  by (induction xs) (auto simp: List.map_filter_simps)

text \<open>Filling a hole inserts one element and keeps the others in order.\<close>

lemma map_filter_upd:
  assumes "i < length xs" and "f (xs ! i) = None" and "f x = Some y"
  shows "\<exists>as bs. List.map_filter f xs = as @ bs \<and> List.map_filter f (xs[i := x]) = as @ y # bs"
proof -
  have "List.map_filter f xs = List.map_filter f (take i xs @ xs ! i # drop (Suc i) xs)"
    by (rule arg_cong [OF id_take_nth_drop [OF assms(1)]])
  also have "\<dots> = List.map_filter f (take i xs) @ List.map_filter f (drop (Suc i) xs)"
    using assms(2) by (simp add: map_filter_append List.map_filter_simps)
  finally have "List.map_filter f xs = List.map_filter f (take i xs) @ List.map_filter f (drop (Suc i) xs)" .
  moreover have "List.map_filter f (xs[i := x]) = List.map_filter f (take i xs) @ y # List.map_filter f (drop (Suc i) xs)"
    using assms(1,3) by (simp add: upd_conv_take_nth_drop map_filter_append List.map_filter_simps)
  ultimately show ?thesis by blast
qed

text \<open>Making a hole removes one element.\<close>

lemma map_filter_clear:
  assumes "i < length xs" and "f (xs ! i) = Some y" and "f x = None"
  shows "\<exists>as bs. List.map_filter f xs = as @ y # bs \<and> List.map_filter f (xs[i := x]) = as @ bs"
  using map_filter_upd [of i "xs[i := x]" f "xs ! i" y] assms by auto

section \<open>C integers\<close>

text \<open>Conversion of a 64-bit unsigned value to C's 32-bit \<^verbatim>\<open>int\<close>: the low 32 bits, read as two's
  complement (what the compilers of this code do).\<close>

definition to_c_int :: "u64 \<Rightarrow> int" where
  "to_c_int w = sint (ucast w :: u32)"

lemma to_c_int_small:
  assumes "unat w < 2147483648"
  shows "to_c_int w = int (unat w)"
proof -
  have small: "uint w < 2147483648"
    unfolding uint_nat using assms by linarith
  have "uint (ucast w :: u32) = uint w"
    using small by (simp only: unsigned_ucast_eq) (simp add: take_bit_int_eq_self)
  then have "to_c_int w = signed_take_bit 31 (uint w)"
    unfolding to_c_int_def by (subst sint_uint) simp
  also have "\<dots> = uint w"
    using small by (intro signed_take_bit_int_eq_self order_trans [OF _ uint_ge_0]) simp_all
  finally show ?thesis by simp
qed

section \<open>Single bits of words\<close>

lemma bit_or_push_bit_1 [simp]:
  fixes w :: "'a::len word"
  shows "n < LENGTH('a) \<Longrightarrow> bit (w OR push_bit n 1) m \<longleftrightarrow> bit w m \<or> m = n"
  by (auto simp: bit_simps)

lemma bit_and_not_push_bit_1 [simp]:
  fixes w :: "'a::len word"
  shows "bit (w AND NOT (push_bit n 1)) m \<longleftrightarrow> bit w m \<and> m \<noteq> n"
  by (auto simp: bit_simps dest: bit_imp_le_length)

lemma and_push_bit_1_eq_0 [simp]:
  fixes w :: "'a::len word"
  shows "w AND push_bit n 1 = 0 \<longleftrightarrow> \<not> bit w n"
  by (simp add: push_bit_eq_mult and_exp_eq_0_iff_not_bit)

lemma bit_merge:
  fixes w :: "'a::len word"
  shows "bit ((w AND NOT m) OR (v AND m)) i \<longleftrightarrow> (if bit m i then bit v i else bit w i)"
  by (auto simp: bit_simps dest: bit_imp_le_length)

end
