(* ===== verification/Printf_Num.thy ===== *)
theory Printf_Num imports Prelude begin

text \<open>
  The first half of \<^verbatim>\<open>util/printf.c\<close>: the output functions, reading and writing of decimal numbers,
  and the conversion of integers to text. Where the code hands a character to an output function
  at a time, the lemmas say which text the calls amount to.
\<close>

lemma arr_mod_uint_out: "length xs \<le> unat w \<Longrightarrow> arr_mod xs (uint w) f = Fault Out_of_bounds"
  by (rule arr_mod_out) (metis of_nat_le_iff uint_nat)

section \<open>Flags\<close>

definition FLAGS_ZEROPAD :: u32 where "FLAGS_ZEROPAD = push_bit 0 1"
definition FLAGS_LEFT :: u32 where "FLAGS_LEFT = push_bit 1 1"
definition FLAGS_PLUS :: u32 where "FLAGS_PLUS = push_bit 2 1"
definition FLAGS_SPACE :: u32 where "FLAGS_SPACE = push_bit 3 1"
definition FLAGS_HASH :: u32 where "FLAGS_HASH = push_bit 4 1"
definition FLAGS_UPPERCASE :: u32 where "FLAGS_UPPERCASE = push_bit 5 1"
definition FLAGS_CHAR :: u32 where "FLAGS_CHAR = push_bit 6 1"
definition FLAGS_SHORT :: u32 where "FLAGS_SHORT = push_bit 7 1"
definition FLAGS_LONG :: u32 where "FLAGS_LONG = push_bit 8 1"
definition FLAGS_LONG_LONG :: u32 where "FLAGS_LONG_LONG = push_bit 9 1"
definition FLAGS_PRECISION :: u32 where "FLAGS_PRECISION = push_bit 10 1"
definition FLAGS_ADAPT_EXP :: u32 where "FLAGS_ADAPT_EXP = push_bit 11 1"

text \<open>The test \<^verbatim>\<open>flags & FLAGS_X\<close>.\<close>

definition flag :: "u32 \<Rightarrow> u32 \<Rightarrow> bool" where
  "flag flags f \<longleftrightarrow> flags AND f \<noteq> 0"

lemma bit_push_bit_one: "n < LENGTH('a) \<Longrightarrow> bit (push_bit n (1 :: 'a::len word)) m \<longleftrightarrow> m = n"
  by (auto simp: bit_simps)

lemma bit_FLAGS [vmm_flags]:
  "bit FLAGS_ZEROPAD n \<longleftrightarrow> n = 0"
  "bit FLAGS_LEFT n \<longleftrightarrow> n = 1"
  "bit FLAGS_PLUS n \<longleftrightarrow> n = 2"
  "bit FLAGS_SPACE n \<longleftrightarrow> n = 3"
  "bit FLAGS_HASH n \<longleftrightarrow> n = 4"
  "bit FLAGS_UPPERCASE n \<longleftrightarrow> n = 5"
  "bit FLAGS_CHAR n \<longleftrightarrow> n = 6"
  "bit FLAGS_SHORT n \<longleftrightarrow> n = 7"
  "bit FLAGS_LONG n \<longleftrightarrow> n = 8"
  "bit FLAGS_LONG_LONG n \<longleftrightarrow> n = 9"
  "bit FLAGS_PRECISION n \<longleftrightarrow> n = 10"
  "bit FLAGS_ADAPT_EXP n \<longleftrightarrow> n = 11"
  unfolding FLAGS_ZEROPAD_def FLAGS_LEFT_def FLAGS_PLUS_def FLAGS_SPACE_def FLAGS_HASH_def FLAGS_UPPERCASE_def FLAGS_CHAR_def FLAGS_SHORT_def FLAGS_LONG_def FLAGS_LONG_LONG_def FLAGS_PRECISION_def FLAGS_ADAPT_EXP_def
  by (rule bit_push_bit_one, simp)+

lemma flag_FLAGS [vmm_flags]:
  "flag flags FLAGS_ZEROPAD \<longleftrightarrow> bit flags 0"
  "flag flags FLAGS_LEFT \<longleftrightarrow> bit flags 1"
  "flag flags FLAGS_PLUS \<longleftrightarrow> bit flags 2"
  "flag flags FLAGS_SPACE \<longleftrightarrow> bit flags 3"
  "flag flags FLAGS_HASH \<longleftrightarrow> bit flags 4"
  "flag flags FLAGS_UPPERCASE \<longleftrightarrow> bit flags 5"
  "flag flags FLAGS_CHAR \<longleftrightarrow> bit flags 6"
  "flag flags FLAGS_SHORT \<longleftrightarrow> bit flags 7"
  "flag flags FLAGS_LONG \<longleftrightarrow> bit flags 8"
  "flag flags FLAGS_LONG_LONG \<longleftrightarrow> bit flags 9"
  "flag flags FLAGS_PRECISION \<longleftrightarrow> bit flags 10"
  "flag flags FLAGS_ADAPT_EXP \<longleftrightarrow> bit flags 11"
  by (simp_all only: flag_def and_push_bit_1_eq_0 not_not FLAGS_ZEROPAD_def FLAGS_LEFT_def FLAGS_PLUS_def FLAGS_SPACE_def FLAGS_HASH_def FLAGS_UPPERCASE_def FLAGS_CHAR_def FLAGS_SHORT_def FLAGS_LONG_def FLAGS_LONG_LONG_def FLAGS_PRECISION_def FLAGS_ADAPT_EXP_def)

lemma flag_or [vmm_flags]: "flag flags (f OR g) \<longleftrightarrow> flag flags f \<or> flag flags g"
  by (simp add: flag_def bit.conj_disj_distrib or_eq_0_iff)

section \<open>Output functions\<close>

text \<open>
  Where characters go: the buffer the caller passed (its length is the size the caller really
  has), the debug console behind \<^verbatim>\<open>_putchar\<close>, and the calls of a function given to \<^verbatim>\<open>fctprintf\<close>.
\<close>

record sink =
  out_buf :: "char list"
  console :: string
  fct_calls :: string

datatype out_fct_type = Out_buffer | Out_null | Out_char | Out_fct

definition out_buffer :: "char \<Rightarrow> u64 \<Rightarrow> u64 \<Rightarrow> sink \<Rightarrow> sink res" where
  "out_buffer character idx maxlen s =
     (if idx < maxlen
      then bind_res (arr_mod (out_buf s) (uint idx) (\<lambda>_. character)) (\<lambda>b. Ret (s\<lparr>out_buf := b\<rparr>))
      else Ret s)"

definition out_null :: "char \<Rightarrow> u64 \<Rightarrow> u64 \<Rightarrow> sink \<Rightarrow> sink res" where
  "out_null character idx maxlen s = Ret s"

definition putchar :: "char \<Rightarrow> sink \<Rightarrow> sink" where
  "putchar character s = s\<lparr>console := console s @ [character]\<rparr>"

definition out_char :: "char \<Rightarrow> u64 \<Rightarrow> u64 \<Rightarrow> sink \<Rightarrow> sink res" where
  "out_char character idx maxlen s = Ret (if character \<noteq> CHR 0x00 then putchar character s else s)"

definition out_fct :: "char \<Rightarrow> u64 \<Rightarrow> u64 \<Rightarrow> sink \<Rightarrow> sink res" where
  "out_fct character idx maxlen s =
     Ret (if character \<noteq> CHR 0x00 then s\<lparr>fct_calls := fct_calls s @ [character]\<rparr> else s)"

text \<open>The call through the function pointer.\<close>

fun call_out :: "out_fct_type \<Rightarrow> char \<Rightarrow> u64 \<Rightarrow> u64 \<Rightarrow> sink \<Rightarrow> sink res" where
  "call_out Out_buffer c idx maxlen s = out_buffer c idx maxlen s"
| "call_out Out_null c idx maxlen s = out_null c idx maxlen s"
| "call_out Out_char c idx maxlen s = out_char c idx maxlen s"
| "call_out Out_fct c idx maxlen s = out_fct c idx maxlen s"

section \<open>Strings and numbers\<close>

text \<open>A pointer into a string is the rest of the string; at its end the terminating zero is read.\<close>

definition peek :: "string \<Rightarrow> char" where
  "peek p = (case p of [] \<Rightarrow> CHR 0x00 | c # _ \<Rightarrow> c)"

fun strnlen_s :: "string \<Rightarrow> u64 \<Rightarrow> u32" where
  "strnlen_s [] maxsize = 0"
| "strnlen_s (c # s) maxsize =
     (if c \<noteq> CHR 0x00 \<and> maxsize \<noteq> 0 then 1 + strnlen_s s (maxsize - 1) else 0)"

definition is_digit :: "char \<Rightarrow> bool" where
  "is_digit ch \<longleftrightarrow> (48 :: nat) \<le> of_char ch \<and> of_char ch \<le> (57 :: nat)"

text \<open>The loop of \<^verbatim>\<open>_atoi\<close>, with the value so far; it wraps around as \<^verbatim>\<open>unsigned int\<close> does.\<close>

fun atoi_loop :: "u32 \<Rightarrow> string \<Rightarrow> u32 \<times> string" where
  "atoi_loop i [] = (i, [])"
| "atoi_loop i (c # s) =
     (if is_digit c then atoi_loop (i * 10 + (of_char c - 48)) s else (i, c # s))"

definition atoi :: "string \<Rightarrow> u32 \<times> string" where
  "atoi s = atoi_loop 0 s"

section \<open>Output of a reversed buffer\<close>

text \<open>\<^verbatim>\<open>n\<close> times \<^verbatim>\<open>out(c, buffer, idx++, maxlen)\<close>.\<close>

primrec out_times :: "out_fct_type \<Rightarrow> u64 \<Rightarrow> char \<Rightarrow> nat \<Rightarrow> u64 \<times> sink \<Rightarrow> (u64 \<times> sink) res" where
  "out_times out maxlen c 0 st = Ret st"
| "out_times out maxlen c (Suc n) st =
     bind_res (call_out out c (fst st) maxlen (snd st)) (\<lambda>s. out_times out maxlen c n (fst st + 1, s))"

text \<open>The loop \<^verbatim>\<open>while (len) out(buf[--len], buffer, idx++, maxlen)\<close>.\<close>

primrec out_rev_loop :: "out_fct_type \<Rightarrow> u64 \<Rightarrow> char list \<Rightarrow> nat \<Rightarrow> u64 \<times> sink \<Rightarrow> (u64 \<times> sink) res" where
  "out_rev_loop out maxlen buf 0 st = Ret st"
| "out_rev_loop out maxlen buf (Suc len) st =
     bind_res (arr_get buf (int len)) (\<lambda>c.
     bind_res (call_out out c (fst st) maxlen (snd st)) (\<lambda>s. out_rev_loop out maxlen buf len (fst st + 1, s)))"

lemma unat_inc:
  fixes x y :: "'a::len word"
  assumes "x < y"
  shows "unat (x + 1) = Suc (unat x)"
proof -
  have y: "unat y < 2 ^ LENGTH('a)" by (rule unsigned_less)
  have "unat x < unat y" using assms by (simp add: word_less_nat_alt)
  with y have "unat x + unat (1 :: 'a word) < 2 ^ LENGTH('a)" unfolding unsigned_1 by linarith
  then show ?thesis by (simp add: unat_add_lem [THEN iffD1])
qed

text \<open>The loop \<^verbatim>\<open>while (idx - start_idx < width) out(' ', buffer, idx++, maxlen)\<close>.\<close>

function out_until :: "out_fct_type \<Rightarrow> u64 \<Rightarrow> u64 \<Rightarrow> u64 \<Rightarrow> u64 \<times> sink \<Rightarrow> (u64 \<times> sink) res" where
  "out_until out maxlen start_idx width (idx, s) =
     (if idx - start_idx < width
      then bind_res (call_out out CHR '' '' idx maxlen s) (\<lambda>s'. out_until out maxlen start_idx width (idx + 1, s'))
      else Ret (idx, s))"
  by pat_completeness auto
termination
proof (relation "measure (\<lambda>(out, maxlen, start_idx, width, idx, s). unat width - unat (idx - start_idx))")
  fix out maxlen start_idx width idx s s'
  assume lt: "idx - start_idx < (width :: u64)"
  then have "unat (idx + 1 - start_idx) = Suc (unat (idx - start_idx))"
    using unat_inc [OF lt] by (simp add: algebra_simps)
  with lt show "((out, maxlen, start_idx, width, idx + 1, s'), (out, maxlen, start_idx, width, idx, s)) \<in>
      measure (\<lambda>(out, maxlen, start_idx, width, idx, s). unat width - unat (idx - start_idx))"
    by (simp add: word_less_nat_alt diff_less_mono2)
qed simp

declare out_until.simps [simp del]

text \<open>
  \<^verbatim>\<open>_out_rev\<close>. The bytes of \<^verbatim>\<open>buf\<close> from \<^verbatim>\<open>len\<close> on are never read, so \<open>buf\<close> is the list of the
  first \<^verbatim>\<open>len\<close> ones.
\<close>

definition out_rev ::
    "out_fct_type \<Rightarrow> u64 \<Rightarrow> u64 \<Rightarrow> char list \<Rightarrow> u32 \<Rightarrow> u32 \<Rightarrow> sink \<Rightarrow> (u64 \<times> sink) res" where
  "out_rev out idx maxlen buf width flags s =
     bind_res (if \<not> flag flags FLAGS_LEFT \<and> \<not> flag flags FLAGS_ZEROPAD
               then out_times out maxlen CHR '' '' (unat width - length buf) (idx, s) else Ret (idx, s)) (\<lambda>st.
     bind_res (out_rev_loop out maxlen buf (length buf) st) (\<lambda>st.
     if flag flags FLAGS_LEFT then out_until out maxlen idx (ucast width) st else Ret st))"


section \<open>Integers\<close>

text \<open>\<^verbatim>\<open>buf[len++] = c\<close> on a buffer of \<^verbatim>\<open>PRINTF_NTOA_BUFFER_SIZE\<close> bytes.\<close>

abbreviation (input) PRINTF_NTOA_BUFFER_SIZE :: nat where "PRINTF_NTOA_BUFFER_SIZE \<equiv> 32"

definition buf_put :: "char list \<Rightarrow> char \<Rightarrow> char list res" where
  "buf_put buf c = (if length buf < PRINTF_NTOA_BUFFER_SIZE then Ret (buf @ [c]) else Fault Out_of_bounds)"

text \<open>The loops \<^verbatim>\<open>while ((len < n) && (len < PRINTF_NTOA_BUFFER_SIZE)) buf[len++] = '0'\<close>.\<close>

function zero_fill :: "nat \<Rightarrow> char list \<Rightarrow> char list res" where
  "zero_fill n buf =
     (if length buf < n \<and> length buf < PRINTF_NTOA_BUFFER_SIZE
      then bind_res (buf_put buf CHR ''0'') (zero_fill n) else Ret buf)"
  by pat_completeness auto
termination
  by (relation "measure (\<lambda>(n, buf). 32 - length buf)") (auto simp: buf_put_def)

declare zero_fill.simps [simp del]

definition ntoa_pad :: "char list \<Rightarrow> bool \<Rightarrow> u32 \<Rightarrow> u32 \<Rightarrow> u32 \<Rightarrow> (char list \<times> u32) res" where
  "ntoa_pad buf negative prec width flags =
     (if \<not> flag flags FLAGS_LEFT then
        (let width = (if width \<noteq> 0 \<and> flag flags FLAGS_ZEROPAD \<and>
               (negative \<or> flag flags (FLAGS_PLUS OR FLAGS_SPACE)) then width - 1 else width)
         in bind_res (zero_fill (unat prec) buf) (\<lambda>buf.
            bind_res (if flag flags FLAGS_ZEROPAD then zero_fill (unat width) buf else Ret buf) (\<lambda>buf.
            Ret (buf, width))))
      else Ret (buf, width))"

definition ntoa_hash :: "char list \<Rightarrow> u32 \<Rightarrow> u32 \<Rightarrow> u32 \<Rightarrow> u32 \<Rightarrow> char list res" where
  "ntoa_hash buf base prec width flags =
     (if flag flags FLAGS_HASH then
        (let buf = (if \<not> flag flags FLAGS_PRECISION \<and> buf \<noteq> [] \<and>
               (length buf = unat prec \<or> length buf = unat width)
             then (let buf = butlast buf in if buf \<noteq> [] \<and> base = 16 then butlast buf else buf)
             else buf)
         in bind_res
              (if base = 16 \<and> \<not> flag flags FLAGS_UPPERCASE \<and> length buf < PRINTF_NTOA_BUFFER_SIZE
               then buf_put buf CHR ''x''
               else if base = 16 \<and> flag flags FLAGS_UPPERCASE \<and> length buf < PRINTF_NTOA_BUFFER_SIZE
               then buf_put buf CHR ''X''
               else if base = 2 \<and> length buf < PRINTF_NTOA_BUFFER_SIZE then buf_put buf CHR ''b''
               else Ret buf) (\<lambda>buf.
            if length buf < PRINTF_NTOA_BUFFER_SIZE then buf_put buf CHR ''0'' else Ret buf))
      else Ret buf)"

definition put_sign :: "char list \<Rightarrow> bool \<Rightarrow> u32 \<Rightarrow> char list res" where
  "put_sign buf negative flags =
     (if length buf < PRINTF_NTOA_BUFFER_SIZE then
        (if negative then buf_put buf CHR ''-''
         else if flag flags FLAGS_PLUS then buf_put buf CHR ''+''
         else if flag flags FLAGS_SPACE then buf_put buf CHR '' ''
         else Ret buf)
      else Ret buf)"

definition ntoa_format ::
    "out_fct_type \<Rightarrow> u64 \<Rightarrow> u64 \<Rightarrow> char list \<Rightarrow> bool \<Rightarrow> u32 \<Rightarrow> u32 \<Rightarrow> u32 \<Rightarrow> u32 \<Rightarrow> sink \<Rightarrow> (u64 \<times> sink) res" where
  "ntoa_format out idx maxlen buf negative base prec width flags s =
     bind_res (ntoa_pad buf negative prec width flags) (\<lambda>(buf, width).
     bind_res (ntoa_hash buf base prec width flags) (\<lambda>buf.
     bind_res (put_sign buf negative flags) (\<lambda>buf.
     out_rev out idx maxlen buf width flags s)))"

definition digit_char :: "u32 \<Rightarrow> nat \<Rightarrow> char" where
  "digit_char flags digit =
     (if digit < 10 then char_of (48 + digit)
      else char_of ((if flag flags FLAGS_UPPERCASE then 65 else 97) + digit - 10))"

text \<open>The \<^verbatim>\<open>do\<close> loop over the digits, least significant first.\<close>

function ntoa_digits :: "u32 \<Rightarrow> u64 \<Rightarrow> u64 \<Rightarrow> char list \<Rightarrow> char list res" where
  "ntoa_digits flags base val buf =
     bind_res (buf_put buf (digit_char flags (unat (val mod base)))) (\<lambda>buf.
     let val = val div base in
     if val \<noteq> 0 \<and> length buf < PRINTF_NTOA_BUFFER_SIZE then ntoa_digits flags base val buf else Ret buf)"
  by pat_completeness auto
termination
  by (relation "measure (\<lambda>(flags, base, val, buf). 32 - length buf)") (auto simp: buf_put_def split: if_splits)

declare ntoa_digits.simps [simp del]

definition ntoa_long ::
    "out_fct_type \<Rightarrow> u64 \<Rightarrow> u64 \<Rightarrow> u64 \<Rightarrow> bool \<Rightarrow> u64 \<Rightarrow> u32 \<Rightarrow> u32 \<Rightarrow> u32 \<Rightarrow> sink \<Rightarrow> (u64 \<times> sink) res" where
  "ntoa_long out idx maxlen val negative base prec width flags s =
     (let flags = (if val = 0 then flags AND NOT FLAGS_HASH else flags) in
      bind_res (if \<not> flag flags FLAGS_PRECISION \<or> val \<noteq> 0 then ntoa_digits flags base val [] else Ret []) (\<lambda>buf.
      ntoa_format out idx maxlen buf negative (ucast base) prec width flags s))"

text \<open>On the 64-bit targets \<^verbatim>\<open>long\<close> and \<^verbatim>\<open>long long\<close> have the same width; the code has the function twice.\<close>

definition ntoa_long_long ::
    "out_fct_type \<Rightarrow> u64 \<Rightarrow> u64 \<Rightarrow> u64 \<Rightarrow> bool \<Rightarrow> u64 \<Rightarrow> u32 \<Rightarrow> u32 \<Rightarrow> u32 \<Rightarrow> sink \<Rightarrow> (u64 \<times> sink) res" where
  "ntoa_long_long out idx maxlen val negative base prec width flags s =
     (let flags = (if val = 0 then flags AND NOT FLAGS_HASH else flags) in
      bind_res (if \<not> flag flags FLAGS_PRECISION \<or> val \<noteq> 0 then ntoa_digits flags base val [] else Ret []) (\<lambda>buf.
      ntoa_format out idx maxlen buf negative (ucast base) prec width flags s))"

section \<open>The text behind the output calls\<close>

text \<open>One call of the output function per character.\<close>

primrec out_all :: "out_fct_type \<Rightarrow> u64 \<Rightarrow> string \<Rightarrow> u64 \<times> sink \<Rightarrow> (u64 \<times> sink) res" where
  "out_all out maxlen [] st = Ret st"
| "out_all out maxlen (c # cs) st =
     bind_res (call_out out c (fst st) maxlen (snd st)) (\<lambda>s. out_all out maxlen cs (fst st + 1, s))"

lemma out_all_append: "out_all out maxlen (xs @ ys) st = bind_res (out_all out maxlen xs st) (out_all out maxlen ys)"
  by (induction xs arbitrary: st) (auto simp: bind_res_assoc intro: bind_res_cong)

lemma out_all_idx: "out_all out maxlen cs st = Ret st' \<Longrightarrow> fst st' = fst st + of_nat (length cs)"
  by (induction cs arbitrary: st) (auto simp: algebra_simps)

lemma out_times_eq: "out_times out maxlen c n st = out_all out maxlen (replicate n c) st"
  by (induction n arbitrary: st) simp_all

lemma out_rev_loop_eq:
  "len \<le> length buf \<Longrightarrow> out_rev_loop out maxlen buf len st = out_all out maxlen (rev (take len buf)) st"
proof (induction len arbitrary: st)
  case (Suc len)
  then have "rev (take (Suc len) buf) = buf ! len # rev (take len buf)" by (simp add: take_Suc_conv_app_nth)
  with Suc show ?case by simp
qed simp

lemma out_until_eq:
  "out_until out maxlen start_idx width (idx, s) =
     out_all out maxlen (replicate (unat width - unat (idx - start_idx)) CHR '' '') (idx, s)"
proof (induction "unat width - unat (idx - start_idx)" arbitrary: idx s)
  case 0
  then show ?case by (simp add: out_until.simps word_less_nat_alt)
next
  case (Suc n)
  then have lt: "idx - start_idx < width" by (simp add: word_less_nat_alt)
  have inc: "unat (idx + 1 - start_idx) = Suc (unat (idx - start_idx))"
    using unat_inc [OF lt] by (simp add: algebra_simps)
  then have n: "n = unat width - unat (idx + 1 - start_idx)" using Suc.hyps(2) by simp
  have "out_until out maxlen start_idx width (idx + 1, s') = out_all out maxlen (replicate n CHR '' '') (idx + 1, s')" for s'
    using Suc.hyps(1) [OF n, of s'] n by simp
  with lt show ?case
    unfolding Suc.hyps(2) [symmetric] by (subst out_until.simps) simp
qed

text \<open>The text that \<^verbatim>\<open>_out_rev\<close> puts out.\<close>

definition rev_text :: "char list \<Rightarrow> u32 \<Rightarrow> u32 \<Rightarrow> string" where
  "rev_text buf width flags =
     (let pad = replicate (unat width - length buf) CHR '' '' in
      if flag flags FLAGS_LEFT then rev buf @ pad
      else if flag flags FLAGS_ZEROPAD then rev buf else pad @ rev buf)"

lemma unat_ucast_u32: "unat (ucast (w :: u32) :: u64) = unat w"
  by (simp add: unsigned_ucast_eq take_bit_nat_eq_self_iff less_trans [OF unsigned_less])

lemma out_rev_eq:
  assumes "length buf \<le> 32"
  shows "out_rev out idx maxlen buf width flags s = out_all out maxlen (rev_text buf width flags) (idx, s)"
proof -
  have left: "out_until out maxlen idx (ucast width) st =
      out_all out maxlen (replicate (unat width - length buf) CHR '' '') st"
    if "out_all out maxlen (rev buf) (idx, s) = Ret st" for st
  proof -
    have "fst st - idx = of_nat (length buf)" using out_all_idx [OF that] by simp
    moreover have "unat (of_nat (length buf) :: u64) = length buf" using assms by (simp add: unat_of_nat)
    ultimately show ?thesis using out_until_eq [of out maxlen idx "ucast width" "fst st" "snd st"] by (simp add: unat_ucast_u32)
  qed
  show ?thesis
  proof (cases "flag flags FLAGS_LEFT")
    case True
    then show ?thesis
      using left by (auto simp: out_rev_def rev_text_def out_rev_loop_eq out_all_append intro: bind_res_cong)
  next
    case False
    then show ?thesis
      by (simp add: out_rev_def rev_text_def out_rev_loop_eq out_times_eq out_all_append)
  qed
qed

section \<open>Conversion of integers\<close>

lemma zero_fill_eq: "zero_fill n buf = Ret (buf @ replicate (min n 32 - length buf) CHR ''0'')"
proof (induction n buf rule: zero_fill.induct)
  case (1 n buf)
  show ?case
  proof (cases "length buf < n \<and> length buf < 32")
    case True
    then have "min n 32 - length buf = Suc (min n 32 - Suc (length buf))" by linarith
    with True 1 show ?thesis by (subst zero_fill.simps) (simp add: buf_put_def)
  next
    case False
    then have "min n 32 - length buf = 0" by linarith
    with False show ?thesis by (subst zero_fill.simps) auto
  qed
qed

text \<open>The reference: the digits of a number, least significant first.\<close>

fun digits :: "nat \<Rightarrow> nat \<Rightarrow> nat list" where
  "digits b n = (if b < 2 \<or> n < b then [n] else n mod b # digits b (n div b))"

declare digits.simps [simp del]


lemma digits_small: "n < b \<Longrightarrow> digits b n = [n]"
  by (simp add: digits.simps [of b n])

lemma digits_large: "2 \<le> b \<Longrightarrow> b \<le> n \<Longrightarrow> digits b n = n mod b # digits b (n div b)"
  by (simp add: digits.simps [of b n])

lemma digits_not_Nil [simp]: "digits b n \<noteq> []"
  by (simp add: digits.simps [of b n])

lemma ntoa_digits_eq:
  assumes "2 \<le> unat base" and "length buf < 32"
  shows "ntoa_digits flags base val buf =
    Ret (buf @ map (digit_char flags) (take (32 - length buf) (digits (unat base) (unat val))))"
  using assms
proof (induction flags base val buf rule: ntoa_digits.induct)
  case (1 flags base val buf)
  let ?c = "digit_char flags (unat (val mod base))"
  have put: "buf_put buf c = Ret (buf @ [c])" for c using 1(3) by (simp add: buf_put_def)
  have z: "val div base = 0 \<longleftrightarrow> unat val < unat base"
    using 1(2) by (auto simp: unat_div div_eq_0_iff simp flip: unat_eq_zero)
  have n32: "32 - length buf = Suc (31 - length buf)" using 1(3) by linarith
  show ?case
  proof (cases "unat val < unat base")
    case True
    then show ?thesis
      by (subst ntoa_digits.simps) (simp add: put z n32 digits_small unat_mod)
  next
    case False
    then have d: "digits (unat base) (unat val) = unat (val mod base) # digits (unat base) (unat (val div base))"
      using 1(2) by (simp add: digits_large unat_mod unat_div)
    show ?thesis
    proof (cases "length buf < 31")
      case True
      then show ?thesis
        using False 1(2) 1(1) [OF put refl]
        by (subst ntoa_digits.simps) (simp add: put z n32 d)
    next
      case False
      then have "length buf = 31" using 1(3) by simp
      then show ?thesis
        by (subst ntoa_digits.simps) (simp add: put n32 d)
    qed
  qed
qed


text \<open>
  The bytes that end up in the conversion buffer, without the buffer: digits, zeros up to the
  precision and the width, base prefix and sign, each as far as there is room.
\<close>

definition put_room :: "char list \<Rightarrow> char \<Rightarrow> char list" where
  "put_room buf c = (if length buf < 32 then buf @ [c] else buf)"

definition zeros_room :: "nat \<Rightarrow> char list \<Rightarrow> char list" where
  "zeros_room n buf = buf @ replicate (min n 32 - length buf) CHR ''0''"

definition digits_buf :: "u64 \<Rightarrow> u64 \<Rightarrow> u32 \<Rightarrow> char list" where
  "digits_buf val base flags =
     (if flag flags FLAGS_PRECISION \<and> val = 0 then []
      else map (digit_char flags) (take 32 (digits (unat base) (unat val))))"

definition field_width :: "bool \<Rightarrow> u32 \<Rightarrow> u32 \<Rightarrow> u32" where
  "field_width negative width flags =
     (if \<not> flag flags FLAGS_LEFT \<and> width \<noteq> 0 \<and> flag flags FLAGS_ZEROPAD \<and>
         (negative \<or> flag flags (FLAGS_PLUS OR FLAGS_SPACE)) then width - 1 else width)"

definition zeros_buf :: "char list \<Rightarrow> u32 \<Rightarrow> u32 \<Rightarrow> u32 \<Rightarrow> char list" where
  "zeros_buf buf prec width flags =
     (if flag flags FLAGS_LEFT then buf
      else (if flag flags FLAGS_ZEROPAD then zeros_room (unat width) else (\<lambda>b. b)) (zeros_room (unat prec) buf))"

definition prefix_buf :: "char list \<Rightarrow> u32 \<Rightarrow> u32 \<Rightarrow> u32 \<Rightarrow> u32 \<Rightarrow> char list" where
  "prefix_buf buf base prec width flags =
     (if flag flags FLAGS_HASH then
        (let shorter = (if \<not> flag flags FLAGS_PRECISION \<and> (length buf = unat prec \<or> length buf = unat width)
               then take (length buf - (if base = 16 then 2 else 1)) buf else buf)
         in put_room (if base = 16 then put_room shorter (if flag flags FLAGS_UPPERCASE then CHR ''X'' else CHR ''x'')
                      else if base = 2 then put_room shorter CHR ''b'' else shorter) CHR ''0'')
      else buf)"

definition sign_buf :: "char list \<Rightarrow> bool \<Rightarrow> u32 \<Rightarrow> char list" where
  "sign_buf buf negative flags =
     (if negative then put_room buf CHR ''-''
      else if flag flags FLAGS_PLUS then put_room buf CHR ''+''
      else if flag flags FLAGS_SPACE then put_room buf CHR '' ''
      else buf)"

definition int_buf :: "u64 \<Rightarrow> bool \<Rightarrow> u64 \<Rightarrow> u32 \<Rightarrow> u32 \<Rightarrow> u32 \<Rightarrow> char list" where
  "int_buf val negative base prec width flags =
     sign_buf (prefix_buf (zeros_buf (digits_buf val base flags) prec width flags) (ucast base) prec width flags)
       negative flags"

text \<open>The text of a converted integer.\<close>

definition int_text :: "u64 \<Rightarrow> bool \<Rightarrow> u64 \<Rightarrow> u32 \<Rightarrow> u32 \<Rightarrow> u32 \<Rightarrow> string" where
  "int_text val negative base prec width flags =
     (let flags = (if val = 0 then flags AND NOT FLAGS_HASH else flags);
          width = field_width negative width flags
      in rev_text (int_buf val negative base prec width flags) width flags)"

lemma put_if_room: "(if length buf < 32 then buf_put buf c else Ret buf) = Ret (put_room buf c)"
  by (simp add: buf_put_def put_room_def)

lemma zero_fill_room: "zero_fill n buf = Ret (zeros_room n buf)"
  by (simp add: zero_fill_eq zeros_room_def)

lemma length_put_room [simp]: "length (put_room buf c) \<le> 32 \<longleftrightarrow> length buf \<le> 32"
  by (auto simp: put_room_def)

lemma length_zeros_room [simp]: "length (zeros_room n buf) \<le> 32 \<longleftrightarrow> length buf \<le> 32"
  by (auto simp: zeros_room_def)

lemma length_digits_buf [simp]: "length (digits_buf val base flags) \<le> 32"
  by (simp add: digits_buf_def)

lemma length_zeros_buf [simp]: "length (zeros_buf buf prec width flags) \<le> 32 \<longleftrightarrow> length buf \<le> 32"
  by (simp add: zeros_buf_def)

lemma length_prefix_buf [simp]: "length buf \<le> 32 \<Longrightarrow> length (prefix_buf buf base prec width flags) \<le> 32"
  by (simp add: prefix_buf_def Let_def le_trans [OF diff_le_self])

lemma length_sign_buf [simp]: "length (sign_buf buf negative flags) \<le> 32 \<longleftrightarrow> length buf \<le> 32"
  by (simp add: sign_buf_def)

lemma length_int_buf: "length (int_buf val negative base prec width flags) \<le> 32"
  by (simp add: int_buf_def)

lemma ntoa_pad_eq:
  "ntoa_pad buf negative prec width flags =
     Ret (zeros_buf buf prec (field_width negative width flags) flags, field_width negative width flags)"
  by (simp add: ntoa_pad_def zeros_buf_def field_width_def zero_fill_eq Let_def flip: zeros_room_def)

lemma butlast_twice: "(let b = butlast buf in if b \<noteq> [] \<and> base = 16 then butlast b else b) =
    take (length buf - (if base = (16 :: u32) then 2 else 1)) buf"
proof (cases "butlast buf = []")
  case True
  then have "length buf \<le> 1" by (metis One_nat_def diff_is_0_eq length_butlast list.size(3))
  with True show ?thesis by (simp add: butlast_conv_take)
next
  case False
  then show ?thesis by (auto simp: butlast_conv_take take_butlast min_def numeral_2_eq_2)
qed

lemma ntoa_hash_eq:
  assumes "length buf \<le> 32"
  shows "ntoa_hash buf base prec width flags = Ret (prefix_buf buf base prec width flags)"
proof -
  define short where "short = (if \<not> flag flags FLAGS_PRECISION \<and> (length buf = unat prec \<or> length buf = unat width)
    then take (length buf - (if base = 16 then 2 else 1)) buf else buf)"
  have "(if \<not> flag flags FLAGS_PRECISION \<and> buf \<noteq> [] \<and> (length buf = unat prec \<or> length buf = unat width)
      then (let b = butlast buf in if b \<noteq> [] \<and> base = 16 then butlast b else b) else buf) = short"
    unfolding butlast_twice short_def by auto
  then show ?thesis
    unfolding ntoa_hash_def prefix_buf_def short_def [symmetric]
    by (simp add: buf_put_def put_room_def)
qed

lemma put_sign_eq: "put_sign buf negative flags = Ret (sign_buf buf negative flags)"
  by (simp add: put_sign_def sign_buf_def put_room_def buf_put_def)

lemma ntoa_format_eq:
  assumes "length buf \<le> 32"
  shows "ntoa_format out idx maxlen buf negative base prec width flags s =
    (let width = field_width negative width flags in
     out_all out maxlen (rev_text (sign_buf (prefix_buf (zeros_buf buf prec width flags) base prec width flags)
       negative flags) width flags) (idx, s))"
  using assms
  by (simp add: ntoa_format_def ntoa_pad_eq ntoa_hash_eq put_sign_eq Let_def out_rev_eq)

lemma ntoa_long_eq:
  assumes "2 \<le> unat base"
  shows "ntoa_long out idx maxlen val negative base prec width flags s =
    out_all out maxlen (int_text val negative base prec width flags) (idx, s)"
  using assms
  by (simp add: ntoa_long_def ntoa_digits_eq ntoa_format_eq int_text_def int_buf_def digits_buf_def Let_def)

lemma ntoa_long_long_eq: "ntoa_long_long = ntoa_long"
  by (intro ext) (simp add: ntoa_long_long_def ntoa_long_def)
end
