(* ===== verification/Cdouble.thy ===== *)
theory Cdouble imports Prelude begin

text \<open>
  C's \<^verbatim>\<open>double\<close> on the targets: IEEE 754 binary64, rounding to nearest, ties to even, every operation
  rounded on its own. A finite number is a whole number of units, \<open>Dfin m e\<close> being \<open>m * 2 ^ e\<close>;
  all operations compute on integers. The sign of zero is not kept: nothing in the conversion
  code can see it.
\<close>

datatype cdouble = Dnan | Dinf bool | Dfin int int

section \<open>Rounding\<close>

text \<open>The number of binary digits.\<close>

function bits :: "int \<Rightarrow> int" where
  "bits n = (if n \<le> 0 then 0 else 1 + bits (n div 2))"
  by pat_completeness auto
termination
  by (relation "measure nat") auto

declare bits.simps [simp del]

text \<open>\<open>n / 2 ^ k\<close> to the nearest whole number, a tie to the even one.\<close>

definition shift_round :: "int \<Rightarrow> nat \<Rightarrow> int" where
  "shift_round n k =
     (let q = n div 2 ^ k; r = n mod 2 ^ k in
      if 2 * r < 2 ^ k \<or> 2 * r = 2 ^ k \<and> even q then q else q + 1)"

text \<open>The nearest double of \<open>\<plusminus> n * 2 ^ e\<close>: 53 binary digits, no unit below \<open>2 ^ -1074\<close>.\<close>

definition dround :: "bool \<Rightarrow> int \<Rightarrow> int \<Rightarrow> cdouble" where
  "dround neg n e =
     (if n = 0 then Dfin 0 0
      else
        (let k = max (bits n - 53) (-1074 - e);
             (m, x) = (if k \<le> 0 then (n, e) else (shift_round n (nat k), e + k));
             (m, x) = (if m = 2 ^ 53 then (2 ^ 52, x + 1) else (m, x))
         in if 1024 < bits m + x then Dinf neg
            else Dfin (if neg then - m else m) x))"

section \<open>Arithmetic\<close>

definition d_of_int :: "int \<Rightarrow> cdouble" where
  "d_of_int i = dround (i < 0) \<bar>i\<bar> 0"

fun dneg :: "cdouble \<Rightarrow> cdouble" where
  "dneg Dnan = Dnan"
| "dneg (Dinf s) = Dinf (\<not> s)"
| "dneg (Dfin m e) = Dfin (- m) e"

fun dadd :: "cdouble \<Rightarrow> cdouble \<Rightarrow> cdouble" where
  "dadd (Dfin m e) (Dfin m' e') =
     (let x = min e e'; sum = m * 2 ^ nat (e - x) + m' * 2 ^ nat (e' - x) in dround (sum < 0) \<bar>sum\<bar> x)"
| "dadd (Dinf s) (Dinf s') = (if s = s' then Dinf s else Dnan)"
| "dadd (Dinf s) (Dfin _ _) = Dinf s"
| "dadd (Dfin _ _) (Dinf s) = Dinf s"
| "dadd Dnan _ = Dnan"
| "dadd _ Dnan = Dnan"

definition dsub :: "cdouble \<Rightarrow> cdouble \<Rightarrow> cdouble" where
  "dsub a b = dadd a (dneg b)"

fun dmul :: "cdouble \<Rightarrow> cdouble \<Rightarrow> cdouble" where
  "dmul (Dfin m e) (Dfin m' e') = dround ((m < 0) \<noteq> (m' < 0)) \<bar>m * m'\<bar> (e + e')"
| "dmul (Dinf s) (Dinf s') = Dinf (s \<noteq> s')"
| "dmul (Dinf s) (Dfin m _) = (if m = 0 then Dnan else Dinf (s \<noteq> (m < 0)))"
| "dmul (Dfin m _) (Dinf s) = (if m = 0 then Dnan else Dinf (s \<noteq> (m < 0)))"
| "dmul Dnan _ = Dnan"
| "dmul _ Dnan = Dnan"

text \<open>
  The quotient of two whole numbers with at least 55 binary digits, and one more digit that is set
  when the division leaves a remainder: it rounds as the exact quotient does.
\<close>

definition sticky_div :: "int \<Rightarrow> int \<Rightarrow> int \<times> int" where
  "sticky_div n n' =
     (let k = 55 + bits n'; q = n * 2 ^ nat k div n'; r = n * 2 ^ nat k mod n' in
      (2 * q + (if r = 0 then 0 else 1), - k - 1))"

fun ddiv :: "cdouble \<Rightarrow> cdouble \<Rightarrow> cdouble" where
  "ddiv (Dfin m e) (Dfin m' e') =
     (if m' = 0 then (if m = 0 then Dnan else Dinf (m < 0))
      else (let (q, x) = sticky_div \<bar>m\<bar> \<bar>m'\<bar>
            in dround ((m < 0) \<noteq> (m' < 0)) q (e - e' + x)))"
| "ddiv (Dinf s) (Dinf s') = Dnan"
| "ddiv (Dinf s) (Dfin m _) = Dinf (s \<noteq> (m < 0))"
| "ddiv (Dfin _ _) (Dinf s) = Dfin 0 0"
| "ddiv Dnan _ = Dnan"
| "ddiv _ Dnan = Dnan"

text \<open>A decimal constant of the source, \<open>m / 10 ^ k\<close>, to the nearest double.\<close>

definition decimal :: "int \<Rightarrow> nat \<Rightarrow> cdouble" where
  "decimal m k = ddiv (Dfin m 0) (Dfin (10 ^ k) 0)"

section \<open>Comparison and conversion\<close>

fun dlt :: "cdouble \<Rightarrow> cdouble \<Rightarrow> bool" where
  "dlt (Dfin m e) (Dfin m' e') \<longleftrightarrow>
     (let x = min e e' in m * 2 ^ nat (e - x) < m' * 2 ^ nat (e' - x))"
| "dlt (Dinf s) (Dinf s') \<longleftrightarrow> s \<and> \<not> s'"
| "dlt (Dinf s) (Dfin _ _) \<longleftrightarrow> s"
| "dlt (Dfin _ _) (Dinf s) \<longleftrightarrow> \<not> s"
| "dlt Dnan _ \<longleftrightarrow> False"
| "dlt _ Dnan \<longleftrightarrow> False"

text \<open>The whole part, towards zero. The conversion of a value outside the type is undefined.\<close>

definition trunc_units :: "int \<Rightarrow> int \<Rightarrow> int" where
  "trunc_units m e = (if 0 \<le> e then m * 2 ^ nat e else sgn m * (\<bar>m\<bar> div 2 ^ nat (- e)))"

definition d_to_range :: "int \<Rightarrow> int \<Rightarrow> cdouble \<Rightarrow> int res" where
  "d_to_range lo hi d =
     (case d of
        Dfin m e \<Rightarrow> (let t = trunc_units m e in if lo \<le> t \<and> t < hi then Ret t else Fault Int_overflow)
      | _ \<Rightarrow> Fault Int_overflow)"

definition d_to_int :: "cdouble \<Rightarrow> int res" where
  "d_to_int = d_to_range (- (2 ^ 31)) (2 ^ 31)"

definition d_to_ulong :: "cdouble \<Rightarrow> u64 res" where
  "d_to_ulong d = bind_res (d_to_range 0 (2 ^ 64) d) (\<lambda>t. Ret (of_int t))"

definition d_of_ulong :: "u64 \<Rightarrow> cdouble" where
  "d_of_ulong w = d_of_int (uint w)"

text \<open>The largest finite double.\<close>

definition DBL_MAX :: cdouble where
  "DBL_MAX = Dfin (2 ^ 53 - 1) 971"

text \<open>The representation that a \<^verbatim>\<open>union\<close> with a 64-bit integer shows.\<close>

fun double_bits :: "cdouble \<Rightarrow> u64" where
  "double_bits Dnan = push_bit 51 0xFFF"
| "double_bits (Dinf s) = push_bit 52 0x7FF OR (if s then push_bit 63 1 else 0)"
| "double_bits (Dfin m e) =
     (let n = \<bar>m\<bar>; k = bits n in
      (if m < 0 then push_bit 63 1 else 0) OR
      (if n = 0 then 0
       else if k + e - 1 < -1022 then of_int (n * 2 ^ nat (e + 1074))
       else push_bit 52 (of_int (k + e - 1 + 1023)) OR of_int (n * 2 ^ nat (53 - k) - 2 ^ 52)))"

definition bits_double :: "u64 \<Rightarrow> cdouble" where
  "bits_double w =
     (let ex = uint (drop_bit 52 w AND 0x7FF); frac = uint (w AND (push_bit 52 1 - 1));
          sign = (if bit w 63 then -1 else 1)
      in if ex = 0x7FF then (if frac = 0 then Dinf (bit w 63) else Dnan)
         else if ex = 0 then Dfin (sign * frac) (-1074)
         else Dfin (sign * (frac + 2 ^ 52)) (ex - 1075))"

end
