(* ===== verification/Printf_Float.thy ===== *)
theory Printf_Float imports Printf_Num Cdouble begin

text \<open>
  The conversion of floating-point numbers of \<^verbatim>\<open>util/printf.c\<close>: \<^verbatim>\<open>_ftoa\<close> for the fixed and \<^verbatim>\<open>_etoa\<close> for
  the exponential notation, which call each other.
\<close>

section \<open>Fixed notation\<close>

definition PRINTF_DEFAULT_FLOAT_PRECISION :: u32 where "PRINTF_DEFAULT_FLOAT_PRECISION = 6"

definition PRINTF_MAX_FLOAT :: cdouble where "PRINTF_MAX_FLOAT = d_of_int 1000000000"

definition pow10 :: "cdouble list" where
  "pow10 = map d_of_int
     [1, 10, 100, 1000, 10000, 100000, 1000000, 10000000, 100000000, 1000000000]"

text \<open>The loop that turns a precision above 9 into trailing zeros.\<close>

function ftoa_limit :: "char list \<Rightarrow> u32 \<Rightarrow> (char list \<times> u32) res" where
  "ftoa_limit buf prec =
     (if length buf < 32 \<and> 9 < prec
      then bind_res (buf_put buf CHR ''0'') (\<lambda>buf. ftoa_limit buf (prec - 1))
      else Ret (buf, prec))"
  by pat_completeness auto
termination
  by (relation "measure (\<lambda>(buf, prec). 32 - length buf)") (auto simp: buf_put_def)

declare ftoa_limit.simps [simp del]

text \<open>\<^verbatim>\<open>++whole\<close> on an \<^verbatim>\<open>int\<close>.\<close>

definition int_inc :: "int \<Rightarrow> int res" where
  "int_inc i = (if i + 1 < 2 ^ 31 then Ret (i + 1) else Fault Int_overflow)"

text \<open>Splitting a value into whole and fraction, rounded to the precision.\<close>

definition ftoa_split :: "cdouble \<Rightarrow> u32 \<Rightarrow> (int \<times> u64) res" where
  "ftoa_split val prec =
     bind_res (d_to_int val) (\<lambda>whole.
     bind_res (arr_get pow10 (uint prec)) (\<lambda>scale.
     let tmp = dmul (dsub val (d_of_int whole)) scale in
     bind_res (d_to_ulong tmp) (\<lambda>frac.
     let diff = dsub tmp (d_of_ulong frac) in
     if dlt (decimal 5 1) diff then
       (let frac = frac + 1 in
        if \<not> dlt (d_of_ulong frac) scale then bind_res (int_inc whole) (\<lambda>whole. Ret (whole, 0))
        else Ret (whole, frac))
     else if dlt diff (decimal 5 1) then Ret (whole, frac)
     else if frac = 0 \<or> frac AND 1 \<noteq> 0 then Ret (whole, frac + 1)
     else Ret (whole, frac))))"

text \<open>The loop over the digits of the fraction, with the count of digits still wanted.\<close>

function ftoa_frac :: "char list \<Rightarrow> u64 \<Rightarrow> u32 \<Rightarrow> (char list \<times> u32) res" where
  "ftoa_frac buf frac count =
     (if length buf < 32
      then bind_res (buf_put buf (char_of (48 + unat (frac mod 10)))) (\<lambda>buf.
           if frac div 10 = 0 then Ret (buf, count - 1) else ftoa_frac buf (frac div 10) (count - 1))
      else Ret (buf, count))"
  by pat_completeness auto
termination
  by (relation "measure (\<lambda>(buf, frac, count). 32 - length buf)") (auto simp: buf_put_def)

declare ftoa_frac.simps [simp del]

text \<open>The digits of the whole part.\<close>

function ftoa_whole :: "char list \<Rightarrow> int \<Rightarrow> char list res" where
  "ftoa_whole buf whole =
     (if length buf < 32
      then bind_res (buf_put buf (char_of (48 + nat (whole mod 10)))) (\<lambda>buf.
           if whole div 10 = 0 then Ret buf else ftoa_whole buf (whole div 10))
      else Ret buf)"
  by pat_completeness auto
termination
  by (relation "measure (\<lambda>(buf, whole). 32 - length buf)") (auto simp: buf_put_def)

declare ftoa_whole.simps [simp del]

definition ftoa_fraction :: "char list \<Rightarrow> cdouble \<Rightarrow> int \<Rightarrow> u64 \<Rightarrow> u32 \<Rightarrow> (char list \<times> int) res" where
  "ftoa_fraction buf val whole frac prec =
     (if prec = 0 then
        (let diff = dsub val (d_of_int whole) in
         if (\<not> dlt diff (decimal 5 1) \<or> dlt (decimal 5 1) diff) \<and> odd whole
         then bind_res (int_inc whole) (\<lambda>whole. Ret (buf, whole))
         else Ret (buf, whole))
      else
        bind_res (ftoa_frac buf frac prec) (\<lambda>(buf, count).
        bind_res (zero_fill (length buf + unat count) buf) (\<lambda>buf.
        bind_res (if length buf < 32 then buf_put buf CHR ''.'' else Ret buf) (\<lambda>buf.
        Ret (buf, whole)))))"

text \<open>The part of \<^verbatim>\<open>_ftoa\<close> for values of at most \<^verbatim>\<open>PRINTF_MAX_FLOAT\<close>.\<close>

definition ftoa_fixed ::
    "out_fct_type \<Rightarrow> u64 \<Rightarrow> u64 \<Rightarrow> cdouble \<Rightarrow> u32 \<Rightarrow> u32 \<Rightarrow> u32 \<Rightarrow> sink \<Rightarrow> (u64 \<times> sink) res" where
  "ftoa_fixed out idx maxlen val prec width flags s =
     (let negative = dlt val (Dfin 0 0);
          val = (if negative then dsub (Dfin 0 0) val else val);
          prec = (if \<not> flag flags FLAGS_PRECISION then PRINTF_DEFAULT_FLOAT_PRECISION else prec)
      in bind_res (ftoa_limit [] prec) (\<lambda>(buf, prec).
         bind_res (ftoa_split val prec) (\<lambda>(whole, frac).
         bind_res (ftoa_fraction buf val whole frac prec) (\<lambda>(buf, whole).
         bind_res (ftoa_whole buf whole) (\<lambda>buf.
         let zeropad = \<not> flag flags FLAGS_LEFT \<and> flag flags FLAGS_ZEROPAD;
             width = (if zeropad \<and> width \<noteq> 0 \<and> (negative \<or> flag flags (FLAGS_PLUS OR FLAGS_SPACE))
               then width - 1 else width)
         in bind_res (if zeropad then zero_fill (unat width) buf else Ret buf) (\<lambda>buf.
            bind_res (put_sign buf negative flags) (\<lambda>buf.
            out_rev out idx maxlen buf width flags s)))))))"

section \<open>Exponential notation\<close>

text \<open>
  The decimal exponent of a positive value and the double nearest to the power of ten, as the
  code approximates them.
\<close>

definition etoa_scale :: "cdouble \<Rightarrow> (int \<times> cdouble) res" where
  "etoa_scale val =
     (let U = double_bits val;
          exp2 = uint (drop_bit 52 U AND 0x07FF) - 1023;
          F = bits_double ((U AND (push_bit 52 1 - 1)) OR push_bit 52 1023)
      in bind_res (d_to_int (dadd (dadd (decimal 1760912590558 13) (dmul (d_of_int exp2) (decimal 301029995663981 15)))
             (dmul (dsub F (decimal 15 1)) (decimal 289529654602168 15)))) (\<lambda>expval.
         bind_res (d_to_int (dadd (dmul (d_of_int expval) (decimal 3321928094887362 15)) (decimal 5 1))) (\<lambda>exp2.
         let z = dsub (dmul (d_of_int expval) (decimal 2302585092994046 15))
               (dmul (d_of_int exp2) (decimal 6931471805599453 16));
             z2 = dmul z z;
             F = dmul (bits_double (push_bit 52 (of_int (exp2 + 1023))))
               (dadd (d_of_int 1) (ddiv (dmul (d_of_int 2) z)
                 (dadd (dsub (d_of_int 2) z)
                   (ddiv z2 (dadd (d_of_int 6) (ddiv z2 (dadd (d_of_int 10) (ddiv z2 (d_of_int 14)))))))))
         in Ret (if dlt val F then (expval - 1, ddiv F (d_of_int 10)) else (expval, F)))))"

text \<open>In \<^verbatim>\<open>%g\<close> mode: whether to fall back to the fixed notation, and the precision to use.\<close>

definition int_range :: "int \<Rightarrow> int res" where
  "int_range i = (if - (2 ^ 31) \<le> i \<and> i < 2 ^ 31 then Ret i else Fault Int_overflow)"

definition etoa_adapt :: "cdouble \<Rightarrow> int \<Rightarrow> u32 \<Rightarrow> u32 \<Rightarrow> u32 \<Rightarrow> (u32 \<times> u32 \<times> u32 \<times> int) res" where
  "etoa_adapt val expval prec minwidth flags =
     (if flag flags FLAGS_ADAPT_EXP then
        (if \<not> dlt val (decimal 1 4) \<and> dlt val (d_of_int 1000000) then
           bind_res
             (if expval < sint prec
              then bind_res (int_range (sint prec - expval)) (\<lambda>i. bind_res (int_range (i - 1)) (\<lambda>i. Ret (of_int i)))
              else Ret 0) (\<lambda>prec.
           Ret (prec, flags OR FLAGS_PRECISION, 0, 0))
         else Ret (if 0 < prec \<and> flag flags FLAGS_PRECISION then prec - 1 else prec, flags, minwidth, expval))
      else Ret (prec, flags, minwidth, expval))"

definition etoa_exponent ::
    "out_fct_type \<Rightarrow> u64 \<Rightarrow> u64 \<Rightarrow> u64 \<Rightarrow> int \<Rightarrow> u32 \<Rightarrow> u32 \<Rightarrow> u32 \<Rightarrow> sink \<Rightarrow> (u64 \<times> sink) res" where
  "etoa_exponent out start_idx idx maxlen expval minwidth width flags s =
     (if minwidth \<noteq> 0 then
        bind_res (call_out out (if flag flags FLAGS_UPPERCASE then CHR ''E'' else CHR ''e'') idx maxlen s) (\<lambda>s.
        bind_res (ntoa_long out (idx + 1) maxlen (of_int \<bar>expval\<bar>) (expval < 0) 10 0 (minwidth - 1)
            (FLAGS_ZEROPAD OR FLAGS_PLUS) s) (\<lambda>st.
        if flag flags FLAGS_LEFT then out_until out maxlen start_idx (ucast width) st else Ret st))
      else Ret (idx, s))"

text \<open>The two functions, with the number of nested calls that the model follows.\<close>

fun ftoa :: "nat \<Rightarrow> out_fct_type \<Rightarrow> u64 \<Rightarrow> u64 \<Rightarrow> cdouble \<Rightarrow> u32 \<Rightarrow> u32 \<Rightarrow> u32 \<Rightarrow> sink \<Rightarrow> (u64 \<times> sink) res"
and etoa :: "nat \<Rightarrow> out_fct_type \<Rightarrow> u64 \<Rightarrow> u64 \<Rightarrow> cdouble \<Rightarrow> u32 \<Rightarrow> u32 \<Rightarrow> u32 \<Rightarrow> sink \<Rightarrow> (u64 \<times> sink) res"
where
  "ftoa 0 out idx maxlen val prec width flags s = Fault Call_depth"
| "ftoa (Suc depth) out idx maxlen val prec width flags s =
     (if val = Dnan then out_rev out idx maxlen ''nan'' width flags s
      else if dlt val (dneg DBL_MAX) then out_rev out idx maxlen ''fni-'' width flags s
      else if dlt DBL_MAX val
      then out_rev out idx maxlen (if flag flags FLAGS_PLUS then ''fni+'' else ''fni'') width flags s
      else if dlt PRINTF_MAX_FLOAT val \<or> dlt val (dneg PRINTF_MAX_FLOAT)
      then etoa depth out idx maxlen val prec width flags s
      else ftoa_fixed out idx maxlen val prec width flags s)"
| "etoa 0 out idx maxlen val prec width flags s = Fault Call_depth"
| "etoa (Suc depth) out idx maxlen val prec width flags s =
     (if val = Dnan \<or> dlt DBL_MAX val \<or> dlt val (dneg DBL_MAX)
      then ftoa depth out idx maxlen val prec width flags s
      else
        (let negative = dlt val (Dfin 0 0);
             val = (if negative then dneg val else val);
             prec = (if \<not> flag flags FLAGS_PRECISION then PRINTF_DEFAULT_FLOAT_PRECISION else prec)
         in bind_res (etoa_scale val) (\<lambda>(expval, F).
            bind_res (etoa_adapt val expval prec (if expval < 100 \<and> -100 < expval then 4 else 5) flags)
              (\<lambda>(prec, flags, minwidth, expval).
            let fwidth = (if minwidth < width then width - minwidth else 0);
                fwidth = (if flag flags FLAGS_LEFT \<and> minwidth \<noteq> 0 then 0 else fwidth);
                val = (if expval \<noteq> 0 then ddiv val F else val)
            in bind_res (ftoa depth out idx maxlen (if negative then dneg val else val) prec fwidth
                   (flags AND NOT FLAGS_ADAPT_EXP) s) (\<lambda>(idx', s).
               etoa_exponent out idx idx' maxlen expval minwidth width flags s)))))"

section \<open>The text of a converted number\<close>

text \<open>The conversion buffer of \<^verbatim>\<open>_ftoa\<close> and the width left for padding.\<close>

definition ftoa_buf :: "cdouble \<Rightarrow> u32 \<Rightarrow> u32 \<Rightarrow> u32 \<Rightarrow> (char list \<times> u32) res" where
  "ftoa_buf val prec width flags =
     (let negative = dlt val (Dfin 0 0);
          val = (if negative then dsub (Dfin 0 0) val else val);
          prec = (if \<not> flag flags FLAGS_PRECISION then PRINTF_DEFAULT_FLOAT_PRECISION else prec);
          width = field_width negative width flags
      in bind_res (ftoa_limit [] prec) (\<lambda>(buf, prec).
         bind_res (ftoa_split val prec) (\<lambda>(whole, frac).
         bind_res (ftoa_fraction buf val whole frac prec) (\<lambda>(buf, whole).
         bind_res (ftoa_whole buf whole) (\<lambda>buf.
         Ret (sign_buf (zeros_buf buf 0 width flags) negative flags, width))))))"

text \<open>What follows the digits: the exponent and, when adjusting to the left, spaces up to the width.\<close>

definition exponent_text :: "string \<Rightarrow> int \<Rightarrow> u32 \<Rightarrow> u32 \<Rightarrow> u32 \<Rightarrow> string" where
  "exponent_text t expval minwidth width flags =
     (if minwidth \<noteq> 0 then
        (let ex = (if flag flags FLAGS_UPPERCASE then CHR ''E'' else CHR ''e'') #
               int_text (of_int \<bar>expval\<bar>) (expval < 0) 10 0 (minwidth - 1) (FLAGS_ZEROPAD OR FLAGS_PLUS)
         in ex @ (if flag flags FLAGS_LEFT
              then replicate (unat width - unat (of_nat (length (t @ ex)) :: u64)) CHR '' '' else []))
      else [])"

fun ftoa_text :: "nat \<Rightarrow> cdouble \<Rightarrow> u32 \<Rightarrow> u32 \<Rightarrow> u32 \<Rightarrow> string res"
and etoa_text :: "nat \<Rightarrow> cdouble \<Rightarrow> u32 \<Rightarrow> u32 \<Rightarrow> u32 \<Rightarrow> string res"
where
  "ftoa_text 0 val prec width flags = Fault Call_depth"
| "ftoa_text (Suc depth) val prec width flags =
     (if val = Dnan then Ret (rev_text ''nan'' width flags)
      else if dlt val (dneg DBL_MAX) then Ret (rev_text ''fni-'' width flags)
      else if dlt DBL_MAX val then Ret (rev_text (if flag flags FLAGS_PLUS then ''fni+'' else ''fni'') width flags)
      else if dlt PRINTF_MAX_FLOAT val \<or> dlt val (dneg PRINTF_MAX_FLOAT) then etoa_text depth val prec width flags
      else bind_res (ftoa_buf val prec width flags) (\<lambda>(buf, width). Ret (rev_text buf width flags)))"
| "etoa_text 0 val prec width flags = Fault Call_depth"
| "etoa_text (Suc depth) val prec width flags =
     (if val = Dnan \<or> dlt DBL_MAX val \<or> dlt val (dneg DBL_MAX) then ftoa_text depth val prec width flags
      else
        (let negative = dlt val (Dfin 0 0);
             val = (if negative then dneg val else val);
             prec = (if \<not> flag flags FLAGS_PRECISION then PRINTF_DEFAULT_FLOAT_PRECISION else prec)
         in bind_res (etoa_scale val) (\<lambda>(expval, F).
            bind_res (etoa_adapt val expval prec (if expval < 100 \<and> -100 < expval then 4 else 5) flags)
              (\<lambda>(prec, flags, minwidth, expval).
            let fwidth = (if minwidth < width then width - minwidth else 0);
                fwidth = (if flag flags FLAGS_LEFT \<and> minwidth \<noteq> 0 then 0 else fwidth);
                val = (if expval \<noteq> 0 then ddiv val F else val)
            in bind_res (ftoa_text depth (if negative then dneg val else val) prec fwidth
                   (flags AND NOT FLAGS_ADAPT_EXP)) (\<lambda>t.
               Ret (t @ exponent_text t expval minwidth width flags))))))"

lemma buf_put_length: "buf_put buf c = Ret buf' \<Longrightarrow> length buf' \<le> 32"
  by (auto simp: buf_put_def split: if_splits)

lemma ftoa_limit_eq:
  "ftoa_limit buf prec =
     (let k = min (32 - length buf) (unat prec - 9) in Ret (buf @ replicate k CHR ''0'', prec - of_nat k))"
proof (induction buf prec rule: ftoa_limit.induct)
  case (1 buf prec)
  show ?case
  proof (cases "length buf < 32 \<and> 9 < prec")
    case True
    then have "unat (prec - 1) = unat prec - 1" by (intro unat_minus_one) auto
    moreover have "9 < unat prec" using True by (simp add: word_less_nat_alt)
    then have "32 - length buf = Suc (31 - length buf)" "unat prec - 9 = Suc (unat prec - 10)"
      using True by linarith+
    ultimately show ?thesis
      using True 1 by (subst ftoa_limit.simps) (simp add: buf_put_def algebra_simps Let_def)
  next
    case False
    then have "min (32 - length buf) (unat prec - 9) = 0" by (auto simp: word_less_nat_alt)
    with False show ?thesis by (subst ftoa_limit.simps) auto
  qed
qed

text \<open>The digits of the fraction as they land in the buffer.\<close>

definition dec_digits :: "nat \<Rightarrow> char list" where
  "dec_digits n = map (\<lambda>d. char_of (48 + d)) (digits 10 n)"

lemma dec_digits_small: "n < 10 \<Longrightarrow> dec_digits n = [char_of (48 + n)]"
  by (simp add: dec_digits_def digits_small)

lemma dec_digits_large: "10 \<le> n \<Longrightarrow> dec_digits n = char_of (48 + n mod 10) # dec_digits (n div 10)"
  by (simp add: dec_digits_def digits_large)

lemma ftoa_frac_eq:
  "ftoa_frac buf frac count =
     (let ds = take (32 - length buf) (dec_digits (unat frac)) in Ret (buf @ ds, count - of_nat (length ds)))"
proof (induction buf frac count rule: ftoa_frac.induct)
  case (1 buf frac count)
  show ?case
  proof (cases "length buf < 32")
    case True
    then have put: "buf_put buf c = Ret (buf @ [c])" for c by (simp add: buf_put_def)
    have n32: "32 - length buf = Suc (31 - length buf)" using True by linarith
    have z: "frac div 10 = 0 \<longleftrightarrow> unat frac < 10"
      by (auto simp: unat_div div_eq_0_iff simp flip: unat_eq_zero)
    show ?thesis
    proof (cases "unat frac < 10")
      case True
      then show ?thesis
        using \<open>length buf < 32\<close>
        by (subst ftoa_frac.simps) (simp add: put z n32 dec_digits_small unat_mod)
    next
      case False
      then have d: "dec_digits (unat frac) = char_of (48 + unat (frac mod 10)) # dec_digits (unat (frac div 10))"
        by (simp add: dec_digits_large unat_mod unat_div)
      show ?thesis
        using \<open>length buf < 32\<close> False 1 [OF True put]
        by (subst ftoa_frac.simps) (simp add: put z n32 d)
    qed
  next
    case False
    then show ?thesis by (subst ftoa_frac.simps) simp
  qed
qed

lemma ftoa_whole_length: "length buf \<le> 32 \<Longrightarrow> ftoa_whole buf whole = Ret buf' \<Longrightarrow> length buf' \<le> 32"
proof (induction buf whole rule: ftoa_whole.induct)
  case (1 buf whole)
  from 1(3) show ?case
    unfolding ftoa_whole.simps [of buf whole] using 1(1,2) by (auto simp: buf_put_length split: if_splits)
qed

lemma ftoa_fraction_eq:
  assumes "prec \<noteq> 0"
  shows "ftoa_fraction buf val whole frac prec =
    (let ds = take (32 - length buf) (dec_digits (unat frac)); buf = buf @ ds
     in Ret (put_room (zeros_room (length buf + unat (prec - of_nat (length ds))) buf) CHR ''.'', whole))"
  using assms
  by (simp only: ftoa_fraction_def ftoa_frac_eq Let_def if_False bind_res.simps prod.case zero_fill_room put_if_room)

lemma ftoa_fraction_length:
  assumes "length buf \<le> 32" and "ftoa_fraction buf val whole frac prec = Ret (buf', whole')"
  shows "length buf' \<le> 32"
proof (cases "prec = 0")
  case True
  with assms show ?thesis by (simp add: ftoa_fraction_def Let_def split: if_splits)
next
  case False
  with assms show ?thesis by (auto simp: ftoa_fraction_eq Let_def)
qed

lemma ftoa_buf_length:
  assumes "ftoa_buf val prec width flags = Ret (buf, width')"
  shows "length buf \<le> 32"
proof -
  from assms obtain buf1 prec1 val1 whole1 frac1 buf2 whole2 buf3 neg w where
    b1: "buf1 = replicate (min 32 (unat prec1 - 9)) CHR ''0''"
    and b2: "ftoa_fraction buf1 val1 whole1 frac1 (prec1 - of_nat (length buf1)) = Ret (buf2, whole2)"
    and b3: "ftoa_whole buf2 whole2 = Ret buf3"
    and b: "buf = sign_buf (zeros_buf buf3 0 w flags) neg flags"
    by (auto simp: ftoa_buf_def ftoa_limit_eq Let_def)
  have "length buf1 \<le> 32" by (simp add: b1)
  then have "length buf2 \<le> 32" by (rule ftoa_fraction_length [OF _ b2])
  then have "length buf3 \<le> 32" by (rule ftoa_whole_length [OF _ b3])
  then show ?thesis by (simp add: b)
qed

lemma ftoa_pad_eq:
  "(if \<not> flag flags FLAGS_LEFT \<and> flag flags FLAGS_ZEROPAD then zero_fill (unat width) buf else Ret buf) =
     Ret (zeros_buf buf 0 width flags)"
  by (simp add: zeros_buf_def zeros_room_def zero_fill_eq)

lemma ftoa_width_eq:
  "(if (\<not> flag flags FLAGS_LEFT \<and> flag flags FLAGS_ZEROPAD) \<and> width \<noteq> 0 \<and>
       (negative \<or> flag flags (FLAGS_PLUS OR FLAGS_SPACE)) then width - 1 else width) = field_width negative width flags"
  by (auto simp: field_width_def)

lemma ftoa_fixed_eq:
  "ftoa_fixed out idx maxlen val prec width flags s =
     bind_res (ftoa_buf val prec width flags) (\<lambda>(buf, width).
     out_all out maxlen (rev_text buf width flags) (idx, s))"
proof -
  have "ftoa_fixed out idx maxlen val prec width flags s =
      bind_res (ftoa_buf val prec width flags) (\<lambda>(buf, width). out_rev out idx maxlen buf width flags s)"
    by (simp only: ftoa_fixed_def ftoa_buf_def bind_res_assoc case_prod_unfold Let_def ftoa_pad_eq ftoa_width_eq
        put_sign_eq bind_res.simps fst_conv snd_conv)
  also have "\<dots> = bind_res (ftoa_buf val prec width flags) (\<lambda>(buf, width).
      out_all out maxlen (rev_text buf width flags) (idx, s))"
    by (rule bind_res_cong) (auto simp: out_rev_eq ftoa_buf_length)
  finally show ?thesis .
qed

lemma etoa_exponent_eq:
  assumes "idx' = idx + of_nat (length t)"
  shows "etoa_exponent out idx idx' maxlen expval minwidth width flags s =
    out_all out maxlen (exponent_text t expval minwidth width flags) (idx', s)"
proof -
  define ex where "ex = (if flag flags FLAGS_UPPERCASE then CHR ''E'' else CHR ''e'') #
    int_text (of_int \<bar>expval\<bar>) (expval < 0) 10 0 (minwidth - 1) (FLAGS_ZEROPAD OR FLAGS_PLUS)"
  have ext: "exponent_text t expval minwidth width flags =
      (if minwidth \<noteq> 0 then ex @ (if flag flags FLAGS_LEFT
         then replicate (unat width - unat (of_nat (length (t @ ex)) :: u64)) CHR '' '' else []) else [])"
    unfolding exponent_text_def ex_def Let_def by (rule refl)
  have left: "out_until out maxlen idx (ucast width) st =
      out_all out maxlen (replicate (unat width - unat (of_nat (length (t @ ex)) :: u64)) CHR '' '') st"
    if "out_all out maxlen ex (idx', s) = Ret st" for st
  proof -
    have "fst st - idx = of_nat (length (t @ ex))" using out_all_idx [OF that] assms by (simp add: algebra_simps)
    then show ?thesis
      using out_until_eq [of out maxlen idx "ucast width" "fst st" "snd st"] by (simp add: unat_ucast_u32)
  qed
  have "etoa_exponent out idx idx' maxlen expval minwidth width flags s =
      (if minwidth \<noteq> 0 then bind_res (out_all out maxlen ex (idx', s)) (\<lambda>st.
         if flag flags FLAGS_LEFT then out_until out maxlen idx (ucast width) st else Ret st) else Ret (idx', s))"
    unfolding ex_def by (simp add: etoa_exponent_def ntoa_long_eq bind_res_assoc)
  also have "\<dots> = out_all out maxlen (exponent_text t expval minwidth width flags) (idx', s)"
  proof (cases "flag flags FLAGS_LEFT")
    case True
    with left show ?thesis by (auto simp del: length_append simp: ext out_all_append intro!: bind_res_cong)
  qed (simp add: ext)
  finally show ?thesis .
qed

lemma then_exponent:
  "bind_res (out_all out maxlen t (idx, s)) (\<lambda>p. etoa_exponent out idx (fst p) maxlen expval minwidth width flags (snd p)) =
   bind_res (out_all out maxlen t (idx, s)) (out_all out maxlen (exponent_text t expval minwidth width flags))"
  by (rule bind_res_cong [OF refl]) (auto simp: etoa_exponent_eq dest: out_all_idx)

lemma float_text:
  "ftoa depth out idx maxlen val prec width flags s =
     bind_res (ftoa_text depth val prec width flags) (\<lambda>t. out_all out maxlen t (idx, s))"
  "etoa depth out idx maxlen val prec width flags s =
     bind_res (etoa_text depth val prec width flags) (\<lambda>t. out_all out maxlen t (idx, s))"
proof (induction depth arbitrary: idx val prec width flags s)
  case (Suc depth)
  {
    case 1
    then show ?case by (simp add: out_rev_eq Suc ftoa_fixed_eq bind_res_assoc case_prod_unfold)
  next
    case 2
    then show ?case
      by (simp add: Suc bind_res_assoc case_prod_unfold Let_def out_all_append then_exponent)
  }
qed simp_all
end
