(* ===== verification/Printf_Text.thy ===== *)
theory Printf_Text imports Printf begin

text \<open>
  What the formatter means: the text that a format and its arguments render to, and the theorem
  that, on every output function that cannot fail, formatting is rendering and then one call of
  the output function per character. The output functions meet the contract \<open>text_output\<close>, once each.
\<close>

section \<open>Rendering\<close>

definition pad_text :: "u32 \<Rightarrow> nat \<Rightarrow> string \<Rightarrow> string" where
  "pad_text flags n t =
     (let pad = replicate n CHR '' '' in if flag flags FLAGS_LEFT then t @ pad else pad @ t)"

definition string_len :: "u32 \<Rightarrow> u32 \<Rightarrow> string \<Rightarrow> u32" where
  "string_len flags precision p =
     (let l = strnlen_s p (if precision \<noteq> 0 then ucast precision else -1)
      in if flag flags FLAGS_PRECISION then min l precision else l)"

definition string_text :: "u32 \<Rightarrow> u32 \<Rightarrow> u32 \<Rightarrow> string \<Rightarrow> string" where
  "string_text flags width precision p =
     (let t = takeWhile (\<lambda>c. c \<noteq> CHR 0x00) p;
          t = (if flag flags FLAGS_PRECISION then take (unat precision) t else t)
      in pad_text flags (unat width - unat (string_len flags precision p)) t)"

definition double_text :: "char \<Rightarrow> u32 \<Rightarrow> u32 \<Rightarrow> u32 \<Rightarrow> cdouble \<Rightarrow> string res" where
  "double_text c flags width precision d =
     (if c = CHR ''f'' then ftoa_text 3 d precision width flags
      else if c = CHR ''F'' then ftoa_text 3 d precision width (flags OR FLAGS_UPPERCASE)
      else (let flags = (if c = CHR ''g'' \<or> c = CHR ''G'' then flags OR FLAGS_ADAPT_EXP else flags);
                flags = (if c = CHR ''E'' \<or> c = CHR ''G'' then flags OR FLAGS_UPPERCASE else flags)
            in etoa_text 3 d precision width flags))"

definition conv_text :: "char \<Rightarrow> u32 \<Rightarrow> u32 \<Rightarrow> u32 \<Rightarrow> va list \<Rightarrow> (string \<times> va list) res" where
  "conv_text c flags width precision va =
     (if c \<in> set ''diuxXob'' then
        bind_res (int_value c (int_flags c flags) va) (\<lambda>((val, negative), va).
        Ret (int_text val negative (ucast (base_of c)) precision width (int_flags c flags), va))
      else if c \<in> set ''fFeEgG'' then
        bind_res (va_double va) (\<lambda>(d, va).
        bind_res (double_text c flags width precision d) (\<lambda>t. Ret (t, va)))
      else if c = CHR ''c'' then
        bind_res (va_int va) (\<lambda>(w, va). Ret (pad_text flags (unat width - 1) [char_of (unat w)], va))
      else if c = CHR ''s'' then
        bind_res (va_str va) (\<lambda>(p, va). Ret (string_text flags width precision p, va))
      else if c = CHR ''p'' then
        bind_res (va_ptr va) (\<lambda>(w, va).
        Ret (int_text w False 16 precision 16 (flags OR (FLAGS_ZEROPAD OR FLAGS_UPPERCASE)), va))
      else Ret ([c], va))"

function render :: "string \<Rightarrow> va list \<Rightarrow> string res" where
  "render format va =
     (if peek format = CHR 0x00 then Ret []
      else if peek format \<noteq> CHR ''%'' then
        bind_res (render (tl format) va) (\<lambda>t. Ret (peek format # t))
      else
        bind_res (parse_spec (tl format) va) (\<lambda>(c, flags, width, precision, format', va).
        bind_res (conv_text c flags width precision va) (\<lambda>(t, va).
        bind_res (next_char format') (\<lambda>format.
        bind_res (render format va) (\<lambda>t'. Ret (t @ t'))))))"
  by pat_completeness auto
termination
  by (relation "measure (\<lambda>(format, va). length format)")
    (auto simp: peek_def next_char_def split: list.splits dest!: parse_spec_length)

declare render.simps [simp del]

section \<open>Output functions that cannot fail\<close>

locale text_output =
  fixes out :: out_fct_type and maxlen :: u64 and ok :: "sink \<Rightarrow> bool"
  assumes call_returns: "ok s \<Longrightarrow> \<exists>s'. call_out out c idx maxlen s = Ret s' \<and> ok s'"
begin

lemma out_all_returns:
  "ok s \<Longrightarrow> \<exists>s'. out_all out maxlen t (idx, s) = Ret (idx + of_nat (length t), s') \<and> ok s'"
proof (induction t arbitrary: idx s)
  case (Cons c t)
  obtain s1 where s1: "call_out out c idx maxlen s = Ret s1" "ok s1"
    using call_returns [OF Cons.prems] by blast
  show ?case using Cons.IH [OF s1(2), of "idx + 1"] s1(1) by (simp add: algebra_simps)
qed simp

lemma out_all_ok: "ok (snd st) \<Longrightarrow> out_all out maxlen t st = Ret st' \<Longrightarrow> ok (snd st')"
  using out_all_returns [of "snd st" t "fst st"] by auto

end

lemma out_string_eq:
  "out_string out maxlen limited precision p st =
     out_all out maxlen
       (let t = takeWhile (\<lambda>c. c \<noteq> CHR 0x00) p in if limited then take (unat precision) t else t) st"
proof (induction out maxlen limited precision p st rule: out_string.induct)
  case (2 out maxlen limited precision c p st)
  show ?case
  proof (cases "c \<noteq> CHR 0x00 \<and> limited \<and> precision \<noteq> 0")
    case True
    then have "unat precision = Suc (unat (precision - 1))" by (simp add: unat_minus_one unat_gt_0)
    with True 2 show ?thesis by (auto simp: Let_def intro!: bind_res_cong)
  next
    case False
    with 2 show ?thesis by (auto simp: Let_def intro!: bind_res_cong)
  qed
qed simp

lemma string_len_min: "(if l < precision then l else precision) = min l (precision :: u32)"
  by (auto simp: min_def)

context text_output begin

lemma conv_char_text:
  assumes "ok (snd st)"
  shows "conv_char out maxlen flags width va st =
    bind_res (va_int va) (\<lambda>(w, va).
    bind_res (out_all out maxlen (pad_text flags (unat width - 1) [char_of (unat w)]) st) (\<lambda>st. Ret (st, va)))"
proof (cases "flag flags FLAGS_LEFT")
  case True
  then show ?thesis
    by (simp add: conv_char_def pad_text_def out_times_eq out_all_append bind_res_assoc case_prod_unfold Let_def)
next
  case False
  obtain st' where "out_all out maxlen (replicate (unat width - 1) CHR '' '') st = Ret st'"
    using out_all_returns [OF assms, of _ "fst st"] by fastforce
  with False show ?thesis
    by (simp add: conv_char_def pad_text_def out_times_eq out_all_append bind_res_assoc case_prod_unfold Let_def)
qed

end

lemma conv_string_text:
  "conv_string out maxlen flags width precision va st =
    bind_res (va_str va) (\<lambda>(p, va).
    bind_res (out_all out maxlen (string_text flags width precision p) st) (\<lambda>st. Ret (st, va)))"
  unfolding conv_string_def string_text_def string_len_def pad_text_def out_times_eq out_string_eq string_len_min Let_def
  by (cases "flag flags FLAGS_LEFT") (simp_all add: out_all_append bind_res_assoc case_prod_unfold)

lemma conv_double_text:
  assumes "c \<in> set ''fFeEgG''"
  shows "conv_double out maxlen c flags width precision va st =
    bind_res (va_double va) (\<lambda>(d, va). bind_res (double_text c flags width precision d) (\<lambda>t.
    bind_res (out_all out maxlen t st) (\<lambda>st. Ret (st, va))))"
  using assms by (auto simp: conv_double_def double_text_def float_text bind_res_assoc case_prod_unfold Let_def)

lemma base_of_ge_2: "2 \<le> unat (ucast (base_of c) :: u64)"
  by (simp add: base_of_def unat_ucast_u32)

lemma conv_int_text:
  "conv_int out maxlen c flags width precision va st =
    bind_res (int_value c (int_flags c flags) va) (\<lambda>((val, negative), va).
    bind_res (out_all out maxlen
      (int_text val negative (ucast (base_of c)) precision width (int_flags c flags)) st) (\<lambda>st. Ret (st, va)))"
  by (simp add: conv_int_def ntoa_long_long_eq ntoa_long_eq base_of_ge_2 case_prod_unfold Let_def)

lemma conv_ptr_text:
  "conv_ptr out maxlen flags precision va st =
    bind_res (va_ptr va) (\<lambda>(w, va).
    bind_res (out_all out maxlen (int_text w False 16 precision 16 (flags OR (FLAGS_ZEROPAD OR FLAGS_UPPERCASE))) st)
      (\<lambda>st. Ret (st, va)))"
  by (simp add: conv_ptr_def ntoa_long_long_eq ntoa_long_eq case_prod_unfold)

section \<open>Formatting is rendering\<close>

text \<open>Only \<^verbatim>\<open>%c\<close> puts something out before it reads its argument.\<close>

lemma conv_is_text_but_c:
  assumes "c \<noteq> CHR ''c''"
  shows "conv out maxlen c flags width precision va st =
    bind_res (conv_text c flags width precision va) (\<lambda>(t, va).
    bind_res (out_all out maxlen t st) (\<lambda>st. Ret (st, va)))"
proof -
  consider "c \<in> set ''diuxXob''" | "c \<notin> set ''diuxXob''" "c \<in> set ''fFeEgG''"
    | "c \<notin> set ''diuxXob''" "c \<notin> set ''fFeEgG''" by blast
  then show ?thesis
  proof cases
    case 1
    then show ?thesis
      by (simp only: conv_def conv_text_def if_True conv_int_text bind_res_assoc case_prod_unfold bind_res.simps
          fst_conv snd_conv)
  next
    case 2
    then show ?thesis
      by (simp only: conv_def conv_text_def if_True if_False conv_double_text bind_res_assoc case_prod_unfold
          bind_res.simps fst_conv snd_conv)
  next
    case 3
    then show ?thesis
      using assms by (simp only: conv_def conv_text_def if_False)
        (simp add: conv_string_text conv_ptr_text bind_res_assoc case_prod_unfold)
  qed
qed

context text_output begin

lemma conv_is_text:
  assumes "ok (snd st)"
  shows "conv out maxlen c flags width precision va st =
    bind_res (conv_text c flags width precision va) (\<lambda>(t, va).
    bind_res (out_all out maxlen t st) (\<lambda>st. Ret (st, va)))"
proof (cases "c = CHR ''c''")
  case True
  then show ?thesis
    by (simp add: conv_def conv_text_def conv_char_text [OF assms] bind_res_assoc case_prod_unfold)
qed (rule conv_is_text_but_c)

lemma loop_is_render:
  "ok (snd st) \<Longrightarrow>
    vsnprintf_loop out maxlen format va st = bind_res (render format va) (\<lambda>t. out_all out maxlen t st)"
proof (induction format arbitrary: va st rule: length_induct)
  case (1 format)
  then have IH: "vsnprintf_loop out maxlen f va' st' = bind_res (render f va') (\<lambda>t. out_all out maxlen t st')"
    if "length f < length format" "ok (snd st')" for f va' st'
    using that by blast
  consider "peek format = CHR 0x00" | "peek format \<noteq> CHR 0x00" "peek format \<noteq> CHR ''%''"
    | "peek format = CHR ''%''" by blast
  then show ?case
  proof cases
    case 1
    then show ?thesis by (simp add: vsnprintf_loop.simps [of out maxlen format] render.simps [of format])
  next
    case 2
    then have "length (tl format) < length format" by (cases format) (simp_all add: peek_def)
    note IH1 = IH [OF this]
    obtain s' where s': "call_out out (peek format) (fst st) maxlen (snd st) = Ret s'" "ok s'"
      using call_returns [OF "1.prems"] by blast
    with 2 show ?thesis
      by (simp add: vsnprintf_loop.simps [of out maxlen format] render.simps [of format] IH1 bind_res_assoc)
  next
    case 3
    then obtain f where f: "format = CHR ''%'' # f" by (cases format) (simp_all add: peek_def)
    have step: "bind_res (conv out maxlen c flags width precision va1 st) (\<lambda>(st, va).
          bind_res (next_char f') (\<lambda>f. vsnprintf_loop out maxlen f va st)) =
        bind_res (bind_res (conv_text c flags width precision va1) (\<lambda>(t, va).
          bind_res (next_char f') (\<lambda>f. bind_res (render f va) (\<lambda>t'. Ret (t @ t'))))) (\<lambda>t. out_all out maxlen t st)"
      if p: "parse_spec f va = Ret (c, flags, width, precision, f', va1)" for c flags width precision f' va1
    proof (cases "conv_text c flags width precision va1")
      case (Ret r)
      obtain t va2 where r: "conv_text c flags width precision va1 = Ret (t, va2)" using Ret by (cases r) simp
      obtain st' where st': "out_all out maxlen t st = Ret st'" using out_all_returns [OF "1.prems", of t "fst st"] by auto
      have ok': "ok (snd st')" by (rule out_all_ok [OF "1.prems" st'])
      show ?thesis
      proof (cases "next_char f'")
        case (Ret f2)
        then have "length f2 < length format"
          using parse_spec_length [OF p] by (auto simp: f next_char_def split: list.splits)
        then show ?thesis
          by (simp add: conv_is_text [OF "1.prems"] r st' Ret IH ok' bind_res_assoc out_all_append)
      qed (simp add: conv_is_text [OF "1.prems"] r st')
    qed (simp add: conv_is_text [OF "1.prems"])
    show ?thesis
      by (cases "parse_spec f va")
        (auto simp: f peek_def step vsnprintf_loop.simps [of out maxlen "CHR ''%'' # f"]
          render.simps [of "CHR ''%'' # f"] simp del: bind_res_eq_Ret)
  qed
qed

text \<open>The call of the output function that terminates the text.\<close>

lemma vsnprintf_is_render:
  assumes "ok s"
  shows "vsnprintf out True maxlen format va s =
    bind_res (render format va) (\<lambda>t.
    bind_res (out_all out maxlen t (0, s)) (\<lambda>(idx, s).
    bind_res (call_out out CHR 0x00 (if idx < maxlen then idx else maxlen - 1) maxlen s) (\<lambda>s.
    Ret (to_c_int idx, s))))"
  using assms by (simp add: vsnprintf_def loop_is_render bind_res_assoc)

text \<open>Formatting fails exactly when rendering does, and returns the length of the text.\<close>

lemma vsnprintf_returns:
  assumes "ok s" and "render format va = Ret t"
  shows "\<exists>s'. vsnprintf out True maxlen format va s = Ret (to_c_int (of_nat (length t)), s') \<and> ok s'"
proof -
  obtain s1 where s1: "out_all out maxlen t (0, s) = Ret (of_nat (length t), s1)" "ok s1"
    using out_all_returns [OF assms(1), of t 0] by auto
  obtain s2 where "call_out out CHR 0x00 (if of_nat (length t) < maxlen then of_nat (length t) else maxlen - 1) maxlen s1 =
      Ret s2" "ok s2"
    using call_returns [OF s1(2)] by blast
  with s1 show ?thesis by (simp add: vsnprintf_is_render [OF assms(1)] assms(2))
qed

end

interpretation console: text_output Out_char maxlen "\<lambda>_. True" for maxlen
  by unfold_locales (simp add: out_char_def)

interpretation nowhere: text_output Out_null maxlen "\<lambda>_. True" for maxlen
  by unfold_locales (simp add: out_null_def)

interpretation callback: text_output Out_fct maxlen "\<lambda>_. True" for maxlen
  by unfold_locales (simp add: out_fct_def)

text \<open>The buffer really has the size that the caller promises.\<close>

interpretation buffer: text_output Out_buffer maxlen "\<lambda>s. unat maxlen \<le> length (out_buf s)" for maxlen
proof
  fix s :: sink and c idx
  assume "unat maxlen \<le> length (out_buf s)"
  moreover from this have "idx < maxlen \<Longrightarrow> unat idx < length (out_buf s)" by (simp add: word_less_nat_alt)
  ultimately show "\<exists>s'. call_out Out_buffer c idx maxlen s = Ret s' \<and> unat maxlen \<le> length (out_buf s')"
    by (simp add: out_buffer_def)
qed

section \<open>What arrives\<close>

lemma out_all_console:
  "out_all Out_char maxlen t (idx, s) =
     Ret (idx + of_nat (length t), s\<lparr>console := console s @ filter (\<lambda>c. c \<noteq> CHR 0x00) t\<rparr>)"
  by (induction t arbitrary: idx s) (simp_all add: out_char_def putchar_def algebra_simps)

lemma out_all_callback:
  "out_all Out_fct maxlen t (idx, s) =
     Ret (idx + of_nat (length t), s\<lparr>fct_calls := fct_calls s @ filter (\<lambda>c. c \<noteq> CHR 0x00) t\<rparr>)"
  by (induction t arbitrary: idx s) (simp_all add: out_fct_def algebra_simps)

lemma out_all_null: "out_all Out_null maxlen t (idx, s) = Ret (idx + of_nat (length t), s)"
  by (induction t arbitrary: idx s) (simp_all add: out_null_def algebra_simps)

text \<open>A text that is written to a buffer stops at its limit.\<close>

definition overwrite :: "char list \<Rightarrow> nat \<Rightarrow> char list \<Rightarrow> char list" where
  "overwrite b i t = take i b @ t @ drop (i + length t) b"

lemma out_all_buffer:
  assumes "unat maxlen \<le> length (out_buf s)" and "i + length t < 2 ^ 64"
  shows "out_all Out_buffer maxlen t (of_nat i, s) =
    Ret (of_nat (i + length t), s\<lparr>out_buf := overwrite (out_buf s) i (take (unat maxlen - i) t)\<rparr>)"
  using assms
proof (induction t arbitrary: i s)
  case Nil
  then show ?case by (simp add: overwrite_def)
next
  case (Cons c t)
  have i: "unat (of_nat i :: u64) = i" using Cons.prems(2) by (simp add: unat_of_nat)
  show ?case
  proof (cases "i < unat maxlen")
    case True
    let ?b = "(out_buf s)[i := c]"
    have "out_all Out_buffer maxlen t (of_nat (Suc i), s\<lparr>out_buf := ?b\<rparr>) =
        Ret (of_nat (Suc i + length t), s\<lparr>out_buf := overwrite ?b (Suc i) (take (unat maxlen - Suc i) t)\<rparr>)"
      using Cons.IH [of "s\<lparr>out_buf := ?b\<rparr>" "Suc i"] Cons.prems by simp
    moreover have "overwrite ?b (Suc i) (take (unat maxlen - Suc i) t) =
        overwrite (out_buf s) i (c # take (unat maxlen - Suc i) t)"
      using True Cons.prems(1) by (simp add: overwrite_def take_Suc_conv_app_nth)
    moreover have "unat maxlen - i = Suc (unat maxlen - Suc i)" using True by linarith
    ultimately show ?thesis
      using True Cons.prems(1) i by (simp add: out_buffer_def word_less_nat_alt algebra_simps)
  next
    case False
    then show ?thesis
      using Cons.IH [of s "Suc i"] Cons.prems i
      by (simp add: out_buffer_def word_less_nat_alt overwrite_def algebra_simps)
  qed
qed

section \<open>The functions of printf.h\<close>

text \<open>
  C14. \<^verbatim>\<open>printf\<close> of any format and arguments: the console gets exactly the rendered text (zero bytes,
  which \<^verbatim>\<open>%c\<close> can produce, are not sent), the result is its length, and the call stops exactly when
  rendering does.
\<close>
theorem printf_prints_rendered_text:
  "c_printf format va s =
     bind_res (render format va) (\<lambda>t.
     Ret (to_c_int (of_nat (length t)), s\<lparr>console := console s @ filter (\<lambda>c. c \<noteq> CHR 0x00) t\<rparr>))"
  by (simp add: c_printf_def console.vsnprintf_is_render out_all_console out_char_def)

lemma vprintf_eq_printf: "c_vprintf = c_printf"
  by (intro ext) (simp add: c_vprintf_def c_printf_def)

lemma vsnprintf_eq_snprintf: "c_vsnprintf = c_snprintf"
  by (intro ext) (simp add: c_vsnprintf_def c_snprintf_def)

lemma fctprintf_calls:
  "fctprintf format va s =
     bind_res (render format va) (\<lambda>t.
     Ret (to_c_int (of_nat (length t)), s\<lparr>fct_calls := fct_calls s @ filter (\<lambda>c. c \<noteq> CHR 0x00) t\<rparr>))"
  by (simp add: fctprintf_def callback.vsnprintf_is_render out_all_callback out_fct_def)

lemma snprintf_null:
  "c_snprintf False count format va s =
     bind_res (render format va) (\<lambda>t. Ret (to_c_int (of_nat (length t)), s))"
proof -
  have "c_snprintf False count format va s = vsnprintf Out_null True count format va s"
    by (simp add: c_snprintf_def vsnprintf_def)
  then show ?thesis by (simp add: nowhere.vsnprintf_is_render out_all_null out_null_def)
qed

lemma out_all_zero: "out_all Out_buffer 0 t (idx, s) = Ret (idx + of_nat (length t), s)"
  by (induction t arbitrary: idx) (simp_all add: out_buffer_def algebra_simps)

text \<open>
  \<^verbatim>\<open>snprintf\<close> without a buffer, or with a buffer of size zero, writes nothing and still returns the
  length of the text.
\<close>
lemma snprintf_measures:
  "c_snprintf False count format va s =
      bind_res (render format va) (\<lambda>t. Ret (to_c_int (of_nat (length t)), s)) \<and>
   c_snprintf True 0 format va s =
      bind_res (render format va) (\<lambda>t. Ret (to_c_int (of_nat (length t)), s))"
  using snprintf_null buffer.vsnprintf_is_render [of 0 s format va]
  by (simp add: c_snprintf_def out_all_zero out_buffer_def)

text \<open>
  C15. \<^verbatim>\<open>snprintf\<close> with a buffer of at least \<^verbatim>\<open>count\<close> bytes: the first \<^verbatim>\<open>count - 1\<close> characters of the text,
  a terminating zero behind them, every other byte of the buffer as it was; the result is the
  length of the whole text.
\<close>
theorem snprintf_truncates:
  assumes "render format va = Ret t" and "length t < 2 ^ 64"
    and "0 < unat count" and "unat count \<le> length (out_buf s)"
  shows "c_snprintf True count format va s =
    Ret (to_c_int (of_nat (length t)),
      s\<lparr>out_buf := take (unat count - 1) t @ CHR 0x00 # drop (Suc (min (length t) (unat count - 1))) (out_buf s)\<rparr>)"
proof -
  define n where "n = unat count"
  let ?b = "overwrite (out_buf s) 0 (take n t)"
  have b: "?b = take n t @ drop (min (length t) n) (out_buf s)" by (simp add: overwrite_def min.commute)
  have all: "out_all Out_buffer count t (0, s) = Ret (of_nat (length t), s\<lparr>out_buf := ?b\<rparr>)"
    using out_all_buffer [of count s 0 t] assms by (simp add: n_def)
  have len: "unat (of_nat (length t) :: u64) = length t" using assms(2) by (simp add: unat_of_nat)
  have lt: "(of_nat (length t) :: u64) < count \<longleftrightarrow> length t < n" by (simp add: word_less_nat_alt len n_def)
  let ?i = "if (of_nat (length t) :: u64) < count then of_nat (length t) else count - 1"
  have i: "unat ?i = min (length t) (n - 1)"
    using assms(3) len unfolding lt by (auto simp: n_def unat_minus_one unat_gt_0)
  have "?i < count" using i assms(3) by (auto simp: word_less_nat_alt n_def)
  moreover have "length ?b = length (out_buf s)" using assms(4) by (simp add: overwrite_def n_def)
  then have "unat ?i < length ?b" unfolding i using assms(3,4) by (simp add: n_def)
  ultimately have put: "out_buffer CHR 0x00 ?i count (s\<lparr>out_buf := ?b\<rparr>) = Ret (s\<lparr>out_buf := ?b[unat ?i := CHR 0x00]\<rparr>)"
    by (simp add: out_buffer_def)
  have "?b[min (length t) (n - 1) := CHR 0x00] =
      take (n - 1) t @ CHR 0x00 # drop (Suc (min (length t) (n - 1))) (out_buf s)"
    using assms(3,4) [folded n_def] unfolding b
    by (intro nth_equalityI) (auto simp: nth_list_update nth_append nth_Cons')
  then show ?thesis
    using buffer.vsnprintf_is_render [of count s format va] assms(1,4) put
    unfolding c_snprintf_def i n_def [symmetric] by (simp add: all n_def)
qed

end
