(* ===== verification/Printf_Facts.thy ===== *)
theory Printf_Facts imports Printf_Text begin

text \<open>
  What the formatter prints for the conversions that the monitor uses, that printed numbers read
  back, and the inputs on which the formatter goes wrong.
\<close>

section \<open>Digits\<close>

primrec from_digits :: "nat \<Rightarrow> nat list \<Rightarrow> nat" where
  "from_digits b [] = 0"
| "from_digits b (d # ds) = d + b * from_digits b ds"

lemma from_digits_digits: "from_digits b (digits b n) = n"
proof (induction b n rule: digits.induct)
  case (1 b n)
  then show ?case by (cases "b < 2 \<or> n < b") (auto simp: digits.simps [of b n])
qed

lemma digits_less: "2 \<le> b \<Longrightarrow> d \<in> set (digits b n) \<Longrightarrow> d < b"
proof (induction b n rule: digits.induct)
  case (1 b n)
  then show ?case by (cases "n < b") (auto simp: digits.simps [of b n])
qed

text \<open>With leading zeros, the digits are the quotients by the powers of the base.\<close>

lemma digits_pad:
  assumes "2 \<le> b" and "n < b ^ Suc k"
  shows "digits b n @ replicate (Suc k - length (digits b n)) 0 = map (\<lambda>i. n div b ^ i mod b) [0..<Suc k]"
  using assms(2)
proof (induction k arbitrary: n)
  case 0
  then show ?case by (simp add: digits_small)
next
  case (Suc k)
  show ?case
  proof (cases "n < b")
    case True
    have "n div b ^ i = 0" if "i \<in> set [1..<Suc (Suc k)]" for i
    proof -
      have "b \<le> b ^ i" using that assms(1) by (intro self_le_power) auto
      then show ?thesis using True by (intro div_less) linarith
    qed
    then have "map (\<lambda>i. n div b ^ i mod b) [1..<Suc (Suc k)] = map (\<lambda>i. 0) [1..<Suc (Suc k)]"
      by (intro map_cong) simp_all
    then have "map (\<lambda>i. n div b ^ i mod b) [1..<Suc (Suc k)] = replicate (Suc k) 0"
      by (simp add: map_replicate_const)
    moreover have "[0..<Suc (Suc k)] = 0 # [1..<Suc (Suc k)]" by (simp add: upt_rec)
    ultimately show ?thesis using True by (simp add: digits_small)
  next
    case False
    have "n div b < b ^ Suc k" using Suc.prems assms(1) by (simp add: div_less_iff_less_mult mult.commute)
    then have IH: "digits b (n div b) @ replicate (Suc k - length (digits b (n div b))) 0 =
        map (\<lambda>i. n div b div b ^ i mod b) [0..<Suc k]" by (rule Suc.IH)
    have "map (\<lambda>i. n div b ^ i mod b) [0..<Suc (Suc k)] =
        n mod b # map (\<lambda>i. n div b div b ^ i mod b) [0..<Suc k]"
      by (subst upt_conv_Cons) (simp_all add: map_Suc_upt [symmetric] div_mult2_eq del: upt_Suc)
    then show ?thesis using IH False assms(1) by (simp add: digits_large)
  qed
qed

lemma digits_length: "2 \<le> b \<Longrightarrow> n < b ^ Suc k \<Longrightarrow> length (digits b n) \<le> Suc k"
  using arg_cong [OF digits_pad [of b n k], of length] by simp

section \<open>Plain numbers\<close>

text \<open>A number without prefix, precision and width is its sign and its digits.\<close>

lemma int_text_plain:
  assumes "\<not> flag flags FLAGS_LEFT" "\<not> flag flags FLAGS_HASH" "\<not> flag flags (FLAGS_PLUS OR FLAGS_SPACE)"
    "\<not> flag flags FLAGS_PRECISION" and "length (digits (unat base) (unat val)) < 32"
  shows "int_text val negative base 0 0 flags =
    (if negative then ''-'' else []) @ rev (map (digit_char flags) (digits (unat base) (unat val)))"
proof -
  let ?ds = "map (digit_char flags) (digits (unat base) (unat val))"
  have h: "flags AND NOT FLAGS_HASH = flags"
    using assms(2) by (auto simp: vmm_flags bit_simps intro!: bit_word_eqI)
  have len: "length ?ds < 32" using assms(5) by simp
  have "digits_buf val base flags = ?ds" using assms(4,5) by (simp add: digits_buf_def)
  moreover have "zeros_buf ds 0 0 flags = ds" for ds by (simp add: zeros_buf_def zeros_room_def)
  moreover have "prefix_buf ds b 0 0 flags = ds" for ds b using assms(2) by (simp add: prefix_buf_def)
  moreover have "sign_buf ?ds negative flags = ?ds @ (if negative then ''-'' else [])"
    using assms(3) len by (simp add: sign_buf_def put_room_def flag_or del: length_map)
  ultimately have "int_buf val negative base 0 0 flags = ?ds @ (if negative then ''-'' else [])"
    by (simp only: int_buf_def)
  moreover have "int_text val negative base 0 0 flags = rev (int_buf val negative base 0 0 flags)"
    using assms(1) by (simp add: int_text_def h field_width_def rev_text_def Let_def)
  ultimately show ?thesis by simp
qed

lemma digit_char_is_digit: "d < 10 \<Longrightarrow> is_digit (digit_char flags d)"
  by (simp add: is_digit_def digit_char_def)

lemma of_char_digit_char: "d < 10 \<Longrightarrow> (of_char (digit_char flags d) :: u32) = 48 + of_nat d"
proof -
  assume "d < 10"
  then have "(of_char (digit_char flags d) :: nat) = 48 + d" by (simp add: digit_char_def)
  then have "(of_nat (of_char (digit_char flags d)) :: u32) = of_nat (48 + d)" by (rule arg_cong)
  then show ?thesis by (simp add: of_nat_of_char)
qed

text \<open>Decimal digits, most significant first, read back.\<close>

lemma atoi_loop_digits:
  assumes "\<forall>d \<in> set ds. d < 10"
  shows "atoi_loop i (rev (map (digit_char flags) ds) @ rest) =
    atoi_loop (i * 10 ^ length ds + of_nat (from_digits 10 ds)) rest"
  using assms
proof (induction ds arbitrary: i rest)
  case (Cons d ds)
  then show ?case
    by (simp add: digit_char_is_digit of_char_digit_char algebra_simps)
qed simp

section \<open>Formats\<close>

text \<open>Text without a percent sign is rendered as it is.\<close>

lemma render_literal:
  assumes "CHR ''%'' \<notin> set lit" and "CHR 0x00 \<notin> set lit"
  shows "render (lit @ format) va = bind_res (render format va) (\<lambda>t. Ret (lit @ t))"
  using assms
proof (induction lit)
  case (Cons c lit)
  then show ?case by (subst render.simps) (auto simp: peek_def bind_res_assoc)
qed simp

lemma render_Nil [simp]: "render [] va = Ret []"
  by (simp add: render.simps [of "[]"] peek_def)

lemma render_percent:
  "render (CHR ''%'' # format) va =
     bind_res (parse_spec format va) (\<lambda>(c, flags, width, precision, format', va).
     bind_res (conv_text c flags width precision va) (\<lambda>(t, va).
     bind_res (next_char format') (\<lambda>format.
     bind_res (render format va) (\<lambda>t'. Ret (t @ t')))))"
  by (simp add: render.simps [of "CHR ''%'' # format"] peek_def)

lemmas parse_simps = parse_spec_def eval_width_def eval_precision_def eval_length_def flag_of_def atoi_def
  is_digit_def peek_def next_char_def

text \<open>\<^verbatim>\<open>%u\<close>\<close>

lemma render_u: "render (CHR ''%'' # CHR ''u'' # format) (Va_int n # va) =
    bind_res (render format va) (\<lambda>t. Ret (rev (map (digit_char 0) (digits 10 (unat n))) @ t))"
proof -
  have p: "parse_spec (CHR ''u'' # format) (Va_int n # va) =
      Ret (CHR ''u'', 0, 0, 0, CHR ''u'' # format, Va_int n # va)"
    by (simp add: parse_simps)
  have f: "int_flags CHR ''u'' 0 = 0"
    by (simp add: int_flags_def base_of_def vmm_flags)
  have "length (digits 10 (unat n)) \<le> Suc 9"
    by (rule digits_length) (simp_all add: less_trans [OF unsigned_less])
  then have "int_text (ucast n) False 10 0 0 0 = rev (map (digit_char 0) (digits 10 (unat n)))"
    using int_text_plain [of 0 10 "ucast n" False] by (simp add: vmm_flags unat_ucast_u32)
  then have "conv_text CHR ''u'' 0 0 0 (Va_int n # va) = Ret (rev (map (digit_char 0) (digits 10 (unat n))), va)"
    by (simp add: conv_text_def f int_value_def vmm_flags base_of_def)
  then show ?thesis by (simp add: render_percent p next_char_def)
qed

text \<open>
  C21. Every \<^verbatim>\<open>unsigned int\<close> that \<^verbatim>\<open>%u\<close> prints is read back by \<^verbatim>\<open>_atoi\<close>, the function that reads field
  widths, with nothing left over.
\<close>
theorem printed_number_reads_back:
  "\<exists>t. render ''%u'' [Va_int n] = Ret t \<and> atoi t = (n, [])"
proof -
  have "atoi (rev (map (digit_char 0) (digits 10 (unat n)))) = (of_nat (from_digits 10 (digits 10 (unat n))), [])"
    using atoi_loop_digits [of "digits 10 (unat n)" 0 0 "[]"] digits_less [of 10 _ "unat n"]
    by (simp add: atoi_def)
  then show ?thesis using render_u [of "[]" n "[]"] by (simp add: from_digits_digits)
qed

text \<open>\<^verbatim>\<open>%016lx\<close>, with which the monitor prints registers.\<close>

definition hex16 :: "u64 \<Rightarrow> string" where
  "hex16 w = map (\<lambda>i. digit_char 0 (unat (drop_bit (4 * i) w AND 0xF))) (rev [0..<16])"

lemma nibble: "unat (drop_bit (4 * i) w AND 0xF) = unat (w :: u64) div 16 ^ i mod 16"
proof -
  have "drop_bit (4 * i) w AND 0xF = take_bit 4 (drop_bit (4 * i) w)"
    by (simp add: take_bit_eq_mask mask_eq_exp_minus_1)
  then have "unat (drop_bit (4 * i) w AND 0xF) = take_bit 4 (drop_bit (4 * i) (unat w))"
    using take_bit_nat_eq_self [OF unsigned_less [of w, where 'a = nat]]
    by (simp add: unsigned_take_bit_eq unsigned_drop_bit_eq)
  then show ?thesis by (simp add: take_bit_eq_mod drop_bit_eq_div power_mult)
qed

lemma digit_char_0 [simp]: "digit_char flags 0 = CHR ''0''"
  by (simp add: digit_char_def) code_simp

lemma digit_char_case: "\<not> flag flags FLAGS_UPPERCASE \<Longrightarrow> digit_char flags = digit_char 0"
  by (intro ext) (simp add: digit_char_def vmm_flags)

lemma render_016lx: "render (''%016lx'' @ format) (Va_long w # va) = bind_res (render format va) (\<lambda>t. Ret (hex16 w @ t))"
proof -
  let ?f = "FLAGS_ZEROPAD OR FLAGS_LONG"
  have p: "parse_spec (''016lx'' @ format) (Va_long w # va) =
      Ret (CHR ''x'', ?f, 16, 0, CHR ''x'' # format, Va_long w # va)"
    by (simp add: parse_simps)
  have f: "int_flags CHR ''x'' ?f = ?f"
    by (auto simp: int_flags_def base_of_def vmm_flags bit_simps intro!: bit_word_eqI)
  have h: "?f AND NOT FLAGS_HASH = ?f"
    by (auto simp: vmm_flags bit_simps intro!: bit_word_eqI)
  have fl: "\<not> flag ?f FLAGS_LEFT" "flag ?f FLAGS_ZEROPAD" "\<not> flag ?f FLAGS_HASH" "\<not> flag ?f FLAGS_PLUS" "\<not> flag ?f FLAGS_SPACE"
    "\<not> flag ?f FLAGS_PRECISION" "\<not> flag ?f FLAGS_UPPERCASE" "flag ?f FLAGS_LONG" "\<not> flag ?f FLAGS_LONG_LONG"
    by (simp_all add: vmm_flags bit_simps)
  have w: "unat w < 16 ^ Suc 15" using unsigned_less [of w, where 'a = nat] by simp
  note len = digits_length [OF _ w, simplified]
  have "int_buf w False 16 0 16 ?f =
      map (digit_char 0) (digits 16 (unat w) @ replicate (16 - length (digits 16 (unat w))) 0)"
    using fl len
    by (simp add: int_buf_def digits_buf_def zeros_buf_def zeros_room_def prefix_buf_def sign_buf_def
        digit_char_case [OF fl(7)])
  also have "\<dots> = map (digit_char 0) (map (\<lambda>i. unat w div 16 ^ i mod 16) [0..<16])"
    using digits_pad [OF _ w] by simp
  finally have buf: "int_buf w False 16 0 16 ?f = map (digit_char 0) (map (\<lambda>i. unat w div 16 ^ i mod 16) [0..<16])" .
  have "int_text w False 16 0 16 ?f = rev (int_buf w False 16 0 16 ?f)"
    using fl by (simp add: int_text_def field_width_def rev_text_def flag_or h Let_def)
  also have "\<dots> = hex16 w"
    unfolding buf hex16_def nibble by (simp only: rev_map map_map comp_def)
  finally have "int_text w False 16 0 16 ?f = hex16 w" .
  then have "conv_text CHR ''x'' ?f 16 0 (Va_long w # va) = Ret (hex16 w, va)"
    using fl by (simp add: conv_text_def f int_value_def base_of_def)
  then show ?thesis using p by (simp add: render_percent next_char_def)
qed

text \<open>\<^verbatim>\<open>%d\<close>\<close>

lemma sint_range: "- (2 ^ 31) \<le> sint (w :: u32)" "sint (w :: u32) < 2 ^ 31"
  using sint_greater_eq [of w] sint_less [of w] by simp_all

text \<open>
  C22. \<^verbatim>\<open>%d\<close> prints a minus sign for a negative argument and the decimal digits of its magnitude, for
  every \<^verbatim>\<open>int\<close> but the smallest: there the negation in \<^verbatim>\<open>_vsnprintf\<close> overflows.
\<close>
theorem printed_int:
  "render ''%d'' [Va_int w] =
     (if sint w = - (2 ^ 31) then Fault Int_overflow
      else Ret ((if sint w < 0 then ''-'' else []) @ rev (map (digit_char 0) (digits 10 (nat \<bar>sint w\<bar>)))))"
proof -
  have p: "parse_spec ''d'' [Va_int w] = Ret (CHR ''d'', 0, 0, 0, ''d'', [Va_int w])"
    by (simp add: parse_simps)
  have f: "int_flags CHR ''d'' 0 = 0" by (simp add: int_flags_def base_of_def vmm_flags)
  have v: "int_value CHR ''d'' 0 [Va_int w] =
      (if sint w = - (2 ^ 31) then Fault Int_overflow else Ret ((of_int \<bar>sint w\<bar>, sint w < 0), []))"
    using sint_range [of w] by (auto simp: int_value_def neg_value_def vmm_flags)
  have u: "unat (of_int \<bar>sint w\<bar> :: u64) = nat \<bar>sint w\<bar>"
    using sint_range [of w] by (simp add: unsigned_of_int take_bit_int_eq_self)
  have "length (digits 10 (nat \<bar>sint w\<bar>)) \<le> Suc 9"
    using sint_range [of w] by (intro digits_length) (simp_all add: nat_less_iff)
  then have "int_text (of_int \<bar>sint w\<bar>) (sint w < 0) 10 0 0 0 =
      (if sint w < 0 then ''-'' else []) @ rev (map (digit_char 0) (digits 10 (nat \<bar>sint w\<bar>)))"
    using int_text_plain [of 0 10 "of_int \<bar>sint w\<bar>" "sint w < 0"] u by (simp add: vmm_flags)
  then show ?thesis by (simp add: render_percent p conv_text_def f v base_of_def next_char_def)
qed

section \<open>Faults\<close>

text \<open>
  C34. A format whose only percent sign is its last character makes \<^verbatim>\<open>printf\<close> step over the terminating
  zero of the format and read on behind it, whatever the arguments are. (A doubled percent sign at
  the end, as in \<^verbatim>\<open>100%%\<close>, is a complete conversion and is not meant.)
\<close>
theorem trailing_percent_overruns:
  assumes "CHR ''%'' \<notin> set lit" and "CHR 0x00 \<notin> set lit"
  shows "c_printf (lit @ ''%'') va s = Fault Out_of_bounds"
proof -
  have "parse_spec [] va = Ret (CHR 0x00, 0, 0, 0, [], va)" by (simp add: parse_simps)
  then have "render ''%'' va = Fault Out_of_bounds" by (simp add: render_percent conv_text_def next_char_def)
  then show ?thesis
    using render_literal [OF assms, of "''%''" va]
    by (simp add: c_printf_def console.vsnprintf_is_render)
qed

theorem trailing_percent_overruns_witness:
  "c_printf ''100%'' [] \<lparr>out_buf = [], console = [], fct_calls = []\<rparr> = Fault Out_of_bounds"
  using trailing_percent_overruns [of "''100''" "[]"] by simp

text \<open>\<^verbatim>\<open>%lx\<close> reads a 64-bit argument; an \<^verbatim>\<open>int\<close> passed for it is read with the wrong type.\<close>

lemma lx_needs_long: "render (CHR ''%'' # CHR ''l'' # CHR ''x'' # format) (Va_int n # va) = Fault Bad_vararg"
proof -
  have p: "parse_spec (CHR ''l'' # CHR ''x'' # format) (Va_int n # va) =
      Ret (CHR ''x'', FLAGS_LONG, 0, 0, CHR ''x'' # format, Va_int n # va)"
    by (simp add: parse_simps)
  have "flag (int_flags CHR ''x'' FLAGS_LONG) FLAGS_LONG" "\<not> flag (int_flags CHR ''x'' FLAGS_LONG) FLAGS_LONG_LONG"
    by (simp_all add: int_flags_def base_of_def vmm_flags bit_simps)
  then show ?thesis by (simp add: render_percent p conv_text_def int_value_def)
qed

text \<open>A null string is dereferenced.\<close>

lemma null_string_faults: "render (CHR ''%'' # CHR ''s'' # format) (Va_str 0 p # va) = Fault Null_deref"
proof -
  have "parse_spec (CHR ''s'' # format) (Va_str 0 p # va) =
      Ret (CHR ''s'', 0, 0, 0, CHR ''s'' # format, Va_str 0 p # va)"
    by (simp add: parse_simps)
  then show ?thesis by (simp add: render_percent conv_text_def)
qed

section \<open>Unbounded output\<close>

text \<open>When rendering succeeds, formatting is rendering on every output function.\<close>

lemma conv_of_text:
  assumes "conv_text c flags width precision va = Ret (t, va')"
  shows "conv out maxlen c flags width precision va st = bind_res (out_all out maxlen t st) (\<lambda>st. Ret (st, va'))"
proof (cases "c = CHR ''c''")
  case True
  with assms obtain w where w: "va_int va = Ret (w, va')" "t = pad_text flags (unat width - 1) [char_of (unat w)]"
    by (auto simp: conv_text_def)
  show ?thesis
    using True
    by (cases "flag flags FLAGS_LEFT")
      (simp_all add: conv_def conv_char_def w pad_text_def out_times_eq out_all_append bind_res_assoc Let_def)
next
  case False
  then show ?thesis by (simp add: conv_is_text_but_c assms)
qed

lemma loop_of_render:
  "render format va = Ret t \<Longrightarrow> vsnprintf_loop out maxlen format va st = out_all out maxlen t st"
proof (induction format arbitrary: va t st rule: length_induct)
  case (1 format)
  then have IH: "vsnprintf_loop out maxlen f va' st' = out_all out maxlen t' st'"
    if "length f < length format" "render f va' = Ret t'" for f va' t' st'
    using that by blast
  consider "peek format = CHR 0x00" | "peek format \<noteq> CHR 0x00" "peek format \<noteq> CHR ''%''"
    | "peek format = CHR ''%''" by blast
  then show ?case
  proof cases
    case 1
    with "1.prems" show ?thesis by (simp add: vsnprintf_loop.simps [of out maxlen format] render.simps [of format])
  next
    case 2
    with "1.prems" obtain t' where t: "render (tl format) va = Ret t'" "t = peek format # t'"
      by (auto simp: render.simps [of format])
    have "length (tl format) < length format" using 2 by (cases format) (simp_all add: peek_def)
    then show ?thesis
      using 2 by (simp add: vsnprintf_loop.simps [of out maxlen format] t IH [OF _ t(1)] bind_res_assoc)
  next
    case 3
    then obtain f where f: "format = CHR ''%'' # f" by (cases format) (simp_all add: peek_def)
    from "1.prems" [unfolded f render_percent] obtain c flags width precision f' va1 t1 va2 f2 t2 where
      p: "parse_spec f va = Ret (c, flags, width, precision, f', va1)"
      and c: "conv_text c flags width precision va1 = Ret (t1, va2)"
      and n: "next_char f' = Ret f2" and r: "render f2 va2 = Ret t2" and t: "t = t1 @ t2"
      by (auto split: prod.splits)
    have "length f2 < length format"
      using parse_spec_length [OF p] n by (auto simp: f next_char_def split: list.splits)
    then show ?thesis
      using IH [OF _ r]
      by (simp add: f peek_def vsnprintf_loop.simps [of out maxlen "CHR ''%'' # f"] p conv_of_text [OF c] n t
          bind_res_assoc out_all_append)
  qed
qed

lemma out_all_unbounded:
  assumes "i + length t < 2 ^ 64 - 1" and "i \<le> length (out_buf s)"
  shows "out_all Out_buffer (-1) t (of_nat i, s) =
    (if i + length t \<le> length (out_buf s)
     then Ret (of_nat (i + length t), s\<lparr>out_buf := overwrite (out_buf s) i t\<rparr>) else Fault Out_of_bounds)"
  using assms
proof (induction t arbitrary: i s)
  case Nil
  then show ?case by (simp add: overwrite_def)
next
  case (Cons c t)
  have i: "unat (of_nat i :: u64) = i" using Cons.prems(1) by (simp add: unat_of_nat)
  then have lt: "(of_nat i :: u64) < -1" using Cons.prems(1) by (simp add: word_less_nat_alt unsigned_minus_1_eq_mask mask_eq_exp_minus_1)
  show ?case
  proof (cases "i < length (out_buf s)")
    case True
    let ?b = "(out_buf s)[i := c]"
    have put: "out_buffer c (of_nat i) (-1) s = Ret (s\<lparr>out_buf := ?b\<rparr>)"
      using True lt i by (simp add: out_buffer_def)
    have ov: "overwrite ?b (Suc i) t = overwrite (out_buf s) i (c # t)"
      using True by (simp add: overwrite_def take_Suc_conv_app_nth)
    show ?thesis
      using Cons.IH [of "Suc i" "s\<lparr>out_buf := ?b\<rparr>"] Cons.prems(1) True
      by (simp add: put ov algebra_simps)
  next
    case False
    then have "out_buffer c (of_nat i) (-1) s = Fault Out_of_bounds"
      using lt i Cons.prems(2) by (simp add: out_buffer_def arr_mod_uint_out)
    with False show ?thesis by simp
  qed
qed

text \<open>
  C20. \<^verbatim>\<open>sprintf\<close> into a buffer: the text and a terminating zero when both fit, and otherwise a write behind
  the end of the buffer.
\<close>
theorem sprintf_needs_room:
  assumes "render format va = Ret t" and "length t < 2 ^ 63"
  shows "c_sprintf True format va s =
    (if length t < length (out_buf s)
     then Ret (to_c_int (of_nat (length t)), s\<lparr>out_buf := t @ CHR 0x00 # drop (Suc (length t)) (out_buf s)\<rparr>)
     else Fault Out_of_bounds)"
proof -
  let ?n = "of_nat (length t) :: u64"
  have n: "unat ?n = length t" using assms(2) by (simp add: unat_of_nat)
  then have lt: "?n < -1" using assms(2) by (simp add: word_less_nat_alt unsigned_minus_1_eq_mask mask_eq_exp_minus_1)
  have all: "out_all Out_buffer (-1) t (0, s) =
      (if length t \<le> length (out_buf s)
       then Ret (?n, s\<lparr>out_buf := t @ drop (length t) (out_buf s)\<rparr>) else Fault Out_of_bounds)"
    using out_all_unbounded [of 0 t s] assms(2) by (simp add: overwrite_def)
  have put: "out_buffer CHR 0x00 ?n (-1) (s\<lparr>out_buf := b\<rparr>) =
      (if length t < length b then Ret (s\<lparr>out_buf := b[length t := CHR 0x00]\<rparr>) else Fault Out_of_bounds)" for b
    using lt n by (simp add: out_buffer_def arr_mod_uint_out)
  show ?thesis
  proof (cases "length t < length (out_buf s)")
    case True
    then have "(t @ drop (length t) (out_buf s))[length t := CHR 0x00] = t @ CHR 0x00 # drop (Suc (length t)) (out_buf s)"
      by (simp add: list_update_append Cons_nth_drop_Suc [symmetric])
    with True lt show ?thesis
      by (simp add: c_sprintf_def vsnprintf_def loop_of_render [OF assms(1)] all put)
  next
    case False
    then consider "length (out_buf s) < length t" | "length (out_buf s) = length t" by linarith
    then show ?thesis
      using lt by cases (simp_all add: c_sprintf_def vsnprintf_def loop_of_render [OF assms(1)] all put)
  qed
qed

theorem sprintf_needs_room_witness:
  "c_sprintf True ''%u'' [Va_int 12] \<lparr>out_buf = ''ab'', console = [], fct_calls = []\<rparr> = Fault Out_of_bounds"
proof -
  have "render ''%u'' [Va_int 12] = Ret ''12''" by code_simp
  from sprintf_needs_room [OF this, of "\<lparr>out_buf = ''ab'', console = [], fct_calls = []\<rparr>"]
  show ?thesis by simp
qed

theorem snprintf_truncates_witness:
  "c_snprintf True 3 ''%u!'' [Va_int 1234] \<lparr>out_buf = ''abcde'', console = [], fct_calls = []\<rparr> =
     Ret (5, \<lparr>out_buf = [CHR ''1'', CHR ''2'', CHR 0x00, CHR ''d'', CHR ''e''], console = [], fct_calls = []\<rparr>)"
proof -
  have "render ''%u!'' [Va_int 1234] = Ret ''1234!''" by code_simp
  from snprintf_truncates [OF this, of 3 "\<lparr>out_buf = ''abcde'', console = [], fct_calls = []\<rparr>"]
  show ?thesis by (simp add: to_c_int_def)
qed

text \<open>Only 32 digits fit into the conversion buffer: binary output drops the high half of a long.\<close>

lemma binary_drops_high_half:
  "render ''%lb'' [Va_long w] = Ret (rev (map (digit_char 0) (take 32 (digits 2 (unat w)))))"
proof -
  have p: "parse_spec ''lb'' [Va_long w] = Ret (CHR ''b'', FLAGS_LONG, 0, 0, ''b'', [Va_long w])"
    by (simp add: parse_simps)
  have f: "int_flags CHR ''b'' FLAGS_LONG = FLAGS_LONG" "FLAGS_LONG AND NOT FLAGS_HASH = FLAGS_LONG"
    by (auto simp: int_flags_def base_of_def vmm_flags bit_simps intro!: bit_word_eqI)
  have "digit_char FLAGS_LONG = digit_char 0" by (rule digit_char_case) (simp add: vmm_flags)
  then have "int_text w False 2 0 0 FLAGS_LONG = rev (map (digit_char 0) (take 32 (digits 2 (unat w))))"
    by (simp add: int_text_def f int_buf_def digits_buf_def zeros_buf_def zeros_room_def prefix_buf_def sign_buf_def
        field_width_def rev_text_def vmm_flags Let_def)
  then show ?thesis
    by (simp add: render_percent p conv_text_def f int_value_def base_of_def next_char_def vmm_flags)
qed

end
