(* ===== verification/Float_Bounds.thy ===== *)
theory Float_Bounds imports Complex_Main Printf_Facts begin

text \<open>
  Doubles as real numbers: the value of a double, a bound on what rounding does to it, and from
  that the conversions to integers that stay in range.
\<close>

definition units :: "int \<Rightarrow> int \<Rightarrow> real" where
  "units m e = of_int m * 2 powr of_int e"

lemma units_shift: "0 \<le> k \<Longrightarrow> units (m * 2 ^ nat k) e = units m (e + k)"
  by (simp add: units_def powr_add powr_realpow [symmetric])

lemma units_mono: "units m e \<le> units m' e \<longleftrightarrow> m \<le> m'"
  by (simp add: units_def)

lemma units_less: "units m e < units m' e \<longleftrightarrow> m < m'"
  by (simp add: units_def)

lemma units_zero [simp]: "units m 0 = of_int m"
  by (simp add: units_def)

lemma units_nonneg [simp]: "0 \<le> units m e \<longleftrightarrow> 0 \<le> m"
  by (simp add: units_def zero_le_mult_iff)

section \<open>Rounding\<close>

lemma bits_le: "n < 2 ^ k \<Longrightarrow> bits n \<le> int k"
proof (induction k arbitrary: n)
  case 0
  then show ?case by (simp add: bits.simps [of n])
next
  case (Suc k)
  then have "bits (n div 2) \<le> int k" by simp
  then show ?case by (simp add: bits.simps [of n])
qed

lemma bits_pos: "0 < n \<Longrightarrow> 2 ^ nat (bits n - 1) \<le> n \<and> 1 \<le> bits n"
proof (induction n rule: bits.induct)
  case (1 n)
  show ?case
  proof (cases "n = 1")
    case True
    moreover have "bits 1 = 1" by (simp add: bits.simps)
    ultimately show ?thesis by simp
  next
    case False
    then have IH: "2 ^ nat (bits (n div 2) - 1) \<le> n div 2" "1 \<le> bits (n div 2)" using 1 by auto
    have "nat (bits n - 1) = Suc (nat (bits (n div 2) - 1))" using IH(2) 1(2) by (simp add: bits.simps [of n])
    then have "2 ^ nat (bits n - 1) = 2 * (2 :: int) ^ nat (bits (n div 2) - 1)" by simp
    also have "\<dots> \<le> n" using IH(1) by linarith
    finally show ?thesis using IH(2) 1(2) by (simp add: bits.simps [of n])
  qed
qed

text \<open>Rounding errs by at most half a unit.\<close>

lemma shift_round_error: "2 * \<bar>shift_round n k * 2 ^ k - n\<bar> \<le> 2 ^ k"
proof -
  define p :: int where "p = 2 ^ k"
  define q where "q = n div p"
  define r where "r = n mod p"
  have p: "0 < p" by (simp add: p_def)
  have n: "n = q * p + r" by (simp add: q_def r_def)
  have r: "0 \<le> r" "r < p" using p by (simp_all add: r_def)
  have "shift_round n k = (if 2 * r < p \<or> 2 * r = p \<and> even q then q else q + 1)"
    by (simp add: shift_round_def p_def q_def r_def Let_def)
  then show ?thesis
    using r unfolding p_def [symmetric] by (auto simp: n distrib_right)
qed

lemma shift_round_nonneg: "0 \<le> n \<Longrightarrow> 0 \<le> shift_round n k"
  by (simp add: shift_round_def Let_def pos_imp_zdiv_nonneg_iff add_nonneg_nonneg)

text \<open>
  The rounded value errs by half a unit, which is at most the fraction \<open>2 ^ -53\<close> of the value, or
  \<open>2 ^ -1075\<close> near zero.
\<close>

lemma units_diff: "units (m - m') e = units m e - units m' e"
  by (simp add: units_def algebra_simps)

lemma units_pow: "0 \<le> k \<Longrightarrow> units (2 ^ nat k) e = 2 powr of_int (e + k)"
  by (simp add: units_def powr_add powr_realpow [symmetric])

lemma units_ge_bits: "0 < n \<Longrightarrow> 2 powr of_int (bits n - 1 + e) \<le> units n e"
  using bits_pos [of n] units_pow [of "bits n - 1" e] units_mono [of "2 ^ nat (bits n - 1)" e n]
  by (simp add: algebra_simps)

lemma shift_error:
  assumes "0 < n" and "k = max (bits n - 53) (-1074 - e)" and "0 < k"
  shows "\<bar>units (shift_round n (nat k)) (e + k) - units n e\<bar> \<le> max (units n e * 2 powr -53) (2 powr -1075)"
proof -
  let ?d = "shift_round n (nat k) * 2 ^ nat k - n"
  have "units (shift_round n (nat k)) (e + k) - units n e = units ?d e"
    using units_shift [of k "shift_round n (nat k)" e] assms(3) by (simp add: units_diff)
  then have "2 * \<bar>units (shift_round n (nat k)) (e + k) - units n e\<bar> = units (2 * \<bar>?d\<bar>) e"
    by (simp add: units_def abs_mult)
  also have "\<dots> \<le> units (2 ^ nat k) e" using shift_round_error [of n "nat k"] by (simp add: units_mono)
  also have "\<dots> = 2 powr of_int (e + k)" using assms(3) by (intro units_pow) simp
  finally have half: "\<bar>units (shift_round n (nat k)) (e + k) - units n e\<bar> \<le> 2 powr of_int (e + k) / 2" by simp
  show ?thesis
  proof (cases "k = bits n - 53")
    case True
    then have ek: "of_int (e + k) = of_int (bits n - 1 + e) + (-53 :: real) + 1" by simp
    have "(2 :: real) powr of_int (e + k) / 2 = 2 powr of_int (bits n - 1 + e) * 2 powr -53"
      unfolding ek powr_add by simp
    also have "\<dots> \<le> units n e * 2 powr -53" using units_ge_bits [OF assms(1), of e] by (intro mult_right_mono) simp_all
    finally show ?thesis using half by linarith
  next
    case False
    then have "e + k = -1074" using assms(2) by linarith
    then have ek: "of_int (e + k) = (-1075 :: real) + 1" by simp
    have "(2 :: real) powr of_int (e + k) / 2 = 2 powr -1075" unfolding ek powr_add by simp
    with half show ?thesis by linarith
  qed
qed

lemma shift_to_zero:
  assumes "0 < n" and "k = max (bits n - 53) (-1074 - e)" and "0 < k" and "shift_round n (nat k) = 0"
  shows "e + k = -1074"
proof -
  have "2 * 2 ^ nat (bits n - 1) \<le> 2 * n" using bits_pos [OF assms(1)] by simp
  also have "\<dots> \<le> 2 ^ nat k" using shift_round_error [of n "nat k"] assms(1,4) by simp
  finally have "(2 :: int) ^ Suc (nat (bits n - 1)) \<le> 2 ^ nat k" by simp
  then have "Suc (nat (bits n - 1)) \<le> nat k" by (rule power_le_imp_le_exp [rotated]) simp
  then have "bits n \<le> k" using assms(3) by linarith
  then show ?thesis using assms(2) by linarith
qed

lemma dround_form:
  assumes "0 < n"
  obtains m x where
    "dround neg n e = (if 1024 < bits m + x then Dinf neg else Dfin (if neg then - m else m) x)"
    "0 \<le> m" "m = 0 \<Longrightarrow> x = -1074"
    "\<bar>units m x - units n e\<bar> \<le> max (units n e * 2 powr -53) (2 powr -1075)"
proof -
  define k where "k = max (bits n - 53) (-1074 - e)"
  define m where "m = (if k \<le> 0 then n else shift_round n (nat k))"
  define x where "x = (if k \<le> 0 then e else e + k)"
  define m' where "m' = (if m = 2 ^ 53 then 2 ^ 52 else m)"
  define x' where "x' = (if m = 2 ^ 53 then x + 1 else x)"
  have m: "0 \<le> m" using assms by (simp add: m_def shift_round_nonneg)
  have "\<bar>units m x - units n e\<bar> \<le> max (units n e * 2 powr -53) (2 powr -1075)"
  proof (cases "k \<le> 0")
    case True
    then show ?thesis using assms by (simp add: m_def x_def le_max_iff_disj)
  next
    case False
    then show ?thesis using shift_error [OF assms k_def] by (simp add: m_def x_def)
  qed
  moreover have "units m' x' = units m x" by (simp add: m'_def x'_def units_def powr_add)
  ultimately have err: "\<bar>units m' x' - units n e\<bar> \<le> max (units n e * 2 powr -53) (2 powr -1075)" by simp
  have zero: "m' = 0 \<Longrightarrow> x' = -1074"
    using shift_to_zero [OF assms k_def] assms by (auto simp: m'_def m_def x'_def x_def split: if_splits)
  have "(if k \<le> 0 then (n, e) else (shift_round n (nat k), e + k)) = (m, x)"
    by (simp add: m_def x_def)
  moreover have "(if m = 2 ^ 53 then (2 ^ 52, x + 1) else (m, x)) = (m', x')"
    unfolding m'_def x'_def by (simp only: split: if_split) simp
  ultimately have "dround neg n e = (if 1024 < bits m' + x' then Dinf neg else Dfin (if neg then - m' else m') x')"
    using less_imp_neq [OF assms, symmetric] unfolding dround_def Let_def k_def [symmetric]
    by (simp only: prod.case if_False)
  moreover have "0 \<le> m'" using m by (simp add: m'_def)
  ultimately show thesis using that zero err by blast
qed

text \<open>The same with a coarse bound, for values that are not huge.\<close>

lemma coarse_error:
  fixes u :: real
  assumes "0 \<le> u" shows "max (u * 2 powr -53) (2 powr -1075) \<le> (u + 1) / 10 ^ 9"
proof -
  have "(2 :: real) powr -53 \<le> 1 / 10 ^ 9" by (simp add: powr_minus powr_numeral divide_simps)
  then have "u * 2 powr -53 \<le> u * (1 / 10 ^ 9)" using assms by (rule mult_left_mono)
  moreover have "(2 :: real) powr -1075 \<le> 1 / 10 ^ 9"
    using \<open>2 powr -53 \<le> 1 / 10 ^ 9\<close> powr_mono [of "-1075" "-53" "2 :: real"] by linarith
  ultimately show ?thesis using assms by (simp add: add_divide_distrib)
qed

lemma coarse_upper:
  fixes a u B :: real
  assumes "\<bar>a - u\<bar> \<le> (u + 1) / 10 ^ 9" and "u \<le> B" shows "a \<le> B + (B + 1) / 10 ^ 9"
proof -
  have "a - u \<le> (u + 1) / 10 ^ 9" using assms(1) abs_ge_self [of "a - u"] by linarith
  also have "\<dots> \<le> (B + 1) / 10 ^ 9" using assms(2) by (intro divide_right_mono) simp_all
  finally show ?thesis using assms(2) by linarith
qed

lemma dround_cases:
  assumes "0 < n" and "units n e \<le> 2 ^ 1000"
  obtains m x where "dround neg n e = Dfin (if neg then - m else m) x" "0 \<le> m"
    "\<bar>units m x - units n e\<bar> \<le> (units n e + 1) / 10 ^ 9"
proof -
  obtain m x where
    d: "dround neg n e = (if 1024 < bits m + x then Dinf neg else Dfin (if neg then - m else m) x)"
    and m: "0 \<le> m" "m = 0 \<Longrightarrow> x = -1074"
    and err: "\<bar>units m x - units n e\<bar> \<le> max (units n e * 2 powr -53) (2 powr -1075)"
    using dround_form [OF assms(1)] by blast
  have u: "0 \<le> units n e" using assms(1) by simp
  note err' = order_trans [OF err coarse_error [OF u]]
  have "bits m + x \<le> 1024"
  proof (cases "m = 0")
    case False
    then have "2 powr of_int (bits m - 1 + x) \<le> units m x" using m(1) by (intro units_ge_bits) simp
    also have "\<dots> \<le> units n e + (units n e + 1) / 10 ^ 9" using err' by linarith
    also have "\<dots> \<le> 2 * 2 ^ 1000" using assms(2) u by (simp add: field_simps)
    also have "\<dots> = 2 powr 1001" by (simp add: powr_numeral)
    finally have "of_int (bits m - 1 + x) \<le> (1001 :: real)" by (simp only: powr_le_cancel_iff)
    then show ?thesis by linarith
  qed (use m(2) in \<open>simp add: bits.simps [of 0]\<close>)
  then show thesis using that d m(1) err' by simp
qed

section \<open>Operations\<close>

lemma dlt_units: "dlt (Dfin m e) (Dfin m' e') \<longleftrightarrow> units m e < units m' e'"
proof -
  define x where "x = min e e'"
  have "units (m * 2 ^ nat (e - x)) x = units m e" "units (m' * 2 ^ nat (e' - x)) x = units m' e'"
    by (simp_all add: x_def units_shift)
  then show ?thesis by (simp add: Let_def x_def [symmetric] flip: units_less [of _ x])
qed

lemma trunc_units_bounds:
  assumes "0 \<le> m"
  shows "0 \<le> trunc_units m e" "of_int (trunc_units m e) \<le> units m e" "units m e < of_int (trunc_units m e) + 1"
proof -
  show "0 \<le> trunc_units m e" using assms by (simp add: trunc_units_def pos_imp_zdiv_nonneg_iff sgn_if)
  have "of_int (trunc_units m e) \<le> units m e \<and> units m e < of_int (trunc_units m e) + 1"
  proof (cases "0 \<le> e")
    case True
    then show ?thesis by (simp add: trunc_units_def units_def powr_realpow [symmetric])
  next
    case False
    define p :: int where "p = 2 ^ nat (- e)"
    have p: "0 < p" by (simp add: p_def)
    have "trunc_units m e = m div p" using False assms by (simp add: trunc_units_def p_def sgn_if)
    moreover have "units m e = of_int m / of_int p"
      using False by (simp add: units_def p_def powr_minus divide_inverse powr_realpow [symmetric])
    ultimately show ?thesis
      using p floor_divide_of_int_eq [of m p, where 'a = real] floor_correct [of "of_int m / of_int p :: real"] by simp
  qed
  then show "of_int (trunc_units m e) \<le> units m e" "units m e < of_int (trunc_units m e) + 1" by simp_all
qed

lemma d_of_int_small: "0 \<le> i \<Longrightarrow> i < 2 ^ 53 \<Longrightarrow> d_of_int i = Dfin i 0"
  using bits_le [of i 53] by (simp add: d_of_int_def dround_def Let_def)

lemma dround_nonneg:
  assumes "0 \<le> n" and "units n e \<le> 2 ^ 1000"
  obtains m x where "dround False n e = Dfin m x" "0 \<le> m" "\<bar>units m x - units n e\<bar> \<le> (units n e + 1) / 10 ^ 9"
proof (cases "n = 0")
  case True
  then show thesis using that [of 0 0] by (simp add: dround_def units_def)
next
  case False
  with assms(1) have "0 < n" by simp
  from dround_cases [OF this assms(2), of False] show thesis using that by auto
qed

text \<open>The fraction of a value: at most two after rounding.\<close>

lemma dsub_fraction:
  assumes "0 \<le> w" "w < 2 ^ 53" "of_int w \<le> units m e" "units m e < of_int w + 1"
  obtains m' e' where "dsub (Dfin m e) (d_of_int w) = Dfin m' e'" "0 \<le> m'" "units m' e' \<le> 2"
proof -
  define x where "x = min e 0"
  define sum where "sum = m * 2 ^ nat (e - x) + - w * 2 ^ nat (0 - x)"
  have "units sum x = units (m * 2 ^ nat (e - x)) x - units (w * 2 ^ nat (0 - x)) x"
    by (simp add: sum_def units_def algebra_simps)
  also have "\<dots> = units m e - of_int w" using units_shift [of "e - x" m x] units_shift [of "0 - x" w x] by (simp add: x_def)
  finally have u: "units sum x = units m e - of_int w" .
  then have sum: "0 \<le> sum" using assms(3) units_nonneg [of sum x] by simp
  have eq: "dsub (Dfin m e) (d_of_int w) = dround False sum x"
    using sum assms(1,2) by (simp add: dsub_def d_of_int_small Let_def x_def sum_def)
  have "units sum x \<le> 2 ^ 1000" using u assms(4) by (smt (verit) one_le_power)
  from dround_nonneg [OF sum this] obtain m' x' where
    d: "dround False sum x = Dfin m' x'" "0 \<le> m'" and err: "\<bar>units m' x' - units sum x\<bar> \<le> (units sum x + 1) / 10 ^ 9" by blast
  have "units m' x' \<le> 2" using coarse_upper [OF err, of 1] u assms(4) by simp
  then show thesis using that eq d by simp
qed

lemma d_to_range_in:
  assumes "0 \<le> m" and "units m e < of_int hi"
  shows "d_to_range lo hi (Dfin m e) = (if lo \<le> trunc_units m e then Ret (trunc_units m e) else Fault Int_overflow)"
proof -
  have "real_of_int (trunc_units m e) < of_int hi" using trunc_units_bounds(2) [OF assms(1), of e] assms(2) by linarith
  then show ?thesis by (simp add: d_to_range_def Let_def)
qed

lemma d_to_int_small:
  assumes "0 \<le> m" and "units m e \<le> 2 * 10 ^ 9"
  shows "d_to_int (Dfin m e) = Ret (trunc_units m e)"
  unfolding d_to_int_def using assms trunc_units_bounds(1) [OF assms(1), of e] by (subst d_to_range_in) simp_all

section \<open>Fixed notation returns\<close>

lemma pow10_eq: "pow10 = map (\<lambda>p. Dfin (10 ^ p) 0) [0..<10]"
  by (simp add: pow10_def d_of_int_small upt_rec)

lemma pow10_get:
  assumes "unat prec < 10"
  shows "arr_get pow10 (uint prec) = Ret (Dfin (10 ^ unat prec) 0)"
  using assms unfolding pow10_eq by (subst arr_get_uint) (simp_all del: upt_rec_numeral upt_Suc)

lemma ftoa_split_returns:
  assumes "0 \<le> m" and "units m e \<le> 2 * 10 ^ 9" and "prec \<le> 9"
  shows "\<exists>whole fr. ftoa_split (Dfin m e) prec = Ret (whole, fr) \<and> whole \<le> 2 * 10 ^ 9 + 1"
proof -
  define w where "w = trunc_units m e"
  have w: "0 \<le> w" "of_int w \<le> units m e" "units m e < of_int w + 1"
    using trunc_units_bounds [OF assms(1), of e] by (simp_all add: w_def)
  have w9: "w \<le> 2 * 10 ^ 9" using w(2) assms(2) by simp
  note int = d_to_int_small [OF assms(1,2), folded w_def]
  obtain m1 e1 where m1: "dsub (Dfin m e) (d_of_int w) = Dfin m1 e1" "0 \<le> m1" "units m1 e1 \<le> 2"
    using dsub_fraction [OF w(1) _ w(2,3)] w9 by auto
  have p: "unat prec < 10" using assms(3) by (simp add: word_le_nat_alt)
  note scale = pow10_get [OF p]
  have pow: "(10 :: real) ^ unat prec \<le> 10 ^ 9" using p by (intro power_increasing) simp_all
  have u: "units (m1 * 10 ^ unat prec) e1 = units m1 e1 * 10 ^ unat prec" by (simp add: units_def)
  also have "\<dots> \<le> 2 * 10 ^ 9" using m1(2,3) pow by (intro mult_mono) simp_all
  finally have u9: "units (m1 * 10 ^ unat prec) e1 \<le> 2 * 10 ^ 9" .
  have big: "(2 * 10 ^ 9 :: real) \<le> 2 ^ 1000"
  proof -
    have "(2 * 10 ^ 9 :: real) \<le> 2 ^ 31" by simp
    also have "\<dots> \<le> 2 ^ 1000" by (rule power_increasing) simp_all
    finally show ?thesis .
  qed
  obtain m2 e2 where m2: "dmul (Dfin m1 e1) (Dfin (10 ^ unat prec) 0) = Dfin m2 e2" "0 \<le> m2" "units m2 e2 \<le> 4 * 10 ^ 9"
  proof -
    from dround_nonneg [of "m1 * 10 ^ unat prec" e1] m1(2) order_trans [OF u9 big] obtain m2 e2 where
      d: "dround False (m1 * 10 ^ unat prec) e1 = Dfin m2 e2" "0 \<le> m2"
      and err: "\<bar>units m2 e2 - units (m1 * 10 ^ unat prec) e1\<bar> \<le> (units (m1 * 10 ^ unat prec) e1 + 1) / 10 ^ 9"
      by auto
    have "units m2 e2 \<le> 4 * 10 ^ 9" using coarse_upper [OF err u9] by simp
    then show thesis using that d m1(2) by (simp add: not_less)
  qed
  have ulong: "d_to_ulong (Dfin m2 e2) = Ret (of_int (trunc_units m2 e2))"
    unfolding d_to_ulong_def using m2(2,3) trunc_units_bounds(1) [OF m2(2), of e2]
    by (subst d_to_range_in) simp_all
  have inc: "int_inc w = Ret (w + 1)" using w9 by (simp add: int_inc_def)
  show ?thesis
    using w(1) w9
    unfolding ftoa_split_def int bind_res.simps scale m1(1) m2(1) ulong Let_def
    by (simp add: inc)
qed

lemma ftoa_whole_returns: "\<exists>buf'. ftoa_whole buf whole = Ret buf'"
proof (induction buf whole rule: ftoa_whole.induct)
  case (1 buf whole)
  then show ?case by (subst ftoa_whole.simps) (auto simp: buf_put_def)
qed

lemma ftoa_fraction_returns:
  assumes "whole \<le> 2 * 10 ^ 9 + 1"
  shows "\<exists>buf' whole'. ftoa_fraction buf val whole fr prec = Ret (buf', whole')"
proof (cases "prec = 0")
  case True
  then show ?thesis using assms by (simp add: ftoa_fraction_def int_inc_def Let_def)
next
  case False
  then show ?thesis by (simp add: ftoa_fraction_eq Let_def)
qed

text \<open>The magnitude of a value of at most \<^verbatim>\<open>PRINTF_MAX_FLOAT\<close>.\<close>

lemma max_float: "PRINTF_MAX_FLOAT = Dfin 1000000000 0"
  by (simp add: PRINTF_MAX_FLOAT_def d_of_int_small)

lemma magnitude:
  assumes "\<not> dlt PRINTF_MAX_FLOAT (Dfin m e)" and "\<not> dlt (Dfin m e) (dneg PRINTF_MAX_FLOAT)"
  obtains m' e' where "(if dlt (Dfin m e) (Dfin 0 0) then dsub (Dfin 0 0) (Dfin m e) else Dfin m e) = Dfin m' e'"
    "0 \<le> m'" "units m' e' \<le> 2 * 10 ^ 9"
proof (cases "m < 0")
  case False
  moreover have "units m e \<le> 10 ^ 9" using assms(1) by (simp add: max_float dlt_units del: dlt.simps)
  ultimately show thesis
    using that [of m e] by (simp add: dlt_units units_def mult_less_0_iff del: dlt.simps)
next
  case True
  define x where "x = min 0 e"
  define n where "n = - m * 2 ^ nat (e - x)"
  have "units n x = - units m e"
    using units_shift [of "e - x" "- m" x] by (simp add: n_def x_def) (simp add: units_def)
  moreover have "- units m e \<le> 10 ^ 9" using assms(2) by (simp add: max_float dlt_units del: dlt.simps)
  ultimately have u: "units n x \<le> 10 ^ 9" by simp
  also have "\<dots> \<le> (2 :: real) ^ 30" by simp
  also have "\<dots> \<le> 2 ^ 1000" by (rule power_increasing) simp_all
  finally have big: "units n x \<le> 2 ^ 1000" .
  have n: "0 \<le> n" using True by (simp add: n_def mult_nonneg_nonpos2)
  have "dsub (Dfin 0 0) (Dfin m e) = dround False n x"
    using n by (simp add: dsub_def Let_def n_def x_def)
  moreover have "dlt (Dfin m e) (Dfin 0 0)"
    using True by (simp add: dlt_units units_def mult_less_0_iff del: dlt.simps)
  moreover obtain m' e' where d: "dround False n x = Dfin m' e'" "0 \<le> m'"
    and err: "\<bar>units m' e' - units n x\<bar> \<le> (units n x + 1) / 10 ^ 9"
    using dround_nonneg [OF n big] by blast
  moreover have "units m' e' \<le> 2 * 10 ^ 9" using coarse_upper [OF err u] by simp
  ultimately show thesis using that by simp
qed

lemma ftoa_buf_bounds:
  assumes "\<not> dlt PRINTF_MAX_FLOAT (Dfin m e)" and "\<not> dlt (Dfin m e) (dneg PRINTF_MAX_FLOAT)"
  shows "if flag flags FLAGS_PRECISION \<and> 41 < prec
    then ftoa_buf (Dfin m e) prec width flags = Fault Out_of_bounds
    else \<exists>r. ftoa_buf (Dfin m e) prec width flags = Ret r"
proof -
  obtain m' e' where v: "(if dlt (Dfin m e) (Dfin 0 0) then dsub (Dfin 0 0) (Dfin m e) else Dfin m e) = Dfin m' e'"
    "0 \<le> m'" "units m' e' \<le> 2 * 10 ^ 9"
    using magnitude [OF assms] by blast
  define p where "p = (if \<not> flag flags FLAGS_PRECISION then PRINTF_DEFAULT_FLOAT_PRECISION else prec)"
  define k where "k = min 32 (unat p - 9)"
  have lim: "ftoa_limit [] p = Ret (replicate k CHR ''0'', p - of_nat k)" by (simp add: ftoa_limit_eq k_def Let_def)
  have k: "unat (p - of_nat k) = unat p - k"
    by (subst unat_sub) (simp_all add: k_def word_le_nat_alt unat_of_nat)
  have iff: "flag flags FLAGS_PRECISION \<and> 41 < prec \<longleftrightarrow> 41 < unat p"
    by (simp add: p_def PRINTF_DEFAULT_FLOAT_PRECISION_def word_less_nat_alt)
  show ?thesis
  proof (cases "41 < unat p")
    case True
    then have "10 \<le> unat (p - of_nat k)" using k by (simp add: k_def)
    then have "int 10 \<le> int (unat (p - of_nat k))" by (simp only: of_nat_le_iff)
    then have "int (length pow10) \<le> uint (p - of_nat k)" by (simp add: pow10_def)
    then have "ftoa_split (Dfin m' e') (p - of_nat k) = Fault Out_of_bounds"
      by (simp add: ftoa_split_def d_to_int_small [OF v(2,3)] arr_get_out)
    then show ?thesis
      using True unfolding iff ftoa_buf_def Let_def p_def [symmetric] v(1) lim by simp
  next
    case False
    then have "p - of_nat k \<le> 9" using k by (simp add: word_le_nat_alt k_def)
    from ftoa_split_returns [OF v(2,3) this] obtain w fr where
      split: "ftoa_split (Dfin m' e') (p - of_nat k) = Ret (w, fr)" "w \<le> 2 * 10 ^ 9 + 1" by blast
    from ftoa_fraction_returns [OF split(2)] obtain b w' where
      "ftoa_fraction (replicate k CHR ''0'') (Dfin m' e') w fr (p - of_nat k) = Ret (b, w')" by blast
    moreover obtain b' where "ftoa_whole b w' = Ret b'" using ftoa_whole_returns by blast
    ultimately show ?thesis
      using False split(1) unfolding iff ftoa_buf_def Let_def p_def [symmetric] v(1) lim by simp
  qed
qed

lemma dbl_max_units: "10 ^ 9 \<le> units (2 ^ 53 - 1) 971"
proof -
  have "(10 ^ 9 :: real) \<le> 2 ^ 30" by simp
  also have "\<dots> \<le> 2 ^ 971" by (rule power_increasing) simp_all
  also have "\<dots> = 2 powr 971" by (rule powr_numeral [symmetric]) simp
  also have "\<dots> \<le> units (2 ^ 53 - 1) 971" by (simp add: units_def)
  finally show ?thesis .
qed

lemma small_is_finite:
  assumes "\<not> dlt PRINTF_MAX_FLOAT val" and "\<not> dlt val (dneg PRINTF_MAX_FLOAT)" and "val \<noteq> Dnan"
  obtains m e where "val = Dfin m e" "\<not> dlt DBL_MAX val" "\<not> dlt val (dneg DBL_MAX)"
proof (cases val)
  case (Dfin m e)
  have "units m e \<le> 10 ^ 9" "- units m e \<le> 10 ^ 9"
    using assms(1,2) by (simp_all add: Dfin max_float dlt_units del: dlt.simps)
  moreover have "units (- (2 ^ 53 - 1)) 971 = - units (2 ^ 53 - 1) 971" by (simp add: units_def)
  ultimately have "\<not> dlt DBL_MAX val" "\<not> dlt val (dneg DBL_MAX)"
    using dbl_max_units unfolding Dfin DBL_MAX_def dneg.simps dlt_units by linarith+
  then show thesis using that Dfin by blast
qed (use assms in \<open>auto simp: max_float\<close>)

text \<open>
  C19. \<^verbatim>\<open>%f\<close> of a number of at most \<^verbatim>\<open>PRINTF_MAX_FLOAT\<close>: with a precision of up to 41 the conversion stays
  inside its 32-byte buffer and its table of powers of ten, no conversion to an integer type
  overflows, and it returns; with a larger precision the table is read behind its end.
\<close>
theorem fixed_notation_bounds:
  assumes "\<not> dlt PRINTF_MAX_FLOAT val" and "\<not> dlt val (dneg PRINTF_MAX_FLOAT)" and "val \<noteq> Dnan"
  shows "if flag flags FLAGS_PRECISION \<and> 41 < prec
    then ftoa (Suc depth) Out_char idx maxlen val prec width flags s = Fault Out_of_bounds
    else \<exists>r. ftoa (Suc depth) Out_char idx maxlen val prec width flags s = Ret r"
proof -
  obtain m e where v: "val = Dfin m e" "\<not> dlt DBL_MAX val" "\<not> dlt val (dneg DBL_MAX)"
    using small_is_finite [OF assms] by blast
  have t: "ftoa (Suc depth) Out_char idx maxlen val prec width flags s =
      bind_res (ftoa_buf val prec width flags) (\<lambda>(buf, width). out_all Out_char maxlen (rev_text buf width flags) (idx, s))"
    using assms v(2,3) by (simp add: ftoa_fixed_eq)
  show ?thesis
    using ftoa_buf_bounds [OF assms(1,2) [unfolded v(1)], of flags prec width]
    unfolding t by (auto simp: v(1) out_all_console split: if_splits)
qed

theorem fixed_notation_bounds_witness:
  "ftoa 1 Out_char 0 (-1) (Dfin 1 0) 42 0 FLAGS_PRECISION \<lparr>out_buf = [], console = [], fct_calls = []\<rparr> = Fault Out_of_bounds"
proof -
  have "\<not> dlt PRINTF_MAX_FLOAT (Dfin 1 0)" "\<not> dlt (Dfin 1 0) (dneg PRINTF_MAX_FLOAT)" "Dfin 1 0 \<noteq> Dnan"
    by (simp_all add: max_float)
  from fixed_notation_bounds [OF this, of FLAGS_PRECISION 42 0 0 "-1" 0 "\<lparr>out_buf = [], console = [], fct_calls = []\<rparr>"]
  show ?thesis by (simp add: vmm_flags)
qed

lemma half_digit_fills_buffer:
  "render ''%.1f'' [Va_double (decimal 95 2)] = Ret ''00000000000000000000000000000010''"
proof -
  have split: "ftoa_split (decimal 95 2) 1 = Ret (0, 10)" by code_simp
  have range: "decimal 95 2 \<noteq> Dnan" "\<not> dlt (decimal 95 2) (dneg DBL_MAX)" "\<not> dlt DBL_MAX (decimal 95 2)"
    "\<not> dlt PRINTF_MAX_FLOAT (decimal 95 2)" "\<not> dlt (decimal 95 2) (dneg PRINTF_MAX_FLOAT)"
    by code_simp+
  have sign: "dlt (decimal 95 2) (Dfin 0 0) = False" by code_simp
  have zeros: "replicate 30 CHR ''0'' = ''000000000000000000000000000000''" by code_simp
  have digits: "dec_digits 10 = ''01''" by code_simp
  have whole: "ftoa_whole ''01000000000000000000000000000000'' 0 = Ret ''01000000000000000000000000000000''" by code_simp
  have "ftoa_fraction [] (decimal 95 2) 0 10 1 = Ret (''01000000000000000000000000000000'', 0)"
    by (simp add: ftoa_fraction_eq digits zeros_room_def put_room_def zeros unsigned_minus_1_eq_mask
        mask_eq_exp_minus_1 Let_def)
  then have "ftoa_buf (decimal 95 2) 1 0 FLAGS_PRECISION = Ret (''01000000000000000000000000000000'', 0)"
    by (simp add: ftoa_buf_def sign ftoa_limit_eq split whole field_width_def zeros_buf_def zeros_room_def sign_buf_def
        vmm_flags Let_def)
  then have "ftoa_text 3 (decimal 95 2) 1 0 FLAGS_PRECISION = Ret ''00000000000000000000000000000010''"
    using range by (simp add: numeral_3_eq_3 rev_text_def vmm_flags)
  moreover have "parse_spec ''.1f'' [Va_double (decimal 95 2)] =
      Ret (CHR ''f'', FLAGS_PRECISION, 0, 1, ''f'', [Va_double (decimal 95 2)])"
    by (simp add: parse_simps)
  ultimately show ?thesis
    by (simp add: render_percent conv_text_def double_text_def next_char_def)
qed

lemma zero_in_exponential_notation: "render ''%e'' [Va_double (Dfin 0 0)] = Ret ''0.000000e-308''"
  by code_simp

end
