(* ===== verification/Float_Error.thy ===== *)
theory Float_Error imports Float_Bounds begin

text \<open>
  The representation of doubles and the error of the operations on them: how far the result of an
  addition, a product or a quotient is from the real number it stands for.
\<close>

section \<open>The representation\<close>

text \<open>A double that has a representation: 53 digits, exponents in range.\<close>

fun wf_double :: "cdouble \<Rightarrow> bool" where
  "wf_double (Dfin m e) \<longleftrightarrow> \<bar>m\<bar> < 2 ^ 53 \<and> -1074 \<le> e \<and> bits \<bar>m\<bar> + e \<le> 1024"
| "wf_double _ \<longleftrightarrow> True"

lemma exp_mask: "(w :: u64) AND 0x7FF = take_bit 11 w" "(w :: u64) AND (push_bit 52 1 - 1) = take_bit 52 w"
  by (simp_all add: take_bit_eq_mask mask_eq_exp_minus_1)

lemma bit_small: "0 \<le> f \<Longrightarrow> f < 2 ^ n \<Longrightarrow> bit (f :: int) i \<Longrightarrow> i < n"
  by (metis bit_take_bit_iff take_bit_int_eq_self)

lemma fields_bounds:
  "0 \<le> uint ((w :: u64) AND (push_bit 52 1 - 1))" "uint (w AND (push_bit 52 1 - 1)) < 2 ^ 52"
  "0 \<le> uint (w AND 0x7FF)" "uint (w AND 0x7FF) < 2 ^ 11"
  unfolding exp_mask unsigned_take_bit_eq by (rule take_bit_nonnegative take_bit_int_less_exp)+

text \<open>The exponent field of a word that was put together from exponent and fraction.\<close>

lemma exponent_field:
  assumes "0 \<le> q" "q < 2 ^ 11" "0 \<le> f" "f < 2 ^ 52"
  shows "uint (drop_bit 52 (push_bit 52 (of_int q) OR of_int f :: u64) AND 0x7FF) = q"
proof -
  have "drop_bit 52 (push_bit 52 (of_int q) OR of_int f :: u64) AND 0x7FF = of_int q"
    unfolding exp_mask
    using bit_small [OF assms(1,2)] bit_small [OF assms(3,4)]
    by (intro bit_word_eqI) (auto simp: bit_simps; force)
  then show ?thesis using assms(1,2) by (simp add: unsigned_of_int take_bit_int_eq_self)
qed

lemma bits_double_one_two:
  "bits_double ((U AND (push_bit 52 1 - 1)) OR push_bit 52 1023) = Dfin (uint (take_bit 52 U) + 2 ^ 52) (-52)"
proof -
  let ?W = "take_bit 52 U OR push_bit 52 1023 :: u64"
  note f = fields_bounds(1,2) [of U, unfolded exp_mask]
  have "?W = push_bit 52 (of_int 1023) OR of_int (uint (take_bit 52 U))" by (simp add: or.commute)
  then have "uint (drop_bit 52 ?W AND 0x7FF) = 1023" using exponent_field [of 1023, OF _ _ f] by simp
  moreover have "?W AND (push_bit 52 1 - 1) = take_bit 52 U"
    unfolding exp_mask by (intro bit_word_eqI) (auto simp: bit_simps)
  moreover have "\<not> bit ?W 63"
    by (simp add: bit_simps)
  ultimately show ?thesis unfolding bits_double_def exp_mask(2) [of U] Let_def by simp
qed

lemma bits_double_power:
  assumes "-1023 < x" "x < 1024"
  shows "bits_double (push_bit 52 (of_int (x + 1023))) = Dfin (2 ^ 52) (x - 52)"
proof -
  define q where "q = x + 1023"
  have q: "0 \<le> q" "q < 2 ^ 11" "q \<noteq> 0" "q \<noteq> 0x7FF" using assms by (simp_all add: q_def)
  let ?W = "push_bit 52 (of_int q) :: u64"
  have "uint (drop_bit 52 ?W AND 0x7FF) = q"
    using exponent_field [OF q(1,2), of 0] by simp
  moreover have "?W AND (push_bit 52 1 - 1) = 0"
    unfolding exp_mask by (intro bit_word_eqI) (auto simp: bit_simps)
  moreover have "\<not> bit ?W 63"
    using bit_small [OF q(1,2), of 11] by (auto simp: bit_simps)
  ultimately have "bits_double ?W = Dfin (2 ^ 52) (q - 1075)" using q unfolding bits_double_def Let_def by simp
  then show ?thesis by (simp add: q_def)
qed

lemma wf_fields:
  assumes "0 \<le> f" "f < 2 ^ 52" "0 \<le> x" "x < 2 ^ 11" "sign = 1 \<or> sign = -1"
  shows "wf_double (if x = 0x7FF then (if f = 0 then Dinf neg else Dnan)
    else if x = 0 then Dfin (sign * f) (-1074) else Dfin (sign * (f + 2 ^ 52)) (x - 1075))"
proof -
  have b: "bits (f + 2 ^ 52) \<le> 53" "bits f \<le> 52"
    using assms bits_le [of "f + 2 ^ 52" 53] bits_le [of f 52] by simp_all
  have "wf_double (Dfin (sign * f) (-1074))"
    using assms b(2) by (auto simp: abs_mult)
  moreover have "\<bar>sign * (f + 2 ^ 52)\<bar> = f + 2 ^ 52" using assms by (auto simp: abs_mult)
  then have "x \<noteq> 0 \<Longrightarrow> x \<noteq> 0x7FF \<Longrightarrow> wf_double (Dfin (sign * (f + 2 ^ 52)) (x - 1075))"
    using assms b(1) by simp
  ultimately show ?thesis by simp
qed

lemma wf_bits_double: "wf_double (bits_double w)"
  unfolding bits_double_def Let_def by (rule wf_fields) (simp_all only: fields_bounds, simp)

lemma bits_nonneg: "0 \<le> bits n"
  by (induction n rule: bits.induct) (simp add: bits.simps [of n for n])

lemma bits_upper: "n < 2 ^ nat (bits n)"
proof (induction n rule: bits.induct)
  case (1 n)
  show ?case
  proof (cases "n \<le> 0")
    case True
    then show ?thesis by (simp add: bits.simps [of n])
  next
    case False
    then have "nat (bits n) = Suc (nat (bits (n div 2)))"
      using bits_nonneg [of "n div 2"] by (simp add: bits.simps [of n])
    then show ?thesis using 1 [OF False] by simp
  qed
qed

lemma units_less_bits: "units n e < 2 powr of_int (bits n + e)"
  using bits_upper [of n] units_less [of n e "2 ^ nat (bits n)"] units_pow [OF bits_nonneg [of n], of e]
  by (simp add: add.commute)

text \<open>The exponent that \<^verbatim>\<open>_etoa\<close> reads from the representation bounds the number.\<close>

lemma double_exponent:
  assumes "0 \<le> m" and "wf_double (Dfin m e)"
  obtains E where "uint (drop_bit 52 (double_bits (Dfin m e)) AND 0x7FF) = E + 1023"
    "-1023 \<le> E" "E \<le> 1023" "units m e < 2 powr of_int (E + 1)"
proof -
  define k where "k = bits m"
  have k: "k \<le> 53" "k + e \<le> 1024" "-1074 \<le> e" "0 \<le> k"
    using assms bits_le [of m 53] bits_nonneg [of m] by (simp_all add: k_def)
  have lt: "units m e < 2 powr of_int (k + e)" unfolding k_def by (rule units_less_bits)
  consider "m = 0" | "0 < m" "k + e - 1 < -1022" | "0 < m" "-1022 \<le> k + e - 1" using assms(1) by linarith
  then show thesis
  proof cases
    case 1
    then show thesis using that [of "-1023"] by (simp add: units_def)
  next
    case 2
    have small: "m * 2 ^ nat (e + 1074) < 2 ^ 52"
    proof -
      have "m * 2 ^ nat (e + 1074) < 2 ^ nat k * 2 ^ nat (e + 1074)" using bits_upper [of m] by (simp add: k_def)
      also have "\<dots> = 2 ^ nat (k + e + 1074)" using k by (simp add: nat_add_distrib [symmetric] power_add [symmetric])
      also have "\<dots> \<le> 2 ^ 52" using 2 by (intro power_increasing) simp_all
      finally show ?thesis .
    qed
    have "double_bits (Dfin m e) = push_bit 52 (of_int 0) OR of_int (m * 2 ^ nat (e + 1074))"
      using 2 by (simp add: k_def [symmetric])
    then have "uint (drop_bit 52 (double_bits (Dfin m e)) AND 0x7FF) = 0"
      using exponent_field [OF _ _ _ small, of 0] 2(1) by simp
    moreover have "units m e < 2 powr -1022"
      using less_le_trans [OF lt powr_mono [of "of_int (k + e)" "-1022" 2]] 2(2) by simp
    ultimately show thesis using that [of "-1023"] by simp
  next
    case 3
    define f where "f = m * 2 ^ nat (53 - k) - 2 ^ 52"
    have f: "0 \<le> f" "f < 2 ^ 52"
    proof -
      have "(2 :: int) ^ 52 = 2 ^ nat (k - 1) * 2 ^ nat (53 - k)"
        using k bits_pos [OF 3(1)] by (simp add: k_def nat_add_distrib [symmetric] flip: power_add)
      also have "\<dots> \<le> m * 2 ^ nat (53 - k)" using bits_pos [OF 3(1)] by (simp add: k_def)
      finally show "0 \<le> f" by (simp add: f_def)
      have "m * 2 ^ nat (53 - k) < 2 ^ nat k * 2 ^ nat (53 - k)" using bits_upper [of m] by (simp add: k_def)
      also have "\<dots> = 2 ^ 53" using k by (simp add: nat_add_distrib [symmetric] flip: power_add)
      finally show "f < 2 ^ 52" by (simp add: f_def)
    qed
    have "double_bits (Dfin m e) = push_bit 52 (of_int (k + e + 1022)) OR of_int f"
      using 3 unfolding double_bits.simps Let_def f_def k_def by (simp add: algebra_simps)
    then have "uint (drop_bit 52 (double_bits (Dfin m e)) AND 0x7FF) = k + e + 1022"
      using exponent_field [OF _ _ f, of "k + e + 1022"] 3(2) k(2) by simp
    then show thesis using that [of "k + e - 1"] 3(2) k(2) lt by simp
  qed
qed

section \<open>The error of the operations\<close>

definition has_value :: "cdouble \<Rightarrow> real \<Rightarrow> bool" where
  "has_value d x \<longleftrightarrow> (\<exists>m e. d = Dfin m e \<and> units m e = x)"

definition near :: "cdouble \<Rightarrow> real \<Rightarrow> bool" where
  "near d x \<longleftrightarrow> (\<exists>y. has_value d y \<and> \<bar>y - x\<bar> \<le> (\<bar>x\<bar> + 1) / 10 ^ 8)"

lemma nearE:
  assumes "near d x" and "\<bar>x\<bar> \<le> B"
  obtains y where "has_value d y" "x - (B + 1) / 10 ^ 8 \<le> y" "y \<le> x + (B + 1) / 10 ^ 8"
proof -
  obtain y where y: "has_value d y" "\<bar>y - x\<bar> \<le> (\<bar>x\<bar> + 1) / 10 ^ 8" using assms(1) by (auto simp: near_def)
  have "(\<bar>x\<bar> + 1) / 10 ^ 8 \<le> (B + 1) / 10 ^ 8" using assms(2) by (intro divide_right_mono) simp_all
  then show thesis using that [OF y(1)] y(2) by linarith
qed

lemma units_uminus: "units (- m) e = - units m e"
  by (simp add: units_def)

lemma units_abs: "units \<bar>m\<bar> e = \<bar>units m e\<bar>"
  by (simp add: units_def abs_mult)

lemma dround_sign: "(n \<noteq> 0 \<Longrightarrow> s = s') \<Longrightarrow> dround s n e = dround s' n e"
  by (cases "n = 0") (simp_all add: dround_def)

lemma dround_value:
  assumes "\<bar>units n e\<bar> \<le> 2 ^ 1000"
  obtains y where "has_value (dround (n < 0) \<bar>n\<bar> e) y" "\<bar>y - units n e\<bar> \<le> (\<bar>units n e\<bar> + 1) / 10 ^ 9"
proof (cases "n = 0")
  case True
  then show thesis using that [of 0] by (simp add: dround_def has_value_def units_def)
next
  case False
  then have "0 < \<bar>n\<bar>" by simp
  from dround_cases [OF this assms [folded units_abs], of "n < 0"] obtain m x where
    m: "dround (n < 0) \<bar>n\<bar> e = Dfin (if n < 0 then - m else m) x"
    "\<bar>units m x - \<bar>units n e\<bar>\<bar> \<le> (\<bar>units n e\<bar> + 1) / 10 ^ 9"
    unfolding units_abs by blast
  have "\<bar>units (if n < 0 then - m else m) x - units n e\<bar> = \<bar>units m x - \<bar>units n e\<bar>\<bar>"
  proof (cases "n < 0")
    case True
    then have abs: "\<bar>units n e\<bar> = - units n e" by (simp add: units_def abs_mult)
    show ?thesis unfolding abs using True by (simp only: if_True units_uminus)
  qed simp
  with m(2) have "\<bar>units (if n < 0 then - m else m) x - units n e\<bar> \<le> (\<bar>units n e\<bar> + 1) / 10 ^ 9" by simp
  then show thesis using that m(1) by (auto simp: has_value_def)
qed

lemma near_dround: "\<bar>units n e\<bar> \<le> 2 ^ 1000 \<Longrightarrow> near (dround (n < 0) \<bar>n\<bar> e) (units n e)"
proof (erule dround_value)
  fix y
  have "(\<bar>units n e\<bar> + 1) / 10 ^ 9 \<le> (\<bar>units n e\<bar> + 1) / 10 ^ 8" by (intro divide_left_mono) simp_all
  moreover assume "has_value (dround (n < 0) \<bar>n\<bar> e) y" "\<bar>y - units n e\<bar> \<le> (\<bar>units n e\<bar> + 1) / 10 ^ 9"
  ultimately show ?thesis unfolding near_def by (meson order_trans)
qed

lemma near_of_int: "\<bar>i\<bar> < 2 ^ 31 \<Longrightarrow> near (d_of_int i) (of_int i)"
proof -
  assume "\<bar>i\<bar> < 2 ^ 31"
  then have "real_of_int \<bar>i\<bar> < of_int (2 ^ 31)" by (simp only: of_int_less_iff)
  then have "\<bar>units i 0\<bar> \<le> 2 ^ 31" by simp
  also have "\<dots> \<le> 2 ^ 1000" by (rule power_increasing) simp_all
  finally show ?thesis using near_dround [of i 0] by (simp add: d_of_int_def)
qed

lemma value_of_int: "\<bar>i\<bar> < 2 ^ 53 \<Longrightarrow> has_value (d_of_int i) (of_int i)"
  using bits_le [of "\<bar>i\<bar>" 53] unfolding has_value_def d_of_int_def dround_def Let_def
  by (intro exI [of _ i] exI [of _ 0]) (auto simp: abs_if)

lemma near_add:
  assumes "has_value a x" "has_value b y" "\<bar>x + y\<bar> \<le> 2 ^ 1000"
  shows "near (dadd a b) (x + y)"
proof -
  obtain m e m' e' where a: "a = Dfin m e" "units m e = x" "b = Dfin m' e'" "units m' e' = y"
    using assms(1,2) by (auto simp: has_value_def)
  define l where "l = min e e'"
  define s where "s = m * 2 ^ nat (e - l) + m' * 2 ^ nat (e' - l)"
  have "units s l = units (m * 2 ^ nat (e - l)) l + units (m' * 2 ^ nat (e' - l)) l"
    by (simp add: s_def units_def algebra_simps)
  also have "\<dots> = x + y" using a by (simp add: l_def units_shift)
  finally have "units s l = x + y" .
  then show ?thesis using near_dround [of s l] assms(3) a by (simp add: Let_def l_def s_def)
qed

lemma value_neg: "has_value a x \<Longrightarrow> has_value (dneg a) (- x)"
  by (auto simp: has_value_def units_uminus)

lemma near_sub: "has_value a x \<Longrightarrow> has_value b y \<Longrightarrow> \<bar>x - y\<bar> \<le> 2 ^ 1000 \<Longrightarrow> near (dsub a b) (x - y)"
  using near_add [OF _ value_neg, of a x b y] by (simp add: dsub_def)

lemma near_mul:
  assumes "has_value a x" "has_value b y" "\<bar>x * y\<bar> \<le> 2 ^ 1000"
  shows "near (dmul a b) (x * y)"
proof -
  obtain m e m' e' where a: "a = Dfin m e" "units m e = x" "b = Dfin m' e'" "units m' e' = y"
    using assms(1,2) by (auto simp: has_value_def)
  have "units (m * m') (e + e') = x * y" unfolding a(2,4) [symmetric] by (simp add: units_def powr_add)
  moreover have "dmul a b = dround (m * m' < 0) \<bar>m * m'\<bar> (e + e')"
    unfolding a dmul.simps by (rule dround_sign) (auto simp: mult_less_0_iff)
  ultimately show ?thesis using near_dround [of "m * m'" "e + e'"] assms(3) by simp
qed

text \<open>The digits of a quotient err by less than one in their last place.\<close>

lemma sticky_div_error:
  assumes "0 < n'" and "sticky_div n n' = (q, x)"
  shows "\<bar>units q x - of_int n / of_int n'\<bar> \<le> 2 powr of_int x"
proof -
  define k where "k = 55 + bits n'"
  define p :: int where "p = 2 ^ nat k"
  have k: "0 \<le> k" using bits_nonneg [of n'] by (simp add: k_def)
  have x: "x = - k - 1" and q: "q = 2 * (n * p div n') + (if n * p mod n' = 0 then 0 else 1)"
    using assms(2) unfolding sticky_div_def Let_def k_def [symmetric] p_def [symmetric] by auto
  have p: "real_of_int p = 2 powr of_int k" using k by (simp add: p_def powr_realpow [symmetric])
  have one: "p * 2 powr of_int x = 1 / 2" unfolding p x by (simp add: powr_diff powr_minus divide_simps)
  have "real_of_int (n * p div n') \<le> of_int (n * p) / of_int n'"
    "of_int (n * p) / of_int n' < real_of_int (n * p div n') + 1"
    using floor_correct [of "of_int (n * p) / of_int n' :: real"] by (simp_all only: floor_divide_of_int_eq of_int_add of_int_1)
  moreover have "real_of_int (n * p div n') = of_int (n * p) / of_int n'" if "n * p mod n' = 0"
    using that assms(1) real_of_int_div [of n' "n * p"] by (simp add: mod_0_imp_dvd)
  ultimately have "\<bar>of_int q - 2 * (of_int (n * p) / of_int n')\<bar> \<le> (1 :: real)"
    unfolding q by auto
  then have "\<bar>of_int q - 2 * (of_int (n * p) / of_int n')\<bar> * 2 powr of_int x \<le> 1 * (2 :: real) powr of_int x"
    by (rule mult_right_mono) simp
  moreover have "units q x - of_int n / of_int n' = (of_int q - 2 * (of_int (n * p) / of_int n')) * 2 powr of_int x"
    using one unfolding units_def left_diff_distrib by (simp add: field_simps)
  ultimately show ?thesis by (simp add: abs_mult)
qed

lemma sticky_div_relative:
  assumes "0 \<le> n" and "0 < n'" and "sticky_div n n' = (q, x)"
  shows "\<bar>units q x - of_int n / of_int n'\<bar> \<le> of_int n / of_int n' * 2 powr -56"
proof (cases "n = 0")
  case True
  then show ?thesis using assms(3) by (simp add: sticky_div_def Let_def units_def)
next
  case False
  have x: "of_int x = (-56 :: real) - of_int (bits n')" using assms(3) by (auto simp: sticky_div_def Let_def)
  have "units n' 0 \<le> 2 powr of_int (bits n' + 0)" by (rule less_imp_le) (rule units_less_bits)
  then have "1 / 2 powr of_int (bits n') \<le> 1 / real_of_int n'" using assms(2) by (simp add: frac_le)
  also have "\<dots> \<le> of_int n / of_int n'" using False assms(1,2) by (intro divide_right_mono) simp_all
  finally have "1 / 2 powr of_int (bits n') * 2 powr -56 \<le> of_int n / of_int n' * (2 :: real) powr -56"
    by (rule mult_right_mono) simp
  moreover have "(2 :: real) powr of_int x = 1 / 2 powr of_int (bits n') * 2 powr -56"
    unfolding x powr_diff by simp
  ultimately show ?thesis using sticky_div_error [OF assms(2,3)] by linarith
qed

text \<open>A quotient is the rounding of a number very close to it.\<close>

lemma ddiv_form:
  assumes "has_value a x" "has_value b y" "y \<noteq> 0"
  obtains q e where "ddiv a b = dround (q < 0) \<bar>q\<bar> e" "\<bar>units q e - x / y\<bar> \<le> \<bar>x / y\<bar> / 10 ^ 9"
    "0 \<le> x \<Longrightarrow> 0 \<le> y \<Longrightarrow> 0 \<le> q"
proof -
  obtain m e m' e' where a: "a = Dfin m e" "units m e = x" "b = Dfin m' e'" "units m' e' = y"
    using assms(1,2) by (auto simp: has_value_def)
  have m': "0 < \<bar>m'\<bar>" using a assms(3) by (auto simp: units_def)
  obtain p l where st: "sticky_div \<bar>m\<bar> \<bar>m'\<bar> = (p, l)" by fastforce
  define s :: int where "s = (if (m < 0) \<noteq> (m' < 0) then -1 else 1)"
  have p: "0 \<le> p" using st m' by (auto simp: sticky_div_def Let_def pos_imp_zdiv_nonneg_iff)
  have zero: "m = 0 \<Longrightarrow> p = 0" using st m' by (auto simp: sticky_div_def Let_def)
  have d: "ddiv a b = dround (s * p < 0) \<bar>s * p\<bar> (e - e' + l)"
  proof -
    have "ddiv a b = dround ((m < 0) \<noteq> (m' < 0)) p (e - e' + l)" using a m' st by simp
    also have "\<dots> = dround (s * p < 0) p (e - e' + l)" using p by (intro dround_sign) (auto simp: s_def)
    finally show ?thesis using p by (simp add: s_def)
  qed
  let ?r = "of_int \<bar>m\<bar> / of_int \<bar>m'\<bar> :: real"
  let ?u = "2 powr of_int (e - e') :: real"
  have xy: "x / y = of_int s * ?r * ?u"
    using m' unfolding a(2,4) [symmetric] by (auto simp: units_def s_def powr_diff abs_if)
  have u: "units (s * p) (e - e' + l) = of_int s * units p l * ?u" by (simp add: units_def powr_add)
  have s1: "\<bar>real_of_int s\<bar> = 1" by (simp add: s_def)
  have "\<bar>units (s * p) (e - e' + l) - x / y\<bar> = \<bar>of_int s * (units p l - ?r) * ?u\<bar>"
    unfolding u xy by (simp add: algebra_simps)
  also have "\<dots> = \<bar>units p l - ?r\<bar> * ?u" by (simp add: abs_mult s1)
  also have "\<dots> \<le> ?r * 2 powr -56 * ?u"
    using sticky_div_relative [OF _ m' st] by (intro mult_right_mono) simp_all
  also have "\<dots> = \<bar>x / y\<bar> * 2 powr -56" unfolding xy by (simp add: abs_mult s1)
  also have "\<dots> \<le> \<bar>x / y\<bar> * (1 / 10 ^ 9)"
    by (intro mult_left_mono) (simp_all add: powr_minus powr_numeral divide_simps)
  finally have "\<bar>units (s * p) (e - e' + l) - x / y\<bar> \<le> \<bar>x / y\<bar> / 10 ^ 9" by simp
  moreover have "0 \<le> s * p" if "0 \<le> x" "0 \<le> y"
    using that p a by (auto simp: s_def)
  ultimately show thesis using that d by blast
qed

lemma near_div:
  assumes "has_value a x" "has_value b y" "y \<noteq> 0" "\<bar>x / y\<bar> \<le> 2 ^ 999"
  shows "near (ddiv a b) (x / y)"
proof -
  obtain q e where q: "ddiv a b = dround (q < 0) \<bar>q\<bar> e" "\<bar>units q e - x / y\<bar> \<le> \<bar>x / y\<bar> / 10 ^ 9"
    using ddiv_form [OF assms(1-3)] by blast
  define r where "r = x / y"
  have "\<bar>r\<bar> / 10 ^ 9 \<le> \<bar>r\<bar>" by simp
  then have r: "\<bar>units q e\<bar> \<le> 2 * \<bar>r\<bar>" using q(2) unfolding r_def [symmetric] by linarith
  have "\<bar>units q e\<bar> \<le> 2 ^ 1000" using r assms(4) by (simp add: r_def)
  then obtain w where w: "has_value (ddiv a b) w" "\<bar>w - units q e\<bar> \<le> (\<bar>units q e\<bar> + 1) / 10 ^ 9"
    unfolding q(1) by (rule dround_value)
  have "(\<bar>units q e\<bar> + 1) / 10 ^ 9 \<le> (2 * \<bar>r\<bar> + 1) / 10 ^ 9" using r by (intro divide_right_mono) simp_all
  then have "\<bar>w - r\<bar> \<le> (2 * \<bar>r\<bar> + 1) / 10 ^ 9 + \<bar>r\<bar> / 10 ^ 9"
    using w(2) q(2) unfolding r_def [symmetric] by linarith
  also have "\<dots> \<le> (\<bar>r\<bar> + 1) / 10 ^ 8" by (simp add: field_simps)
  finally show ?thesis using w(1) by (auto simp: near_def r_def)
qed

text \<open>Products and quotients that are not small: a bound from below, unless they overflow.\<close>

definition at_least :: "cdouble \<Rightarrow> real \<Rightarrow> bool" where
  "at_least d a \<longleftrightarrow> d = Dinf False \<or> (\<exists>y. has_value d y \<and> a \<le> y)"

lemma at_least_mono: "at_least d a \<Longrightarrow> b \<le> a \<Longrightarrow> at_least d b"
  by (auto simp: at_least_def intro: order_trans)

lemma dround_lower:
  assumes "0 < n" "2 powr -1060 \<le> units n e"
  shows "at_least (dround False n e) (units n e / 2)"
proof -
  obtain m x where
    m: "dround False n e = (if 1024 < bits m + x then Dinf False else Dfin (if False then - m else m) x)"
    and err: "\<bar>units m x - units n e\<bar> \<le> max (units n e * 2 powr -53) (2 powr -1075)"
    using dround_form [OF assms(1), of False e] by blast
  have u: "0 \<le> units n e" using assms(1) by simp
  have "(2 :: real) powr -53 \<le> 2 powr -1" "(2 :: real) powr -1075 \<le> 2 powr (-1 + -1060)" by (rule powr_mono; simp)+
  then have "(2 :: real) powr -53 \<le> 1 / 2" "(2 :: real) powr -1075 \<le> 1 / 2 * 2 powr -1060"
    unfolding powr_add by (simp_all add: powr_minus)
  then have "max (units n e * 2 powr -53) (2 powr -1075) \<le> units n e / 2"
    using mult_left_mono [OF _ u, of "2 powr -53" "1 / 2"] assms(2) by simp
  with err have "units n e / 2 \<le> units m x" by linarith
  then show ?thesis using m by (auto simp: at_least_def has_value_def)
qed

lemma dmul_lower:
  assumes "has_value a x" "has_value b y" "0 < x" "0 < y" "2 powr -1060 \<le> x * y"
  shows "at_least (dmul a b) (x * y / 2)"
proof -
  obtain m e m' e' where a: "a = Dfin m e" "units m e = x" "b = Dfin m' e'" "units m' e' = y"
    using assms(1,2) by (auto simp: has_value_def)
  have m: "0 < m" "0 < m'" using assms(3,4) unfolding a(2,4) [symmetric] by (simp_all add: units_def zero_less_mult_iff)
  have xy: "units (m * m') (e + e') = x * y" unfolding a(2,4) [symmetric] by (simp add: units_def powr_add)
  have "dmul a b = dround False (m * m') (e + e')" using m by (simp add: a)
  then show ?thesis using dround_lower [of "m * m'" "e + e'"] m assms(5) xy by simp
qed

lemma ddiv_lower:
  assumes "has_value a x" "has_value b y" "0 < x" "0 < y" "2 powr -1059 \<le> x / y"
  shows "at_least (ddiv a b) (x / y / 4)"
proof -
  define w where "w = x / y"
  have w: "0 < w" "2 powr -1059 \<le> w" using assms(3-5) by (simp_all add: w_def)
  obtain q e where q: "ddiv a b = dround (q < 0) \<bar>q\<bar> e" "\<bar>units q e - w\<bar> \<le> \<bar>w\<bar> / 10 ^ 9" "0 \<le> q"
    using ddiv_form [OF assms(1,2), folded w_def] assms(3,4) by (metis less_imp_le less_irrefl)
  have "\<bar>w\<bar> / 10 ^ 9 \<le> w / 2" using w(1) by simp
  from order_trans [OF q(2) this] have lower: "w / 2 \<le> units q e" unfolding abs_le_iff by linarith
  then have "0 < units q e" using w(1) by linarith
  then have "0 < q" using q(3) by (cases "q = 0") (simp_all add: units_def)
  moreover have "2 powr -1060 = (2 :: real) powr -1059 / 2" using powr_add [of "2 :: real" "-1059" "-1"] by (simp add: powr_minus)
  then have "2 powr -1060 \<le> units q e" using lower w(2) by linarith
  ultimately have "at_least (ddiv a b) (units q e / 2)" using dround_lower [of q e] q(1) by simp
  then show ?thesis by (rule at_least_mono) (use lower in \<open>simp add: w_def\<close>)
qed

section \<open>Constants and whole parts\<close>

lemma near_decimal:
  assumes "\<bar>m\<bar> < 10 ^ 16" "\<bar>of_int m / 10 ^ k\<bar> \<le> (4 :: real)"
  shows "near (decimal m k) (of_int m / 10 ^ k)"
proof -
  have "\<bar>of_int m / 10 ^ k\<bar> \<le> (2 ^ 999 :: real)"
    by (rule order_trans [OF assms(2)]) (rule order_trans [of _ "2 ^ 2"], simp, rule power_increasing, simp_all)
  moreover have "has_value (Dfin m 0) (of_int m)" "has_value (Dfin (10 ^ k) 0) (10 ^ k)"
    by (auto simp: has_value_def)
  ultimately show ?thesis unfolding decimal_def by (intro near_div) simp_all
qed

text \<open>The whole part of a number of any sign.\<close>

lemma trunc_units_near:
  shows "\<bar>of_int (trunc_units m e) - units m e\<bar> < 1"
    "0 \<le> m \<Longrightarrow> of_int (trunc_units m e) \<le> units m e"
    "m \<le> 0 \<Longrightarrow> units m e \<le> of_int (trunc_units m e)"
proof -
  have neg: "trunc_units (- m) e = - trunc_units m e" for m by (simp add: trunc_units_def)
  show 2: "0 \<le> m \<Longrightarrow> of_int (trunc_units m e) \<le> units m e" by (rule trunc_units_bounds)
  show 3: "m \<le> 0 \<Longrightarrow> units m e \<le> of_int (trunc_units m e)"
    using trunc_units_bounds(2) [of "- m" e] by (simp add: neg units_uminus)
  show "\<bar>of_int (trunc_units m e) - units m e\<bar> < 1"
  proof (cases "0 \<le> m")
    case True
    then show ?thesis using trunc_units_bounds [of m e] by linarith
  next
    case False
    then show ?thesis using trunc_units_bounds [of "- m" e] by (simp add: neg units_uminus)
  qed
qed

lemma d_to_int_value:
  assumes "has_value d x" "\<bar>x\<bar> \<le> 10 ^ 9"
  obtains t where "d_to_int d = Ret t" "0 \<le> x \<and> x - 1 < of_int t \<and> of_int t \<le> x \<or> x \<le> 0 \<and> x \<le> of_int t \<and> of_int t < x + 1"
proof -
  obtain m e where d: "d = Dfin m e" "units m e = x" using assms(1) by (auto simp: has_value_def)
  let ?t = "trunc_units m e"
  have t: "\<bar>of_int ?t - x\<bar> < 1" "0 \<le> x \<Longrightarrow> of_int ?t \<le> x" "x \<le> 0 \<Longrightarrow> x \<le> of_int ?t"
    using trunc_units_near [of m e] units_nonneg [of m e] units_nonneg [of "- m" e] unfolding d(2) units_uminus by simp_all
  have "real_of_int ?t \<le> of_int (10 ^ 9)" "real_of_int (- (10 ^ 9)) \<le> of_int ?t"
    using t assms(2) by (simp; linarith)+
  then have "?t \<le> 10 ^ 9" "- (10 ^ 9) \<le> ?t" by (simp_all only: of_int_le_iff)
  then have "d_to_int d = Ret ?t" by (simp add: d_to_int_def d_to_range_def Let_def d)
  moreover have "0 \<le> x \<and> x - 1 < of_int ?t \<and> of_int ?t \<le> x \<or> x \<le> 0 \<and> x \<le> of_int ?t \<and> of_int ?t < x + 1"
    using t by (cases "0 \<le> x") (simp_all add: abs_less_iff)
  ultimately show thesis using that by blast
qed

lemma near_mul_const:
  assumes "\<bar>i\<bar> \<le> 1100" "near c g" "\<bar>g\<bar> \<le> 4"
  obtains p where "has_value (dmul (d_of_int i) c) p"
    "of_int i * g - 1 / 10 ^ 3 \<le> p" "p \<le> of_int i * g + 1 / 10 ^ 3"
proof -
  obtain y where y: "has_value c y" "g - 5 / 10 ^ 8 \<le> y" "y \<le> g + 5 / 10 ^ 8"
    using nearE [OF assms(2,3)] by auto
  have i: "\<bar>real_of_int i\<bar> \<le> 1100" using assms(1) by linarith
  have "\<bar>of_int i * (y - g)\<bar> \<le> 1100 * (5 / 10 ^ 8)"
    unfolding abs_mult using i y(2,3) abs_le_iff [of "y - g" "5 / 10 ^ 8"] by (intro mult_mono) simp_all
  then have err: "\<bar>of_int i * y - of_int i * g\<bar> \<le> 1 / 10 ^ 4" by (simp add: algebra_simps)
  have "\<bar>of_int i * g\<bar> \<le> 1100 * 4" unfolding abs_mult using i assms(3) by (intro mult_mono) simp_all
  then have B: "\<bar>of_int i * y\<bar> \<le> 5000" using err by (simp only: abs_le_iff) (simp; linarith)
  have "has_value (d_of_int i) (of_int i)" using assms(1) by (intro value_of_int) simp
  moreover have "\<bar>of_int i * y\<bar> \<le> 2 ^ 1000"
    by (rule order_trans [OF B]) (rule order_trans [of _ "2 ^ 13"], simp, rule power_increasing, simp_all)
  ultimately have "near (dmul (d_of_int i) c) (of_int i * y)" using y(1) by (intro near_mul)
  from nearE [OF this B] obtain p where
    "has_value (dmul (d_of_int i) c) p" "of_int i * y - (5000 + 1) / 10 ^ 8 \<le> p" "p \<le> of_int i * y + (5000 + 1) / 10 ^ 8"
    by blast
  moreover have "of_int i * g - 1 / 10 ^ 4 \<le> of_int i * y" "of_int i * y \<le> of_int i * g + 1 / 10 ^ 4"
    using err [unfolded abs_le_iff] by linarith+
  ultimately show thesis using that [of p] by simp
qed

text \<open>Sums and differences of values of a few thousand.\<close>

lemma small_near:
  assumes "near d x" "\<bar>x\<bar> \<le> 5000" "lo \<le> x - 1 / 10 ^ 4" "x + 1 / 10 ^ 4 \<le> hi"
  shows "\<exists>y. has_value d y \<and> lo \<le> y \<and> y \<le> hi"
proof -
  obtain y where "has_value d y" "x - (5000 + 1) / 10 ^ 8 \<le> y" "y \<le> x + (5000 + 1) / 10 ^ 8"
    using nearE [OF assms(1,2)] by blast
  with assms(3,4) show ?thesis by (intro exI [of _ y]) simp
qed

lemma small_power: "(5000 :: real) \<le> 2 ^ 999" "(5000 :: real) \<le> 2 ^ 1000"
  by simp_all

lemma two_sided: "-5000 \<le> x \<Longrightarrow> x \<le> 5000 \<Longrightarrow> \<bar>x\<bar> \<le> (5000 :: real)"
  by linarith

lemmas small_bounds = two_sided order_trans [OF two_sided small_power(1)] order_trans [OF two_sided small_power(2)]

lemma small_add:
  assumes "has_value a x" "has_value b y" "-5000 \<le> x + y" "x + y \<le> 5000" "lo \<le> x + y - 1 / 10 ^ 4" "x + y + 1 / 10 ^ 4 \<le> hi"
  shows "\<exists>r. has_value (dadd a b) r \<and> lo \<le> r \<and> r \<le> hi"
  by (rule small_near [OF near_add]) (rule assms small_bounds)+

lemma small_sub:
  assumes "has_value a x" "has_value b y" "-5000 \<le> x - y" "x - y \<le> 5000" "lo \<le> x - y - 1 / 10 ^ 4" "x - y + 1 / 10 ^ 4 \<le> hi"
  shows "\<exists>r. has_value (dsub a b) r \<and> lo \<le> r \<and> r \<le> hi"
  by (rule small_near [OF near_sub]) (rule assms small_bounds)+

lemma small_mul:
  assumes "has_value a x" "has_value b y" "-5000 \<le> x * y" "x * y \<le> 5000" "lo \<le> x * y - 1 / 10 ^ 4" "x * y + 1 / 10 ^ 4 \<le> hi"
  shows "\<exists>r. has_value (dmul a b) r \<and> lo \<le> r \<and> r \<le> hi"
  by (rule small_near [OF near_mul]) (rule assms small_bounds)+

lemma small_div:
  assumes "has_value a x" "has_value b y" "y \<noteq> 0" "-5000 \<le> x / y" "x / y \<le> 5000" "lo \<le> x / y - 1 / 10 ^ 4" "x / y + 1 / 10 ^ 4 \<le> hi"
  shows "\<exists>r. has_value (ddiv a b) r \<and> lo \<le> r \<and> r \<le> hi"
  by (rule small_near [OF near_div]) (rule assms small_bounds)+

end
