(* ===== verification/Float_Returns.thy ===== *)
theory Float_Returns imports Float_Error begin

text \<open>
  The two conversions of floating-point numbers call each other: \<^verbatim>\<open>_ftoa\<close> hands large numbers to \<^verbatim>\<open>_etoa\<close>,
  which scales the number by its approximation of a power of ten and calls \<^verbatim>\<open>_ftoa\<close>. The theory
  bounds that approximation, from which the nesting ends and every double is printed.
\<close>

section \<open>The decimal exponent\<close>

text \<open>The exponent of ten that \<^verbatim>\<open>_etoa\<close> guesses from the exponent of two.\<close>

definition exp10_guess :: "int \<Rightarrow> cdouble \<Rightarrow> cdouble" where
  "exp10_guess E F = dadd (dadd (decimal 1760912590558 13) (dmul (d_of_int E) (decimal 301029995663981 15)))
     (dmul (dsub F (decimal 15 1)) (decimal 289529654602168 15))"

lemma near_constants:
  "near (decimal 1760912590558 13) 0.1760912590558" "near (decimal 301029995663981 15) 0.301029995663981"
  "near (decimal 15 1) 1.5" "near (decimal 289529654602168 15) 0.289529654602168"
  "near (decimal 3321928094887362 15) 3.321928094887362" "near (decimal 5 1) 0.5"
  "near (decimal 2302585092994046 15) 2.302585092994046" "near (decimal 6931471805599453 16) 0.6931471805599453"
  using near_decimal [of 1760912590558 13] near_decimal [of 301029995663981 15] near_decimal [of 15 1]
    near_decimal [of 289529654602168 15] near_decimal [of 3321928094887362 15] near_decimal [of 5 1]
    near_decimal [of 2302585092994046 15] near_decimal [of 6931471805599453 16]
  by simp_all

lemma exp10_guess_value:
  assumes "-1023 \<le> E" "E \<le> 1023" "has_value F f" "1 \<le> f" "f < 2"
  obtains a where "has_value (exp10_guess E F) a"
    "0.301029995663981 * of_int E + 0.02 \<le> a" "a \<le> 0.301029995663981 * of_int E + 0.33"
proof -
  obtain c1 where c1: "has_value (decimal 1760912590558 13) c1" "0.1759 \<le> c1" "c1 \<le> 0.1762"
    using small_near [OF near_constants(1), of "0.1759" "0.1762"] by auto
  obtain p where p: "has_value (dmul (d_of_int E) (decimal 301029995663981 15)) p"
    "of_int E * 0.301029995663981 - 1 / 10 ^ 3 \<le> p" "p \<le> of_int E * 0.301029995663981 + 1 / 10 ^ 3"
    using assms(1,2) by (rule_tac near_mul_const [OF _ near_constants(2), of E]) simp_all
  obtain c3 where c3: "has_value (decimal 15 1) c3" "1.4999 \<le> c3" "c3 \<le> 1.5001"
    using small_near [OF near_constants(3), of "1.4999" "1.5001"] by auto
  obtain c4 where c4: "has_value (decimal 289529654602168 15) c4" "0.2894 \<le> c4" "c4 \<le> 0.2897"
    using small_near [OF near_constants(4), of "0.2894" "0.2897"] by auto
  have E: "-1023 \<le> real_of_int E" "real_of_int E \<le> 1023" using assms(1,2) by simp_all
  obtain s where s: "has_value (dadd (decimal 1760912590558 13) (dmul (d_of_int E) (decimal 301029995663981 15))) s"
    "c1 + p - 1 / 10 ^ 4 \<le> s" "s \<le> c1 + p + 1 / 10 ^ 4"
    using small_add [OF c1(1) p(1), of "c1 + p - 1 / 10 ^ 4" "c1 + p + 1 / 10 ^ 4"] c1(2,3) p(2,3) E by auto
  obtain d where d: "has_value (dsub F (decimal 15 1)) d" "-0.501 \<le> d" "d \<le> 0.501"
    using small_sub [OF assms(3) c3(1), of "-0.501" "0.501"] c3(2,3) assms(4,5) by auto
  have "\<bar>d * c4\<bar> \<le> 0.501 * 0.2897" unfolding abs_mult using d c4 by (intro mult_mono) simp_all
  then have dc: "-0.1452 \<le> d * c4" "d * c4 \<le> 0.1452" by simp_all
  obtain q where q: "has_value (dmul (dsub F (decimal 15 1)) (decimal 289529654602168 15)) q" "-0.146 \<le> q" "q \<le> 0.146"
    using small_mul [OF d(1) c4(1), of "-0.146" "0.146"] dc by auto
  obtain a where "has_value (exp10_guess E F) a" "s + q - 1 / 10 ^ 4 \<le> a" "a \<le> s + q + 1 / 10 ^ 4"
    unfolding exp10_guess_def using small_add [OF s(1) q(1), of "s + q - 1 / 10 ^ 4" "s + q + 1 / 10 ^ 4"] s(2,3) q(2,3) c1(2,3) p(2,3) E by auto
  then show thesis using that [of a] s(2,3) q(2,3) c1(2,3) p(2,3) by simp
qed

text \<open>
  The exponents of ten and of two that \<^verbatim>\<open>_etoa\<close> works with: in range, and not far below the
  number's own exponent.
\<close>

lemma etoa_exponents:
  assumes "-1023 \<le> E" "E \<le> 1023" "has_value F f" "1 \<le> f" "f < 2"
  obtains t X where "d_to_int (exp10_guess E F) = Ret t" "-307 \<le> t" "t \<le> 308" "29 \<le> E \<Longrightarrow> 2 \<le> t" "-14 \<le> E \<Longrightarrow> -4 \<le> t"
    "d_to_int (dadd (dmul (d_of_int t) (decimal 3321928094887362 15)) (decimal 5 1)) = Ret X"
    "-1023 < X" "X < 1024" "E - 4 \<le> X"
    "-1.06 \<le> 2.302585092994046 * of_int t - 0.6931471805599453 * real_of_int X"
    "2.302585092994046 * of_int t - 0.6931471805599453 * real_of_int X \<le> 0.36"
proof -
  have E: "-1023 \<le> real_of_int E" "real_of_int E \<le> 1023" using assms(1,2) by simp_all
  obtain a where a: "has_value (exp10_guess E F) a"
    "0.301029995663981 * of_int E + 0.02 \<le> a" "a \<le> 0.301029995663981 * of_int E + 0.33"
    using exp10_guess_value [OF assms] by blast
  have "\<bar>a\<bar> \<le> 10 ^ 9" using a(2,3) E by (simp add: abs_le_iff)
  then obtain t where t: "d_to_int (exp10_guess E F) = Ret t" 
    "0 \<le> a \<and> a - 1 < of_int t \<and> of_int t \<le> a \<or> a \<le> 0 \<and> a \<le> of_int t \<and> of_int t < a + 1"
    using d_to_int_value [OF a(1)] by blast
  have "-308 < real_of_int t" "real_of_int t < 309" "29 \<le> E \<Longrightarrow> 1 < real_of_int t" "-14 \<le> E \<Longrightarrow> -5 < real_of_int t"
    using t(2) a(2,3) E by auto
  then have tr: "-307 \<le> t" "t \<le> 308" "29 \<le> E \<Longrightarrow> 2 \<le> t" "-14 \<le> E \<Longrightarrow> -4 \<le> t" by linarith+
  then have rt: "-307 \<le> real_of_int t" "real_of_int t \<le> 308" by simp_all
  have "\<bar>t\<bar> \<le> 1100" using tr by simp
  then obtain p where p: "has_value (dmul (d_of_int t) (decimal 3321928094887362 15)) p"
    "of_int t * 3.321928094887362 - 1 / 10 ^ 3 \<le> p" "p \<le> of_int t * 3.321928094887362 + 1 / 10 ^ 3"
    by (rule near_mul_const [OF _ near_constants(5)]) simp_all
  obtain h where h: "has_value (decimal 5 1) h" "0.4999 \<le> h" "h \<le> 0.5001"
    using small_near [OF near_constants(6), of "0.4999" "0.5001"] by auto
  obtain y where y: "has_value (dadd (dmul (d_of_int t) (decimal 3321928094887362 15)) (decimal 5 1)) y"
    "of_int t * 3.321928094887362 + 0.498 \<le> y" "y \<le> of_int t * 3.321928094887362 + 0.502"
    using small_add [OF p(1) h(1), of "of_int t * 3.321928094887362 + 0.498" "of_int t * 3.321928094887362 + 0.502"]
      p(2,3) h(2,3) rt by auto
  have "\<bar>y\<bar> \<le> 10 ^ 9" using y(2,3) rt by (simp add: abs_le_iff)
  then obtain X where X: "d_to_int (dadd (dmul (d_of_int t) (decimal 3321928094887362 15)) (decimal 5 1)) = Ret X"

    "0 \<le> y \<and> y - 1 < of_int X \<and> of_int X \<le> y \<or> y \<le> 0 \<and> y \<le> of_int X \<and> of_int X < y + 1"
    using d_to_int_value [OF y(1)] by blast
  have "-1023 < real_of_int X" "real_of_int X < 1024" "real_of_int E - 4 < real_of_int X"
    using X(2) y(2,3) rt t(2) a(2) by auto
  then have "-1023 < X" "X < 1024" "E - 4 \<le> X" by linarith+
  moreover have "-1.06 \<le> 2.302585092994046 * of_int t - 0.6931471805599453 * real_of_int X"
    "2.302585092994046 * of_int t - 0.6931471805599453 * real_of_int X \<le> 0.36"
    using X(2) y(2,3) rt by auto
  ultimately show thesis using that t(1) tr X(1) by blast
qed

section \<open>The power of ten\<close>

definition exp_series :: "cdouble \<Rightarrow> cdouble" where
  "exp_series z =
     (let z2 = dmul z z in
      dadd (d_of_int 1) (ddiv (dmul (d_of_int 2) z)
        (dadd (dsub (d_of_int 2) z) (ddiv z2 (dadd (d_of_int 6) (ddiv z2 (dadd (d_of_int 10) (ddiv z2 (d_of_int 14)))))))))"

lemma exp_series_value:
  assumes "has_value z v" "-1.07 \<le> v" "v \<le> 0.37"
  obtains g where "has_value (exp_series z) g" "0.25 \<le> g" "g \<le> 4"
proof -
  note int = value_of_int [of 1] value_of_int [of 2] value_of_int [of 6] value_of_int [of 10] value_of_int [of 14]
  have "\<bar>v\<bar> \<le> 1.07" using assms(2,3) by (simp add: abs_le_iff)
  then have "v * v \<le> 1.07 * 1.07" using mult_mono [of "\<bar>v\<bar>" "1.07" "\<bar>v\<bar>" "1.07"] by simp
  then obtain q where q: "has_value (dmul z z) q" "-0.001 \<le> q" "q \<le> 1.15"
    using small_mul [OF assms(1,1), of "-0.001" "1.15"] zero_le_square [of v] by auto
  have frac: "\<exists>r. has_value (ddiv (dmul z z) d) r \<and> -0.001 \<le> r \<and> r \<le> 0.25" if "has_value d y" "5 \<le> y" for d y
  proof -
    have "-0.001 / y \<le> q / y" "q / y \<le> 1.15 / y" using q(2,3) that(2) by (intro divide_right_mono; simp)+
    moreover have "1.15 / y \<le> 1.15 / 5" "0.001 / y \<le> 0.001 / 5" using that(2) by (intro divide_left_mono; simp)+
    ultimately show ?thesis using that(2) by (intro small_div [OF q(1) that(1)]) auto
  qed
  obtain q1 where q1: "has_value (ddiv (dmul z z) (d_of_int 14)) q1" "-0.001 \<le> q1" "q1 \<le> 0.25"
    using frac [of "d_of_int 14" 14] int(5) by auto
  obtain s1 where s1: "has_value (dadd (d_of_int 10) (ddiv (dmul z z) (d_of_int 14))) s1" "5 \<le> s1"
    using small_add [OF _ q1(1), of "d_of_int 10" 10 5 20] int(4) q1(2,3) by auto
  obtain q2 where q2: "has_value (ddiv (dmul z z) (dadd (d_of_int 10) (ddiv (dmul z z) (d_of_int 14)))) q2"
    "-0.001 \<le> q2" "q2 \<le> 0.25" using frac [OF s1] by auto
  obtain s2 where s2: "has_value (dadd (d_of_int 6) (ddiv (dmul z z) (dadd (d_of_int 10) (ddiv (dmul z z) (d_of_int 14))))) s2"
    "5 \<le> s2" using small_add [OF _ q2(1), of "d_of_int 6" 6 5 20] int(3) q2(2,3) by auto
  obtain q3 where q3: "has_value (ddiv (dmul z z) (dadd (d_of_int 6) (ddiv (dmul z z) (dadd (d_of_int 10)
      (ddiv (dmul z z) (d_of_int 14)))))) q3" "-0.001 \<le> q3" "q3 \<le> 0.25" using frac [OF s2] by auto
  obtain d where d: "has_value (dsub (d_of_int 2) z) d" "2 - v - 0.001 \<le> d" "d \<le> 4"
    using small_sub [OF _ assms(1), of "d_of_int 2" 2 "2 - v - 0.001" 4] int(2) assms(2,3) by auto
  obtain D where D: "has_value (dadd (dsub (d_of_int 2) z) (ddiv (dmul z z) (dadd (d_of_int 6) (ddiv (dmul z z)
      (dadd (d_of_int 10) (ddiv (dmul z z) (d_of_int 14))))))) D" "2 - v - 0.003 \<le> D" "D \<le> 5"
    using small_add [OF d(1) q3(1), of "2 - v - 0.003" 5] d(2,3) q3(2,3) assms(2,3) by auto
  obtain N where N: "has_value (dmul (d_of_int 2) z) N" "2 * v - 0.001 \<le> N" "N \<le> 2 * v + 0.001"
    using small_mul [OF _ assms(1), of "d_of_int 2" 2 "2 * v - 0.001" "2 * v + 0.001"] int(2) assms(2,3) by auto
  have pos: "0 < D" using D(2) assms(3) by simp
  have "-0.72 * D \<le> N" "N \<le> D" using N(2,3) D(2) assms(2,3) by simp_all
  define R where "R = N / D"
  have "-0.72 \<le> R" "R \<le> 1" using \<open>-0.72 * D \<le> N\<close> \<open>N \<le> D\<close> pos unfolding R_def by (simp_all add: field_simps)
  then obtain Q where Q: "has_value (ddiv (dmul (d_of_int 2) z) (dadd (dsub (d_of_int 2) z) (ddiv (dmul z z) (dadd (d_of_int 6)
      (ddiv (dmul z z) (dadd (d_of_int 10) (ddiv (dmul z z) (d_of_int 14)))))))) Q" "-0.73 \<le> Q" "Q \<le> 2"
    using small_div [OF N(1) D(1), folded R_def, of "-0.73" 2] pos by auto
  show thesis
    using small_add [OF _ Q(1), of "d_of_int 1" 1 "0.25" 4] int(1) Q(2,3) that unfolding exp_series_def Let_def by auto
qed

definition pow10_guess :: "int \<Rightarrow> int \<Rightarrow> cdouble" where
  "pow10_guess t X =
     dmul (bits_double (push_bit 52 (of_int (X + 1023))))
       (exp_series (dsub (dmul (d_of_int t) (decimal 2302585092994046 15)) (dmul (d_of_int X) (decimal 6931471805599453 16))))"

lemma etoa_scale_eq:
  "etoa_scale val =
     (let U = double_bits val;
          E = uint (drop_bit 52 U AND 0x07FF) - 1023;
          F = bits_double ((U AND (push_bit 52 1 - 1)) OR push_bit 52 1023)
      in bind_res (d_to_int (exp10_guess E F)) (\<lambda>t.
         bind_res (d_to_int (dadd (dmul (d_of_int t) (decimal 3321928094887362 15)) (decimal 5 1))) (\<lambda>X.
         Ret (if dlt val (pow10_guess t X) then (t - 1, ddiv (pow10_guess t X) (d_of_int 10)) else (t, pow10_guess t X)))))"
  unfolding etoa_scale_def exp10_guess_def pow10_guess_def exp_series_def Let_def by (rule refl)

lemma pow10_guess_lower:
  assumes "-1023 < X" "X < 1024" "-307 \<le> t" "t \<le> 308"
    "-1.06 \<le> 2.302585092994046 * of_int t - 0.6931471805599453 * real_of_int X"
    "2.302585092994046 * of_int t - 0.6931471805599453 * real_of_int X \<le> 0.36"
  shows "at_least (pow10_guess t X) (2 powr of_int X / 8)"
proof -
  have "\<bar>t\<bar> \<le> 1100" "\<bar>X\<bar> \<le> 1100" using assms(1-4) by auto
  obtain p where p: "has_value (dmul (d_of_int t) (decimal 2302585092994046 15)) p"
    "of_int t * 2.302585092994046 - 1 / 10 ^ 3 \<le> p" "p \<le> of_int t * 2.302585092994046 + 1 / 10 ^ 3"
    using \<open>\<bar>t\<bar> \<le> 1100\<close> by (rule near_mul_const [OF _ near_constants(7)]) simp_all
  obtain q where q: "has_value (dmul (d_of_int X) (decimal 6931471805599453 16)) q"
    "of_int X * 0.6931471805599453 - 1 / 10 ^ 3 \<le> q" "q \<le> of_int X * 0.6931471805599453 + 1 / 10 ^ 3"
    using \<open>\<bar>X\<bar> \<le> 1100\<close> by (rule near_mul_const [OF _ near_constants(8)]) simp_all
  obtain z where z: "has_value (dsub (dmul (d_of_int t) (decimal 2302585092994046 15)) (dmul (d_of_int X) (decimal 6931471805599453 16))) z"
    "-1.07 \<le> z" "z \<le> 0.37"
    using small_sub [OF p(1) q(1), of "-1.07" "0.37"] p(2,3) q(2,3) assms(5,6) by auto
  obtain g where g: "has_value (exp_series (dsub (dmul (d_of_int t) (decimal 2302585092994046 15))
      (dmul (d_of_int X) (decimal 6931471805599453 16)))) g" "0.25 \<le> g"
    using exp_series_value [OF z] by blast
  have P: "has_value (bits_double (push_bit 52 (of_int (X + 1023)))) (2 powr of_int X)"
    unfolding bits_double_power [OF assms(1,2)] has_value_def using units_pow [of 52 "X - 52"] by auto
  have le: "2 powr of_int X * (1 / 4) \<le> 2 powr of_int X * g" using g(2) by (intro mult_left_mono) simp_all
  have "(2 :: real) powr -1060 \<le> 2 powr (-1023 + -2)" by (rule powr_mono) simp_all
  also have "\<dots> = 2 powr -1023 * (1 / 4)" unfolding powr_add by (simp add: powr_minus)
  also have "\<dots> \<le> 2 powr of_int X * (1 / 4)" using assms(1) by (intro mult_right_mono powr_mono) simp_all
  also note le
  finally have "2 powr -1060 \<le> 2 powr of_int X * g" .
  from dmul_lower [OF P g(1) _ _ this] g(2) have "at_least (pow10_guess t X) (2 powr of_int X * g / 2)"
    unfolding pow10_guess_def by simp
  then show ?thesis by (rule at_least_mono) (use le in \<open>simp add: mult.assoc\<close>)
qed

lemma one_two_value:
  obtains f where "has_value (bits_double ((U AND (push_bit 52 1 - 1)) OR push_bit 52 1023)) f" "1 \<le> f" "f < 2"
proof -
  define n where "n = uint (take_bit 52 U)"
  have "0 \<le> n" "n < 2 ^ 52" using fields_bounds(1,2) [of U, unfolded exp_mask] by (simp_all add: n_def)
  then have "units (2 ^ 52) (-52) \<le> units (n + 2 ^ 52) (-52)" "units (n + 2 ^ 52) (-52) < units (2 ^ 53) (-52)"
    unfolding units_mono units_less by simp_all
  then have "1 \<le> units (n + 2 ^ 52) (-52)" "units (n + 2 ^ 52) (-52) < 2"
    using units_pow [of 52 "-52"] units_pow [of 53 "-52"] by simp_all
  then show thesis using that [of "units (n + 2 ^ 52) (-52)"] unfolding bits_double_one_two has_value_def n_def by blast
qed

text \<open>
  Every finite double has a decimal exponent in range and a scale that is not much smaller than the
  number; numbers above \<open>10 ^ 9\<close> do not get the exponent zero.
\<close>

lemma tenth_at_least:
  assumes P: "at_least P (2 powr of_int X / 8)" and X: "-1023 < X"
  shows "at_least (ddiv P (d_of_int 10)) (2 powr of_int X / 320)"
  using P [unfolded at_least_def]
proof (elim disjE exE conjE)
  have pos: "0 < (2 :: real) powr of_int X" by simp
  fix g assume g: "has_value P g" "2 powr of_int X / 8 \<le> g"
  have gpos: "0 < g" using g(2) pos by linarith
  have "(2 :: real) powr -1059 \<le> 2 powr (-1023 + -7)" by (rule powr_mono) simp_all
  also have "\<dots> = 2 powr -1023 / 8 / 16" unfolding powr_add by (simp add: powr_minus)
  also have "\<dots> \<le> 2 powr of_int X / 8 / 16" using X by (intro divide_right_mono powr_mono) simp_all
  also have "\<dots> \<le> g / 10" using g(2) pos by linarith
  finally have "at_least (ddiv P (d_of_int 10)) (g / 10 / 4)"
    using ddiv_lower [OF g(1) value_of_int [of 10]] gpos by simp
  then show ?thesis by (rule at_least_mono) (use g(2) in linarith)
next
  assume "P = Dinf False"
  then show ?thesis by (simp add: d_of_int_small at_least_def)
qed

lemma at_least_scales:
  assumes "at_least F (2 powr of_int X / 320)" and v: "v \<le> 32 * 2 powr of_int X"
  shows "F = Dinf False \<or> (\<exists>f. has_value F f \<and> 0 < f \<and> v \<le> 10 ^ 5 * f)"
  using assms(1) unfolding at_least_def
proof (elim disjE exE conjE)
  fix f assume "has_value F f" "2 powr of_int X / 320 \<le> f"
  moreover have "0 < (2 :: real) powr of_int X" by simp
  then have "0 < f" "v \<le> 100000 * f" using calculation(2) v by linarith+
  ultimately show ?thesis by auto
qed simp

lemma exponent_above: "2 powr of_int n \<le> v \<Longrightarrow> v < 2 powr of_int (E + 1) \<Longrightarrow> n \<le> E" for v :: real
  using powr_less_cancel [of 2 "of_int n" "of_int (E + 1)"] by linarith

lemma etoa_scale_returns:
  assumes "0 \<le> m" "wf_double (Dfin m e)"
  obtains expval F where "etoa_scale (Dfin m e) = Ret (expval, F)" "-308 \<le> expval" "expval \<le> 308"
    "10 ^ 9 < units m e \<Longrightarrow> expval \<noteq> 0" "2 powr -14 \<le> units m e \<Longrightarrow> -5 \<le> expval"
    "F = Dinf False \<or> (\<exists>f. has_value F f \<and> 0 < f \<and> units m e \<le> 10 ^ 5 * f)"
proof -
  let ?U = "double_bits (Dfin m e)"
  let ?F = "bits_double ((?U AND (push_bit 52 1 - 1)) OR push_bit 52 1023)"
  obtain E where E: "uint (drop_bit 52 ?U AND 0x7FF) = E + 1023" "-1023 \<le> E" "E \<le> 1023" "units m e < 2 powr of_int (E + 1)"
    using double_exponent [OF assms] by blast
  obtain f where F: "has_value ?F f" "1 \<le> f" "f < 2" by (rule one_two_value)
  obtain t X where t: "d_to_int (exp10_guess E ?F) = Ret t" "-307 \<le> t" "t \<le> 308" "29 \<le> E \<Longrightarrow> 2 \<le> t" "-14 \<le> E \<Longrightarrow> -4 \<le> t"
    "d_to_int (dadd (dmul (d_of_int t) (decimal 3321928094887362 15)) (decimal 5 1)) = Ret X"
    and X: "-1023 < X" "X < 1024" "E - 4 \<le> X"
    and z: "-1.06 \<le> 2.302585092994046 * of_int t - 0.6931471805599453 * real_of_int X"
      "2.302585092994046 * of_int t - 0.6931471805599453 * real_of_int X \<le> 0.36"
    using etoa_exponents [OF E(2,3) F] by blast
  let ?P = "pow10_guess t X"
  have pos: "0 < (2 :: real) powr of_int X" by simp
  have P: "at_least ?P (2 powr of_int X / 8)" by (rule pow10_guess_lower [OF X(1,2) t(2,3) z])
  have "real_of_int (E + 1) \<le> of_int X + 5" using X(3) by linarith
  then have "units m e \<le> 2 powr (of_int X + 5)" using E(4) powr_mono [of "of_int (E + 1)" "of_int X + 5" 2] by linarith
  then have v: "units m e \<le> 32 * 2 powr of_int X" unfolding powr_add by simp
  note scale = at_least_scales [OF _ v]
  have Q: "at_least (ddiv ?P (d_of_int 10)) (2 powr of_int X / 320)" by (rule tenth_at_least [OF P X(1)])
  have big: "2 \<le> t" if "10 ^ 9 < units m e"
    using exponent_above [OF _ E(4), of 29] that t(4) by (simp add: powr_numeral)
  have low: "-4 \<le> t" if "2 powr -14 \<le> units m e"
    using exponent_above [OF _ E(4), of "-14"] that t(5) by simp
  have "etoa_scale (Dfin m e) = Ret (if dlt (Dfin m e) ?P then (t - 1, ddiv ?P (d_of_int 10)) else (t, ?P))"
    unfolding etoa_scale_eq Let_def E(1) using t(1,6) by simp
  moreover have "at_least ?P (2 powr of_int X / 320)" by (rule at_least_mono [OF P]) (use pos in linarith)
  ultimately show thesis
    using that [of "t - 1" "ddiv ?P (d_of_int 10)", OF _ _ _ _ _ scale [OF Q]] that [of t ?P, OF _ _ _ _ _ scale] t(2,3) big low
    by (cases "dlt (Dfin m e) ?P") fastforce+
qed

section \<open>The nesting ends\<close>

definition prec_ok :: "nat \<Rightarrow> u32 \<Rightarrow> u32 \<Rightarrow> bool" where
  "prec_ok limit prec flags \<longleftrightarrow> (flag flags FLAGS_PRECISION \<longrightarrow> unat prec \<le> limit)"

lemma fixed_text:
  assumes "has_value d x" "\<bar>x\<bar> \<le> 10 ^ 9"
  shows "ftoa_text (Suc n) d prec width flags \<noteq> Fault Call_depth"
    "prec_ok 41 prec flags \<Longrightarrow> \<exists>t. ftoa_text (Suc n) d prec width flags = Ret t"
proof -
  obtain m e where d: "d = Dfin m e" "units m e = x" using assms(1) by (auto simp: has_value_def)
  have small: "\<not> dlt PRINTF_MAX_FLOAT d" "\<not> dlt d (dneg PRINTF_MAX_FLOAT)"
    unfolding max_float dneg.simps d(1) dlt_units d(2) using assms(2) by (simp_all add: abs_le_iff)
  have range: "d \<noteq> Dnan" "\<not> dlt DBL_MAX d" "\<not> dlt d (dneg DBL_MAX)"
    using small_is_finite [OF small] d(1) by auto
  have t: "ftoa_text (Suc n) d prec width flags =
      bind_res (ftoa_buf d prec width flags) (\<lambda>(buf, width). Ret (rev_text buf width flags))"
    using small range by simp
  have b: "if flag flags FLAGS_PRECISION \<and> 41 < prec then ftoa_buf d prec width flags = Fault Out_of_bounds
    else \<exists>r. ftoa_buf d prec width flags = Ret r"
    unfolding d(1) by (rule ftoa_buf_bounds) (use small d(1) in simp_all)
  show "ftoa_text (Suc n) d prec width flags \<noteq> Fault Call_depth"
    unfolding t using b by (auto split: if_splits)
  show "\<exists>t. ftoa_text (Suc n) d prec width flags = Ret t" if "prec_ok 41 prec flags"
  proof -
    have "\<not> (flag flags FLAGS_PRECISION \<and> 41 < prec)" using that by (auto simp: prec_ok_def word_less_nat_alt)
    with b obtain r where "ftoa_buf d prec width flags = Ret r" by auto
    then show ?thesis unfolding t by (cases r) simp
  qed
qed

text \<open>The number that \<^verbatim>\<open>_etoa\<close> hands to \<^verbatim>\<open>_ftoa\<close> is small enough for the fixed notation.\<close>

lemma scaled_value:
  assumes "has_value v x" "0 \<le> x" "F = Dinf False \<or> (\<exists>f. has_value F f \<and> 0 < f \<and> x \<le> 10 ^ 5 * f)"
  obtains y where "has_value (ddiv v F) y" "\<bar>y\<bar> \<le> 10 ^ 9"
  using assms(3)
proof (elim disjE exE conjE)
  assume "F = Dinf False"
  moreover obtain m e where "v = Dfin m e" using assms(1) by (auto simp: has_value_def)
  ultimately have "has_value (ddiv v F) 0" by (auto simp: has_value_def units_def)
  then show thesis using that [of 0] by simp
next
  fix f assume f: "has_value F f" "0 < f" "x \<le> 10 ^ 5 * f"
  define r where "r = x / f"
  have r: "0 \<le> r" "r \<le> 10 ^ 5" using f(2,3) assms(2) by (simp_all add: r_def field_simps)
  have "(10 ^ 5 :: real) \<le> 2 ^ 999" by simp
  then have "near (ddiv v F) r" unfolding r_def using f r by (intro near_div [OF assms(1)]) (simp_all add: r_def)
  from nearE [OF this, of "10 ^ 5"] r obtain y where "has_value (ddiv v F) y" "r - (10 ^ 5 + 1) / 10 ^ 8 \<le> y" "y \<le> r + (10 ^ 5 + 1) / 10 ^ 8"
    by (auto simp: abs_le_iff)
  then show thesis using that [of y] r by (simp add: abs_le_iff)
qed

lemma value_sign:
  assumes "has_value d x" "\<bar>x\<bar> \<le> B" shows "\<exists>y. has_value (if neg then dneg d else d) y \<and> \<bar>y\<bar> \<le> B"
  using assms value_neg [OF assms(1)] by (intro exI [of _ "if neg then - x else x"]) simp

text \<open>The magnitude that \<^verbatim>\<open>_etoa\<close> works with.\<close>

lemma etoa_magnitude:
  assumes "wf_double val" "\<not> (val = Dnan \<or> dlt DBL_MAX val \<or> dlt val (dneg DBL_MAX))"
  obtains m e where "(if dlt val (Dfin 0 0) then dneg val else val) = Dfin m e" "0 \<le> m" "wf_double (Dfin m e)"
proof (cases val)
  case (Dfin m e)
  have "dlt val (Dfin 0 0) \<longleftrightarrow> m < 0" unfolding Dfin dlt_units by (simp add: units_def mult_less_0_iff)
  then show thesis
    using that [of "- m" e] that [of m e] assms(1) unfolding Dfin by (cases "m < 0") simp_all
next
  case (Dinf s)
  then show thesis using assms(2) by (cases s) (simp_all add: DBL_MAX_def)
qed (use assms(2) in simp)

lemma etoa_adapt_result:
  assumes "etoa_adapt val expval prec minwidth flags = Ret (prec', flags', minwidth', expval')"
  shows "expval' = expval \<or> dlt val (d_of_int 1000000)"
  using assms by (auto simp: etoa_adapt_def split: if_splits)

lemma etoa_adapt_faults: "etoa_adapt val expval prec minwidth flags \<noteq> Fault Call_depth"
  by (auto simp: etoa_adapt_def int_range_def split: if_splits)

lemma etoa_adapt_returns:
  assumes "unat prec \<le> (if flag flags FLAGS_ADAPT_EXP then 37 else 41)" "-308 \<le> expval" "expval \<le> 308"
    "\<not> dlt val (decimal 1 4) \<Longrightarrow> -5 \<le> expval"
  shows "\<exists>a. etoa_adapt val expval prec minwidth flags = Ret a \<and> unat (fst a) \<le> 41"
proof (cases "flag flags FLAGS_ADAPT_EXP \<and> \<not> dlt val (decimal 1 4) \<and> dlt val (d_of_int 1000000)")
  case True
  have p: "uint prec = int (unat prec)" "unat prec \<le> 37" using assms(1) True by simp_all
  then have b: "0 \<le> uint prec" "uint prec \<le> 37" by linarith+
  have s: "sint prec = int (unat prec)" unfolding p(1) [symmetric] sint_uint
    by (rule signed_take_bit_int_eq_self) (use b(2) order_trans [of "-2147483648", OF _ b(1)] in simp_all)
  define i where "i = int (unat prec) - expval - 1"
  show ?thesis
  proof (cases "expval < sint prec")
    case less: True
    have "-5 \<le> expval" using True assms(4) by simp
    then have i: "0 \<le> i" "i \<le> 41" using less s p(1) b(2) unfolding i_def by linarith+
    then have "unat (of_int i :: u32) = nat i" by (simp add: unat_eq_nat_uint unsigned_of_int take_bit_int_eq_self)
    moreover have "etoa_adapt val expval prec minwidth flags = Ret (of_int i, flags OR FLAGS_PRECISION, 0, 0)"
      using True less i by (simp add: etoa_adapt_def s int_range_def i_def)
    ultimately show ?thesis using i by (simp add: nat_le_iff)
  qed (use True in \<open>simp add: etoa_adapt_def\<close>)
next
  case False
  have "unat (prec - 1) \<le> 41" if "0 < prec" using that assms(1) by (simp add: unat_minus_one word_gt_0 split: if_splits)
  with False show ?thesis using assms(1) by (auto simp: etoa_adapt_def split: if_splits)
qed

lemma not_below_1e4: "\<not> dlt (Dfin m e) (decimal 1 4) \<Longrightarrow> 2 powr -14 \<le> units m e"
proof -
  assume below: "\<not> dlt (Dfin m e) (decimal 1 4)"
  have "near (decimal 1 4) (1 / 10 ^ 4)" using near_decimal [of 1 4] by simp
  then obtain y where y: "has_value (decimal 1 4) y" "1 / 10 ^ 4 - (1 + 1) / 10 ^ 8 \<le> y" by (rule nearE [of _ _ 1]) simp_all
  then obtain m' e' where "decimal 1 4 = Dfin m' e'" "units m' e' = y" by (auto simp: has_value_def)
  then have "y \<le> units m e" using below by (simp add: dlt_units del: dlt.simps)
  moreover have "(2 :: real) powr -14 \<le> 1 / 10 ^ 4 - (1 + 1) / 10 ^ 8" by (simp add: powr_minus powr_numeral)
  ultimately show ?thesis using y(2) by linarith
qed

lemma below_1e6: "dlt (Dfin m e) (d_of_int 1000000) \<Longrightarrow> units m e \<le> 10 ^ 9"
  by (simp add: d_of_int_small dlt_units del: dlt.simps)

lemma bind_ends:
  "r \<noteq> Fault x \<Longrightarrow> bind_res r (\<lambda>t. Ret (f t)) \<noteq> Fault x" "\<exists>t. r = Ret t \<Longrightarrow> \<exists>t. bind_res r (\<lambda>t. Ret (f t)) = Ret t"
  by (cases r; auto)+

lemma scaled_text:
  assumes "has_value d x" "\<bar>x\<bar> \<le> 10 ^ 9"
  shows "bind_res (ftoa_text (Suc n) (if neg then dneg d else d) prec width flags) (\<lambda>t. Ret (f t)) \<noteq> Fault Call_depth"
    "prec_ok 41 prec flags \<Longrightarrow> \<exists>t. bind_res (ftoa_text (Suc n) (if neg then dneg d else d) prec width flags) (\<lambda>t. Ret (f t)) = Ret t"
proof -
  obtain y where y: "has_value (if neg then dneg d else d) y" "\<bar>y\<bar> \<le> 10 ^ 9" using value_sign [OF assms] by blast
  show "bind_res (ftoa_text (Suc n) (if neg then dneg d else d) prec width flags) (\<lambda>t. Ret (f t)) \<noteq> Fault Call_depth"
    by (rule bind_ends) (rule fixed_text [OF y])
  show "\<exists>t. bind_res (ftoa_text (Suc n) (if neg then dneg d else d) prec width flags) (\<lambda>t. Ret (f t)) = Ret t"
    if "prec_ok 41 prec flags" using that by (intro bind_ends fixed_text [OF y])
qed

text \<open>The number is handed on as it is only when it is small.\<close>

lemma handed_value:
  assumes "0 \<le> m" "F = Dinf False \<or> (\<exists>f. has_value F f \<and> 0 < f \<and> units m e \<le> 10 ^ 5 * f)"
    "10 ^ 9 < units m e \<Longrightarrow> expval \<noteq> 0" "ev = expval \<or> dlt (Dfin m e) (d_of_int 1000000)"
  obtains x where "has_value (if ev \<noteq> 0 then ddiv (Dfin m e) F else Dfin m e) x" "\<bar>x\<bar> \<le> 10 ^ 9"
proof -
  have hv: "has_value (Dfin m e) (units m e)" "0 \<le> units m e" using assms(1) by (auto simp: has_value_def)
  show thesis
  proof (cases "ev = 0")
    case True
    have "units m e \<le> 10 ^ 9" using assms(3,4) below_1e6 [of m e] True by (metis not_less)
    then show thesis using that [of "units m e"] hv True by simp
  next
    case False
    from scaled_value [OF hv assms(2)] obtain y where "has_value (ddiv (Dfin m e) F) y" "\<bar>y\<bar> \<le> 10 ^ 9" .
    then show thesis using that [of y] False by simp
  qed
qed

text \<open>What \<^verbatim>\<open>_etoa\<close> does once the scale is known.\<close>

definition etoa_rest :: "nat \<Rightarrow> bool \<Rightarrow> cdouble \<Rightarrow> cdouble \<Rightarrow> u32 \<Rightarrow> u32 \<times> u32 \<times> u32 \<times> int \<Rightarrow> string res" where
  "etoa_rest depth negative val F width = (\<lambda>(prec, flags, minwidth, expval).
     let fwidth = (if minwidth < width then width - minwidth else 0);
         fwidth = (if flag flags FLAGS_LEFT \<and> minwidth \<noteq> 0 then 0 else fwidth);
         val = (if expval \<noteq> 0 then ddiv val F else val)
     in bind_res (ftoa_text depth (if negative then dneg val else val) prec fwidth
            (flags AND NOT FLAGS_ADAPT_EXP)) (\<lambda>t.
        Ret (t @ exponent_text t expval minwidth width flags)))"

lemma etoa_text_finite:
  assumes "\<not> (val = Dnan \<or> dlt DBL_MAX val \<or> dlt val (dneg DBL_MAX))"
    "(if dlt val (Dfin 0 0) then dneg val else val) = v" "etoa_scale v = Ret (expval, F)"
  shows "etoa_text (Suc depth) val prec width flags =
    bind_res (etoa_adapt v expval (if \<not> flag flags FLAGS_PRECISION then PRINTF_DEFAULT_FLOAT_PRECISION else prec)
      (if expval < 100 \<and> -100 < expval then 4 else 5) flags) (etoa_rest depth (dlt val (Dfin 0 0)) v F width)"
  using assms by (simp only: etoa_text.simps if_False Let_def bind_res.simps prod.case etoa_rest_def)

lemma etoa_text_ends:
  assumes "wf_double val"
  shows "etoa_text (Suc (Suc n)) val prec width flags \<noteq> Fault Call_depth"
    "prec_ok (if flag flags FLAGS_ADAPT_EXP then 37 else 41) prec flags \<Longrightarrow>
       \<exists>t. etoa_text (Suc (Suc n)) val prec width flags = Ret t"
proof -
  let ?e = "etoa_text (Suc (Suc n)) val prec width flags"
  let ?lim = "if flag flags FLAGS_ADAPT_EXP then 37 else 41 :: nat"
  have "?e \<noteq> Fault Call_depth \<and> (prec_ok ?lim prec flags \<longrightarrow> (\<exists>t. ?e = Ret t))"
  proof (cases "val = Dnan \<or> dlt DBL_MAX val \<or> dlt val (dneg DBL_MAX)")
    case True
    then show ?thesis by auto
  next
    case False
    obtain m e where v: "(if dlt val (Dfin 0 0) then dneg val else val) = Dfin m e" "0 \<le> m" "wf_double (Dfin m e)"
      using etoa_magnitude [OF assms False] by blast
    obtain expval F where sc: "etoa_scale (Dfin m e) = Ret (expval, F)" "-308 \<le> expval" "expval \<le> 308"
      "10 ^ 9 < units m e \<Longrightarrow> expval \<noteq> 0" "2 powr -14 \<le> units m e \<Longrightarrow> -5 \<le> expval"
      "F = Dinf False \<or> (\<exists>f. has_value F f \<and> 0 < f \<and> units m e \<le> 10 ^ 5 * f)"
      using etoa_scale_returns [OF v(2,3)] by blast
    define p where "p = (if \<not> flag flags FLAGS_PRECISION then PRINTF_DEFAULT_FLOAT_PRECISION else prec)"
    define w :: u32 where "w = (if expval < 100 \<and> -100 < expval then 4 else 5)"
    note e = etoa_text_finite [OF False v(1) sc(1), of "Suc n" prec width flags, folded p_def w_def]
    have p: "unat p \<le> ?lim" if "prec_ok ?lim prec flags"
      using that by (auto simp: prec_ok_def p_def PRINTF_DEFAULT_FLOAT_PRECISION_def)
    show ?thesis
    proof (cases "etoa_adapt (Dfin m e) expval p w flags")
      case (Ret r)
      obtain p' fl w' ev where r: "r = (p', fl, w', ev)" by (cases r)
      obtain x where x: "has_value (if ev \<noteq> 0 then ddiv (Dfin m e) F else Dfin m e) x" "\<bar>x\<bar> \<le> 10 ^ 9"
        using handed_value [OF v(2) sc(6,4) etoa_adapt_result [OF Ret [unfolded r]]] by blast
      have "unat p' \<le> 41" if "prec_ok ?lim prec flags"
        using etoa_adapt_returns [where val = "Dfin m e" and minwidth = w, OF p [OF that] sc(2,3) sc(5) [OF not_below_1e4]] Ret r by simp
      then have "prec_ok ?lim prec flags \<Longrightarrow> prec_ok 41 p' f" for f by (simp add: prec_ok_def)
      then show ?thesis
        unfolding e Ret r bind_res.simps etoa_rest_def prod.case Let_def by (intro conjI impI scaled_text [OF x])
    next
      case (Fault x)
      then have "\<not> prec_ok ?lim prec flags"
        using etoa_adapt_returns [where val = "Dfin m e" and minwidth = w, OF p sc(2,3) sc(5) [OF not_below_1e4]] by auto
      then show ?thesis using etoa_adapt_faults [of "Dfin m e" expval p w flags] unfolding e Fault by simp
    qed
  qed
  then show "?e \<noteq> Fault Call_depth" "prec_ok ?lim prec flags \<Longrightarrow> \<exists>t. ?e = Ret t" by blast+
qed


lemma ftoa_text_ends:
  assumes "wf_double val"
  shows "ftoa_text (Suc (Suc (Suc n))) val prec width flags \<noteq> Fault Call_depth"
    "prec_ok (if flag flags FLAGS_ADAPT_EXP then 37 else 41) prec flags \<Longrightarrow>
       \<exists>t. ftoa_text (Suc (Suc (Suc n))) val prec width flags = Ret t"
proof -
  let ?t = "ftoa_text (Suc (Suc (Suc n))) val prec width flags"
  let ?lim = "if flag flags FLAGS_ADAPT_EXP then 37 else 41 :: nat"
  have lim: "prec_ok ?lim prec flags \<Longrightarrow> prec_ok 41 prec flags" by (auto simp: prec_ok_def split: if_splits)
  have "?t \<noteq> Fault Call_depth \<and> (prec_ok ?lim prec flags \<longrightarrow> (\<exists>t. ?t = Ret t))"
  proof (cases "dlt PRINTF_MAX_FLOAT val \<or> dlt val (dneg PRINTF_MAX_FLOAT) \<or> val = Dnan")
    case True
    then have "?t = etoa_text (Suc (Suc n)) val prec width flags \<or> (\<exists>t. ?t = Ret t)"
      by (auto simp: ftoa_text.simps(2) [of "Suc (Suc n)"] simp del: ftoa_text.simps etoa_text.simps)
    then show ?thesis
    proof
      assume t: "?t = etoa_text (Suc (Suc n)) val prec width flags"
      show ?thesis unfolding t by (intro conjI impI etoa_text_ends [OF assms])
    qed (metis res.distinct(1))
  next
    case False
    then obtain m e where val: "val = Dfin m e" using small_is_finite [of val] by blast
    have "\<bar>units m e\<bar> \<le> 10 ^ 9"
      using False by (simp add: val max_float dlt_units abs_le_iff del: dlt.simps)
    moreover have "has_value val (units m e)" by (auto simp: val has_value_def)
    ultimately show ?thesis using lim by (intro conjI impI fixed_text)
  qed
  then show "?t \<noteq> Fault Call_depth" "prec_ok ?lim prec flags \<Longrightarrow> \<exists>t. ?t = Ret t" by blast+
qed

text \<open>
  C17. Every double is printed: for each of the \<open>2 ^ 64\<close> representations of a floating-point number \<^verbatim>\<open>_ftoa\<close> and
  \<^verbatim>\<open>_etoa\<close>, which call each other, end after at most three nested calls. With a precision of at
  most 41 (37 for \<^verbatim>\<open>%g\<close>) they return: no buffer and no table is left, no conversion overflows.
\<close>
theorem float_conversion_terminates:
  "ftoa 3 Out_char idx maxlen (bits_double U) prec width flags s \<noteq> Fault Call_depth \<and>
   etoa 3 Out_char idx maxlen (bits_double U) prec width flags s \<noteq> Fault Call_depth \<and>
   (prec_ok (if flag flags FLAGS_ADAPT_EXP then 37 else 41) prec flags \<longrightarrow>
     (\<exists>r. ftoa 3 Out_char idx maxlen (bits_double U) prec width flags s = Ret r) \<and>
     (\<exists>r. etoa 3 Out_char idx maxlen (bits_double U) prec width flags s = Ret r))"
proof -
  have "ftoa_text 3 (bits_double U) prec width flags \<noteq> Fault Call_depth"
    "etoa_text 3 (bits_double U) prec width flags \<noteq> Fault Call_depth"
    unfolding numeral_3_eq_3 by (intro ftoa_text_ends etoa_text_ends wf_bits_double)+
  moreover have "\<exists>t. ftoa_text 3 (bits_double U) prec width flags = Ret t"
    "\<exists>t. etoa_text 3 (bits_double U) prec width flags = Ret t"
    if "prec_ok (if flag flags FLAGS_ADAPT_EXP then 37 else 41) prec flags"
    unfolding numeral_3_eq_3
    by (rule ftoa_text_ends(2) [OF wf_bits_double that]) (rule etoa_text_ends(2) [OF wf_bits_double that])
  ultimately show ?thesis
    unfolding float_text out_all_console by (intro conjI impI bind_ends)
qed

theorem float_conversion_terminates_witness:
  "prec_ok 37 37 (FLAGS_PRECISION OR FLAGS_ADAPT_EXP) \<and>
   (\<exists>r. ftoa 3 Out_char 0 (-1) (bits_double 0x7FEFFFFFFFFFFFFF) 37 0 (FLAGS_PRECISION OR FLAGS_ADAPT_EXP)
      \<lparr>out_buf = [], console = [], fct_calls = []\<rparr> = Ret r)"
  using float_conversion_terminates [of 0 "-1" "0x7FEFFFFFFFFFFFFF" 37 0 "FLAGS_PRECISION OR FLAGS_ADAPT_EXP"
      "\<lparr>out_buf = [], console = [], fct_calls = []\<rparr>"]
  by (auto simp: prec_ok_def vmm_flags)

end
