(* ===== verification/Printf_Types.thy ===== *)
theory Printf_Types imports Float_Returns begin

text \<open>
  A type checker for formats: the types of the arguments that a format asks for. The check of the
  arguments against these types, which looks neither at the output function nor at the text, says
  exactly when and how formatting fails.
\<close>

section \<open>Types of arguments\<close>

text \<open>\<open>T_sint\<close> and \<open>T_slong\<close> are negated on the way: their smallest values overflow.\<close>

datatype va_ty = T_int | T_sint | T_long | T_slong | T_ptr | T_str | T_double

fun fits :: "va_ty \<Rightarrow> va \<Rightarrow> bool" where
  "fits T_int (Va_int _) = True"
| "fits T_sint (Va_int _) = True"
| "fits T_long (Va_long _) = True"
| "fits T_slong (Va_long _) = True"
| "fits T_ptr (Va_ptr _) = True"
| "fits T_ptr (Va_str _ _) = True"
| "fits T_str (Va_str _ _) = True"
| "fits T_double (Va_double _) = True"
| "fits _ _ = False"

fun value_fault :: "va_ty \<Rightarrow> va \<Rightarrow> vmm_error option" where
  "value_fault T_sint (Va_int w) = (if sint w = - (2 ^ 31) then Some Int_overflow else None)"
| "value_fault T_slong (Va_long w) = (if sint w = - (2 ^ 63) then Some Int_overflow else None)"
| "value_fault T_str (Va_str w _) = (if w = 0 then Some Null_deref else None)"
| "value_fault _ _ = None"

fun check_args :: "va_ty list \<Rightarrow> va list \<Rightarrow> unit res" where
  "check_args [] va = Ret ()"
| "check_args (t # ts) [] = Fault Bad_vararg"
| "check_args (t # ts) (v # va) =
     (if \<not> fits t v then Fault Bad_vararg
      else case value_fault t v of Some x \<Rightarrow> Fault x | None \<Rightarrow> check_args ts va)"

section \<open>Types of a format\<close>

definition width_ty :: "string \<Rightarrow> va_ty list \<times> string" where
  "width_ty format =
     (if is_digit (peek format) then ([], snd (atoi format))
      else if peek format = CHR ''*'' then ([T_sint], tl format) else ([], format))"

text \<open>A precision that is an argument is not known.\<close>

definition precision_ty :: "u32 \<Rightarrow> string \<Rightarrow> u32 \<times> u32 option \<times> va_ty list \<times> string" where
  "precision_ty flags format =
     (if peek format = CHR ''.'' then
        (let flags = flags OR FLAGS_PRECISION; format = tl format in
         if is_digit (peek format) then (let (p, format) = atoi format in (flags, Some p, [], format))
         else if peek format = CHR ''*'' then (flags, None, [T_int], tl format)
         else (flags, Some 0, [], format))
      else (flags, Some 0, [], format))"

definition spec_ty :: "string \<Rightarrow> u32 \<times> u32 option \<times> va_ty list \<times> string" where
  "spec_ty format =
     (let (flags, format) = eval_flags 0 format;
          (ts, format) = width_ty format;
          (flags, p, ts', format) = precision_ty flags format;
          (flags, format) = eval_length flags format
      in (flags, p, ts @ ts', format))"

text \<open>
  Floating-point conversions with a precision above 37, or one that is not known, are not accepted;
  neither is a format that ends inside a specification.
\<close>

definition conv_ty :: "char \<Rightarrow> u32 \<Rightarrow> u32 option \<Rightarrow> va_ty list option" where
  "conv_ty c flags p =
     (let long = flag flags FLAGS_LONG_LONG \<or> flag flags FLAGS_LONG in
      if c = CHR ''i'' \<or> c = CHR ''d'' then
        Some [if long then T_slong else if flag flags FLAGS_CHAR \<or> flag flags FLAGS_SHORT then T_int else T_sint]
      else if c \<in> set ''uxXob'' then Some [if long then T_long else T_int]
      else if c \<in> set ''fFeEgG'' then
        (if flag flags FLAGS_PRECISION \<longrightarrow> (case p of Some n \<Rightarrow> n \<le> 37 | None \<Rightarrow> False) then Some [T_double] else None)
      else if c = CHR ''c'' then Some [T_int]
      else if c = CHR ''s'' then Some [T_str]
      else if c = CHR ''p'' then Some [T_ptr]
      else if c = CHR 0x00 then None
      else Some [])"

lemma spec_ty_length: "spec_ty format = (flags, p, ts, format') \<Longrightarrow> length format' \<le> length format"
proof -
  assume s: "spec_ty format = (flags, p, ts, format')"
  obtain fl f1 where 1: "eval_flags 0 format = (fl, f1)" by fastforce
  obtain t1 f2 where 2: "width_ty f1 = (t1, f2)" by fastforce
  obtain fl3 p3 t3 f3 where 3: "precision_ty fl f2 = (fl3, p3, t3, f3)" using prod_cases4 by blast
  have "length f1 \<le> length format" using eval_flags_length [of 0 format] 1 by simp
  moreover have "length f2 \<le> length f1"
    using 2 by (auto simp: width_ty_def atoi_def dest: atoi_loop_length split: if_splits prod.splits)
      (metis atoi_loop_length prod.collapse)
  moreover have "length f3 \<le> length f2"
    using 3 by (auto simp: precision_ty_def atoi_def Let_def dest!: atoi_loop_length split: if_splits prod.splits)
  moreover have "length format' \<le> length f3"
    using s eval_length_length [of fl3 f3] by (auto simp: spec_ty_def 1 2 3 split: prod.splits)
  ultimately show ?thesis by linarith
qed

function fmt_types :: "string \<Rightarrow> va_ty list option" where
  "fmt_types format =
     (if peek format = CHR 0x00 then Some []
      else if peek format \<noteq> CHR ''%'' then fmt_types (tl format)
      else
        (let (flags, p, ts, format') = spec_ty (tl format) in
         case conv_ty (peek format') flags p of
           None \<Rightarrow> None
         | Some ts' \<Rightarrow> map_option (\<lambda>r. ts @ ts' @ r) (fmt_types (tl format'))))"
  by pat_completeness auto
termination
  by (relation "measure length") (auto simp: peek_def split: list.splits dest!: spec_ty_length [OF sym])

declare fmt_types.simps [simp del]

section \<open>The check is exact\<close>

lemma check_args_append:
  "check_args (ts @ ts') va = bind_res (check_args ts va) (\<lambda>_. check_args ts' (drop (length ts) va))"
  by (induction ts va rule: check_args.induct) (auto split: option.splits)

lemma check_one:
  "check_args [t] va =
     (case va of [] \<Rightarrow> Fault Bad_vararg
      | v # _ \<Rightarrow> if \<not> fits t v then Fault Bad_vararg
        else case value_fault t v of Some x \<Rightarrow> Fault x | None \<Rightarrow> Ret ())"
  by (auto split: list.splits option.splits)

lemma va_int_check:
  "va_int va = bind_res (check_args [T_int] va) (\<lambda>_. case va of Va_int w # _ \<Rightarrow> Ret (w, drop 1 va) | _ \<Rightarrow> Fault Bad_vararg)"
  by (cases va rule: va_int.cases) (auto simp: check_one)

text \<open>The flags of the running formatter differ from those of the checker in \<^verbatim>\<open>FLAGS_LEFT\<close> at most.\<close>

definition same_flags :: "u32 \<Rightarrow> u32 \<Rightarrow> bool" where
  "same_flags fl fl' \<longleftrightarrow> fl' = fl \<or> fl' = fl OR FLAGS_LEFT"

lemma same_flags_flag:
  assumes "same_flags fl fl'"
  shows "flag fl' FLAGS_LONG = flag fl FLAGS_LONG" "flag fl' FLAGS_LONG_LONG = flag fl FLAGS_LONG_LONG"
    "flag fl' FLAGS_CHAR = flag fl FLAGS_CHAR" "flag fl' FLAGS_SHORT = flag fl FLAGS_SHORT"
    "flag fl' FLAGS_PRECISION = flag fl FLAGS_PRECISION"
  using assms by (auto simp: same_flags_def vmm_flags bit_simps)

lemma same_flags_or: "same_flags fl fl' \<Longrightarrow> same_flags (fl OR x) (fl' OR x)"
  by (auto simp: same_flags_def or.assoc or.commute or.left_commute)

lemma sint_ge: "- (2 ^ 31) \<le> sint (w :: u32)" "- (2 ^ 63) \<le> sint (v :: u64)"
  using sint_greater_eq [of w] sint_greater_eq [of v] by simp_all

lemma eval_width_check:
  assumes "width_ty format = (ts, format')"
  shows "case check_args ts va of Fault x \<Rightarrow> eval_width flags format va = Fault x
    | Ret _ \<Rightarrow> \<exists>fl w. eval_width flags format va = Ret (fl, w, format', drop (length ts) va) \<and> same_flags flags fl"
proof (cases "is_digit (peek format)")
  case True
  then show ?thesis
    using assms by (auto simp: width_ty_def eval_width_def same_flags_def split: prod.splits)
next
  case False
  show ?thesis
  proof (cases "peek format = CHR ''*''")
    case True
    then have ts: "ts = [T_sint]" "format' = tl format" using False assms by (simp_all add: width_ty_def)
    show ?thesis
    proof (cases va rule: va_int.cases)
      case (1 w va')
      have "- sint w < 2 ^ 31 \<longleftrightarrow> sint w \<noteq> - (2 ^ 31)" using sint_ge(1) [of w] by auto
      moreover have "- (2 ^ 31) \<le> - sint w" using sint_less [of w] by simp
      ultimately show ?thesis using True False 1
        by (auto simp: ts eval_width_def int_range_def same_flags_def)
    qed (use True False ts in \<open>simp_all add: eval_width_def\<close>)
  qed (use False assms in \<open>auto simp: width_ty_def eval_width_def same_flags_def\<close>)
qed

lemma eval_precision_check:
  assumes "precision_ty flags format = (fl, p, ts, format')" "same_flags flags flags'"
  shows "case check_args ts va of Fault x \<Rightarrow> eval_precision flags' format va = Fault x
    | Ret _ \<Rightarrow> \<exists>fl' n. eval_precision flags' format va = Ret (fl', n, format', drop (length ts) va) \<and> same_flags fl fl' \<and>
        (p = None \<or> p = Some n)"
proof (cases "peek format = CHR ''.''")
  case True
  let ?f = "tl format"
  note or = same_flags_or [OF assms(2), of FLAGS_PRECISION]
  show ?thesis
  proof (cases "\<not> is_digit (peek ?f) \<and> peek ?f = CHR ''*''")
    case star: True
    then have ts: "ts = [T_int]" "format' = tl ?f" "fl = flags OR FLAGS_PRECISION" "p = None"
      using True assms(1) by (auto simp: precision_ty_def Let_def)
    show ?thesis
      using True star or by (cases va rule: va_int.cases) (auto simp: ts eval_precision_def Let_def)
  next
    case False
    then show ?thesis
      using True or assms(1) by (auto simp: precision_ty_def eval_precision_def Let_def split: if_splits prod.splits)
  qed
qed (use assms in \<open>auto simp: precision_ty_def eval_precision_def\<close>)

lemma eval_length_same:
  assumes "eval_length flags format = (fl, format')" "same_flags flags flags'"
  obtains fl' where "eval_length flags' format = (fl', format')" "same_flags fl fl'"
proof -
  note or = same_flags_or [OF assms(2)]
  show thesis
    using that assms by (auto simp: eval_length_def Let_def or same_flags_or split: if_splits)
qed

lemma parse_spec_check:
  assumes "spec_ty format = (fl, p, ts, format')"
  shows "case check_args ts va of Fault x \<Rightarrow> parse_spec format va = Fault x
    | Ret _ \<Rightarrow> \<exists>fl' w n. parse_spec format va = Ret (peek format', fl', w, n, format', drop (length ts) va) \<and>
        same_flags fl fl' \<and> (p = None \<or> p = Some n)"
proof -
  obtain fl1 f1 where 1: "eval_flags 0 format = (fl1, f1)" by fastforce
  obtain t2 f2 where 2: "width_ty f1 = (t2, f2)" by fastforce
  obtain fl3 p3 t3 f3 where 3: "precision_ty fl1 f2 = (fl3, p3, t3, f3)" using prod_cases4 by blast
  have l: "eval_length fl3 f3 = (fl, format')" and p: "p = p3" and ts: "ts = t2 @ t3"
    using assms by (auto simp: spec_ty_def 1 2 3 split: prod.splits)
  show ?thesis
  proof (cases "check_args t2 va")
    case (Fault x)
    then have "eval_width fl1 f1 va = Fault x" using eval_width_check [OF 2, where va = va and flags = fl1] by simp
    then show ?thesis by (simp add: ts check_args_append Fault parse_spec_def 1)
  next
    case (Ret u)
    then obtain fl2 w where w: "eval_width fl1 f1 va = Ret (fl2, w, f2, drop (length t2) va)" "same_flags fl1 fl2"
      using eval_width_check [OF 2, where va = va and flags = fl1] by auto
    note pc = eval_precision_check [OF 3 w(2), where va = "drop (length t2) va"]
    show ?thesis
    proof (cases "check_args t3 (drop (length t2) va)")
      case (Fault x)
      then show ?thesis using pc by (simp add: ts check_args_append Ret parse_spec_def 1 w(1))
    next
      case R: (Ret u')
      then obtain fl4 n where n: "eval_precision fl2 f2 (drop (length t2) va) = Ret (fl4, n, f3, drop (length t3) (drop (length t2) va))"
        "same_flags fl3 fl4" "p3 = None \<or> p3 = Some n" using pc by auto
      from eval_length_same [OF l n(2)] obtain fl5 where "eval_length fl4 f3 = (fl5, format')" "same_flags fl fl5" .
      then show ?thesis
        using n(3) by (auto simp: ts check_args_append Ret R parse_spec_def 1 w(1) n(1) p add.commute)
    qed
  qed
qed


lemma int_flags_flag:
  "flag (int_flags c fl) FLAGS_LONG = flag fl FLAGS_LONG" "flag (int_flags c fl) FLAGS_LONG_LONG = flag fl FLAGS_LONG_LONG"
  "flag (int_flags c fl) FLAGS_CHAR = flag fl FLAGS_CHAR" "flag (int_flags c fl) FLAGS_SHORT = flag fl FLAGS_SHORT"
  by (simp_all add: int_flags_def Let_def vmm_flags bit_simps)

lemma neg_value_returns:
  "- (2 ^ n) < i \<Longrightarrow> \<exists>v. neg_value n i = Ret v" "i = - (2 ^ n) \<Longrightarrow> neg_value n i = Fault Int_overflow"
  by (auto simp: neg_value_def)

lemma neg_value_cases:
  "(\<exists>v. neg_value 63 (sint w) = Ret v) \<and> sint w \<noteq> - (2 ^ 63) \<or> sint w = - (2 ^ 63) \<and> neg_value 63 (sint w) = Fault Int_overflow"
  "(\<exists>v. neg_value 31 (sint w') = Ret v) \<and> sint w' \<noteq> - (2 ^ 31) \<or> sint w' = - (2 ^ 31) \<and> neg_value 31 (sint w') = Fault Int_overflow"
  for w :: u64 and w' :: u32
proof -
  have "sint w = - (2 ^ 63) \<or> - (2 ^ 63) < sint w" "sint w' = - (2 ^ 31) \<or> - (2 ^ 31) < sint w'"
    using sint_ge(1) [of w'] sint_ge(2) [of w] by linarith+
  then show "(\<exists>v. neg_value 63 (sint w) = Ret v) \<and> sint w \<noteq> - (2 ^ 63) \<or> sint w = - (2 ^ 63) \<and> neg_value 63 (sint w) = Fault Int_overflow"
    "(\<exists>v. neg_value 31 (sint w') = Ret v) \<and> sint w' \<noteq> - (2 ^ 31) \<or> sint w' = - (2 ^ 31) \<and> neg_value 31 (sint w') = Fault Int_overflow"
    using neg_value_returns by blast+
qed

lemma sub_int_range: "- (2 ^ 31) < uint (a :: u8)" "- (2 ^ 31) < sint (b :: u16)"
  using sint_greater_eq [of b] order_trans [OF _ uint_ge_0 [of a], of "- (2 ^ 31) + 1"] by simp_all

lemma int_value_check:
  assumes "c \<in> set ''diuxXob''" "conv_ty c fl p = Some ts" "same_flags fl fl'"
  shows "case check_args ts va of Fault x \<Rightarrow> int_value c (int_flags c fl') va = Fault x
    | Ret _ \<Rightarrow> \<exists>v. int_value c (int_flags c fl') va = Ret (v, drop (length ts) va)"
proof -
  note fl = int_flags_flag same_flags_flag [OF assms(3)]
  let ?long = "flag fl FLAGS_LONG_LONG \<or> flag fl FLAGS_LONG"
  have ts: "ts = [if c = CHR ''i'' \<or> c = CHR ''d''
      then (if ?long then T_slong else if flag fl FLAGS_CHAR \<or> flag fl FLAGS_SHORT then T_int else T_sint)
      else (if ?long then T_long else T_int)]"
    using assms(1,2) by (auto simp: conv_ty_def Let_def)
  show ?thesis
  proof (cases "c = CHR ''i'' \<or> c = CHR ''d''")
    case True
    show ?thesis
    proof (cases ?long)
      case long: True
      show ?thesis
      proof (cases va rule: va_long.cases)
        case (1 w va')
        show ?thesis
          using neg_value_cases(1) [of w] True long by (elim disjE conjE exE) (simp_all add: 1 ts int_value_def fl)
      qed (use True long in \<open>simp_all add: ts int_value_def fl\<close>)
    next
      case False
      have sub: "\<exists>v. neg_value 31 (uint (a :: u8)) = Ret v" "\<exists>v. neg_value 31 (sint (b :: u16)) = Ret v" for a b
        by (intro neg_value_returns sub_int_range)+
      show ?thesis
      proof (cases va rule: va_int.cases)
        case (1 w va')
        obtain v v' where "neg_value 31 (uint (ucast w :: u8)) = Ret v" "neg_value 31 (sint (ucast w :: u16)) = Ret v'"
          using sub by blast
        then show ?thesis
          using neg_value_cases(2) [of w] True False by (elim disjE conjE exE) (simp_all add: 1 ts int_value_def fl)
      qed (use True False in \<open>simp_all add: ts int_value_def fl\<close>)
    qed
  next
    case False
    then show ?thesis
      by (cases ?long; cases va rule: va_long.cases; cases va rule: va_int.cases) (auto simp: ts int_value_def fl)
  qed
qed

lemma double_text_returns:
  assumes "wf_double d" "flag flags FLAGS_PRECISION \<longrightarrow> n \<le> 37"
  shows "\<exists>t. double_text c flags w n d = Ret t"
proof -
  have ok: "prec_ok (if flag fl FLAGS_ADAPT_EXP then 37 else 41) n fl" if "flag fl FLAGS_PRECISION = flag flags FLAGS_PRECISION" for fl
    using assms(2) that by (auto simp: prec_ok_def word_le_nat_alt)
  show ?thesis
    unfolding double_text_def numeral_3_eq_3 Let_def
    by (auto intro!: ftoa_text_ends(2) etoa_text_ends(2) assms(1) ok simp del: ftoa_text.simps etoa_text.simps
        simp: vmm_flags bit_simps)
qed


lemma conv_text_check:
  assumes "conv_ty c fl p = Some ts" "same_flags fl fl'" "p = None \<or> p = Some n"
    "\<And>d. Va_double d \<in> set va \<Longrightarrow> wf_double d"
  shows "case check_args ts va of Fault x \<Rightarrow> conv_text c fl' w n va = Fault x
    | Ret _ \<Rightarrow> \<exists>t. conv_text c fl' w n va = Ret (t, drop (length ts) va)"
proof -
  consider "c \<in> set ''diuxXob''" | "c \<notin> set ''diuxXob''" "c \<in> set ''fFeEgG''"
    | "c \<notin> set ''diuxXob''" "c \<notin> set ''fFeEgG''" by blast
  then show ?thesis
  proof cases
    case 1
    show ?thesis
      using int_value_check [OF 1 assms(1,2), of va] 1
      by (cases "check_args ts va") (auto simp: conv_text_def simp del: list.set)
  next
    case 2
    then have ts: "ts = [T_double]" and prec: "flag fl FLAGS_PRECISION \<longrightarrow> (case p of Some n \<Rightarrow> n \<le> 37 | None \<Rightarrow> False)"
      using assms(1) by (auto simp: conv_ty_def Let_def split: if_splits)
    then have "flag fl' FLAGS_PRECISION \<longrightarrow> n \<le> 37" using assms(3) same_flags_flag(5) [OF assms(2)] by auto
    then have t: "\<exists>t. double_text c fl' w n d = Ret t" if "Va_double d \<in> set va" for d
      using double_text_returns assms(4) that by blast
    show ?thesis
    proof (cases va rule: va_double.cases)
      case (1 d va')
      then obtain t where "double_text c fl' w n d = Ret t" using t [of d] by auto
      then show ?thesis using 2 by (simp add: conv_text_def ts 1 del: list.set)
    qed (use 2 in \<open>simp_all add: conv_text_def ts del: list.set\<close>)
  next
    case 3
    then have ts: "ts = (if c = CHR ''c'' then [T_int] else if c = CHR ''s'' then [T_str] else if c = CHR ''p'' then [T_ptr] else [])"
      using assms(1) by (auto simp: conv_ty_def Let_def split: if_splits)
    show ?thesis
      using 3 by (cases va rule: list.exhaust; cases "hd va") (auto simp: conv_text_def ts)
  qed
qed


lemma conv_ty_zero: "conv_ty (peek format) flags p = Some ts \<Longrightarrow> format \<noteq> []"
  by (auto simp: conv_ty_def peek_def Let_def)

text \<open>One conversion, when the text after it is checked already.\<close>

lemma render_spec_check:
  assumes pc: "peek format = CHR ''%''" and sp: "spec_ty (tl format) = (fl, p, ts1, format')"
    and c: "conv_ty (peek format') fl p = Some ts2" and wf: "\<And>d. Va_double d \<in> set va \<Longrightarrow> wf_double d"
    and rest: "\<And>k. bind_res (render (tl format') (drop k va)) (\<lambda>_. Ret ()) = check_args ts3 (drop k va)"
  shows "bind_res (render format va) (\<lambda>_. Ret ()) = check_args (ts1 @ ts2 @ ts3) va"
proof (cases "check_args ts1 va")
  case (Fault x)
  then show ?thesis using parse_spec_check [OF sp, of va] pc
    by (simp add: check_args_append render.simps [of format])
next
  case (Ret u)
  have n: "next_char format' = Ret (tl format')" using conv_ty_zero [OF c] by (simp add: next_char_def split: list.splits)
  have sub: "Va_double d \<in> set (drop k va) \<Longrightarrow> wf_double d" for d k using wf in_set_dropD by fast
  obtain fl' w m where ps: "parse_spec (tl format) va = Ret (peek format', fl', w, m, format', drop (length ts1) va)"
    "same_flags fl fl'" "p = None \<or> p = Some m" using parse_spec_check [OF sp, of va] Ret by auto
  let ?va = "drop (length ts1) va"
  note cc = conv_text_check [OF c ps(2,3), where w = w and va = ?va, OF sub [where k = "length ts1"]]
  show ?thesis
  proof (cases "check_args ts2 ?va")
    case (Fault x)
    then show ?thesis using cc pc by (simp add: check_args_append Ret render.simps [of format] ps(1))
  next
    case R: (Ret u')
    then obtain t where t: "conv_text (peek format') fl' w m ?va = Ret (t, drop (length ts2) ?va)" using cc by auto
    then show ?thesis
      using pc rest [of "length ts2 + length ts1"]
      by (simp add: check_args_append Ret R render.simps [of format] ps(1) n bind_res_assoc add.commute)
  qed
qed

lemma render_check:
  assumes "fmt_types format = Some ts" "\<And>d. Va_double d \<in> set va \<Longrightarrow> wf_double d"
  shows "bind_res (render format va) (\<lambda>_. Ret ()) = check_args ts va"
  using assms
proof (induction format arbitrary: va ts rule: measure_induct_rule [where f = length])
  case (less format)
  consider "peek format = CHR 0x00" | "peek format \<noteq> CHR 0x00" "peek format \<noteq> CHR ''%''" | "peek format = CHR ''%''" by blast
  then show ?case
  proof cases
    case 1
    then show ?thesis using less.prems(1) by (simp add: render.simps [of format] fmt_types.simps [of format])
  next
    case 2
    then have "fmt_types (tl format) = Some ts" using less.prems(1) by (simp add: fmt_types.simps [of format])
    moreover have "length (tl format) < length format" using 2(1) by (cases format) (simp_all add: peek_def)
    ultimately show ?thesis
      using less.IH less.prems(2) 2 by (simp add: render.simps [of format] bind_res_assoc)
  next
    case 3
    obtain fl p ts1 format' where sp: "spec_ty (tl format) = (fl, p, ts1, format')" using prod_cases4 by blast
    from less.prems(1) 3 obtain ts2 ts3 where c: "conv_ty (peek format') fl p = Some ts2" and r: "fmt_types (tl format') = Some ts3"
      and ts: "ts = ts1 @ ts2 @ ts3"
      by (auto simp: fmt_types.simps [of format] sp split: option.splits)
    have len: "length (tl format') < length format"
      using spec_ty_length [OF sp] 3 by (cases format) (auto simp: peek_def)
    show ?thesis unfolding ts
      by (rule render_spec_check [OF 3 sp c less.prems(2) less.IH [OF len r]]) (use less.prems(2) in_set_dropD in fast)+
  qed
qed

lemma c_printf_check:
  assumes "fmt_types format = Some ts" "\<And>d. Va_double d \<in> set va \<Longrightarrow> wf_double d"
  shows "bind_res (c_printf format va s) (\<lambda>_. Ret ()) = check_args ts va"
  by (simp add: render_check [OF assms, symmetric] c_printf_def console.vsnprintf_is_render out_all_console out_char_def
      bind_res_assoc)

text \<open>
  C16. The type checker of formats is exact: for every format it accepts, and arguments whose
  floating-point numbers have a representation, \<^verbatim>\<open>printf\<close> fails exactly when checking the arguments
  against the types of the format fails, with the same error; otherwise it returns.
\<close>
theorem printf_fails_as_checked:
  assumes "fmt_types format = Some ts" "\<And>d. Va_double d \<in> set va \<Longrightarrow> wf_double d"
  shows "bind_res (c_printf format va s) (\<lambda>_. Ret ()) = check_args ts va"
  by (rule c_printf_check [OF assms])

theorem printf_fails_as_checked_witness:
  "bind_res (c_printf ''%-*s|%5.2f|%lx'' [Va_int 8, Va_str 1 ''tty'', Va_double (Dfin 5 (-1)), Va_int 27]
     \<lparr>out_buf = [], console = [], fct_calls = []\<rparr>) (\<lambda>_. Ret ()) = Fault Bad_vararg"
proof -
  have t: "fmt_types ''%-*s|%5.2f|%lx'' = Some [T_sint, T_str, T_double, T_long]" by code_simp
  have c: "check_args [T_sint, T_str, T_double, T_long]
      [Va_int 8, Va_str 1 ''tty'', Va_double (Dfin 5 (-1)), Va_int 27] = Fault Bad_vararg" by code_simp
  have w: "wf_double (Dfin 5 (-1))" by code_simp
  show ?thesis unfolding c [symmetric] by (rule printf_fails_as_checked [OF t]) (use w in auto)
qed

end
