(* ===== verification/Messages.thy ===== *)
theory Messages imports Printf_Types begin

text \<open>
  The messages of the monitor: every call of \<^verbatim>\<open>printf\<close> and \<^verbatim>\<open>LOG_VMM\<close> with its format and the types of the
  arguments it passes, but for the register dump and the failed assertion, whose output is modelled
  in \<open>Util\<close>. \<^verbatim>\<open>LOG_IRQ\<close> and \<^verbatim>\<open>LOG_DIST\<close> expand to nothing. An argument whose type is declared outside the
  repository (\<^verbatim>\<open>seL4_Error\<close>, \<^verbatim>\<open>sel4cp_channel\<close>, \<^verbatim>\<open>sel4cp_vm\<close>) makes its type a parameter of the message.
\<close>

section \<open>The messages\<close>

type_synonym message = "string \<times> va_ty list"

definition msg_received_syscall :: message where
  "msg_received_syscall = (''Received syscall 0x%lx'' @ [CHR 0x0A], [T_long])"

definition msg_pa_translation :: message where
  "msg_pa_translation = (''Received PA translation syscall'' @ [CHR 0x0A], [])"

definition msg_nop_syscall :: message where
  "msg_nop_syscall = (''Received NOP syscall'' @ [CHR 0x0A], [])"

definition msg_unknown_syscall :: message where
  "msg_unknown_syscall = (''VMM|ERROR: Unknown syscall: syscall number: 0x%lx, PC: 0x%lx'' @ [CHR 0x0A],
     [T_long, T_long])"

definition msg_vppi_dropped :: message where
  "msg_vppi_dropped = (''VMM|ERROR: VPPI IRQ %lu dropped on vCPU %d'' @ [CHR 0x0A], [T_long, T_int])"

definition msg_vppi_ack_failed :: message where
  "msg_vppi_ack_failed = (''VMM|ERROR: Failed to ACK VPPI'' @ [CHR 0x0A], [])"

definition msg_unknown_smc_exception :: message where
  "msg_unknown_smc_exception = (''VMM|ERROR: unknown SMC exception, EC class: 0x%lx, HSR: 0x%lx'' @ [CHR 0x0A],
     [T_long, T_long])"

definition msg_invalid_instruction :: message where
  "msg_invalid_instruction = (''VMM|ERROR: Invalid instruction fault at IP: 0x%lx, number: 0x%lx'', [T_long, T_long])"

definition msg_read_regs_failed :: "va_ty \<Rightarrow> message" where
  "msg_read_regs_failed t = (''Failure reading regs, error %d'', [t])"

definition msg_unexpected_vm_fault :: message where
  "msg_unexpected_vm_fault = (''VMM|ERROR: unexpected VM fault on address: 0x%lx, FSR: 0x%lx, IP: 0x%lx, is_prefetch: %s, is_write: %s'' @ [CHR 0x0A],
     [T_long, T_long, T_long, T_str, T_str])"

definition msg_vppi_event_ack_failed :: message where
  "msg_vppi_event_ack_failed = (''VMM|ERROR: failed to ACK VPPI, vCPU: 0x%lx, IRQ: 0x%lx'' @ [CHR 0x0A],
     [T_long, T_int])"

definition msg_starting :: message where
  "msg_starting = (''starting '' @ [CHR 0x22] @ ''%s'' @ [CHR 0x22, CHR 0x0A], [T_str])"

definition msg_copying_kernel :: message where
  "msg_copying_kernel = (''Copying guest kernel image to 0x%x (0x%x bytes)'' @ [CHR 0x0A], [T_long, T_long])"

definition msg_copying_dtb :: message where
  "msg_copying_dtb = (''Copying guest DTB to 0x%x (0x%x bytes)'' @ [CHR 0x0A], [T_int, T_long])"

definition msg_copying_initrd :: message where
  "msg_copying_initrd = (''Copying guest initial RAM disk to 0x%x (0x%x bytes)'' @ [CHR 0x0A], [T_int, T_long])"

definition msg_initialised_gic :: message where
  "msg_initialised_gic = (''initialised virtual GICv2 driver'' @ [CHR 0x0A], [])"

definition msg_register_vtimer_failed :: message where
  "msg_register_vtimer_failed = (''VMM|ERROR: Failed to register vCPU virtual timer IRQ: 0x%lx'' @ [CHR 0x0A],
     [T_int])"

definition msg_register_sgi0_failed :: message where
  "msg_register_sgi0_failed = (''VMM|ERROR: Failed to register vCPU SGI 0 IRQ'', [])"

definition msg_register_sgi1_failed :: message where
  "msg_register_sgi1_failed = (''VMM|ERROR: Failed to register vCPU SGI 1 IRQ'', [])"

definition msg_completed_init :: message where
  "msg_completed_init = (''completed all initialisation'' @ [CHR 0x0A], [])"

definition msg_starting_guest :: message where
  "msg_starting_guest = (''starting guest at 0x%lx, DTB at 0x%lx'' @ [CHR 0x0A], [T_long, T_long])"

definition msg_irq_dropped :: message where
  "msg_irq_dropped = (''VMM|ERROR: IRQ %d dropped on vCPU: 0x%lx'' @ [CHR 0x0A], [T_int, T_int])"

definition msg_unexpected_channel :: "va_ty \<Rightarrow> message" where
  "msg_unexpected_channel t = (''Unexpected channel, ch: 0x%lx'' @ [CHR 0x0A], [t])"

definition msg_unknown_fault :: "va_ty \<Rightarrow> message" where
  "msg_unknown_fault t = (''VMM|ERROR: unknown fault, stopping VM %d'' @ [CHR 0x0A], [t])"

definition msg_smc_get_arg :: message where
  "msg_smc_get_arg = (''VMM|ERROR: trying to get SMC arg: 0x%lx, SMC only has 6 argument registers'' @ [CHR 0x0A],
     [T_long])"

definition msg_smc_set_arg :: message where
  "msg_smc_set_arg = (''VMM|ERROR: trying to set SMC arg: 0x%lx, with val: 0x%lx, SMC only has 6 argument registers'' @ [CHR 0x0A],
     [T_long, T_long])"

definition msg_smc_standard_service :: message where
  "msg_smc_standard_service = (''VMM|ERROR: Unhandled SMC: standard service call %lu'' @ [CHR 0x0A], [T_long])"

definition msg_smc_unknown_service :: message where
  "msg_smc_unknown_service = (''VMM|ERROR: Unhandled SMC: unknown value service: 0x%lx, function number: 0x%lx'' @ [CHR 0x0A],
     [T_int, T_long])"

definition msg_psci_unhandled :: message where
  "msg_psci_unhandled = (''VMM|ERROR: Unhandled PSCI function ID 0x%lx'' @ [CHR 0x0A], [T_long])"

definition msg_unknown_width :: message where
  "msg_unknown_width = (''VMM|ERROR: unknown width: 0x%lx, from FSR: 0x%lx'' @ [CHR 0x0A], [T_int, T_long])"

definition msg_invalid_reg :: message where
  "msg_invalid_reg = (''invalid reg %d'' @ [CHR 0x0A], [T_long])"

definition msg_decode_not_implemented :: message where
  "msg_decode_not_implemented = (''decode_insturction for arm64 not implemented'' @ [CHR 0x0A], [])"

definition msg_maintenance_failed :: message where
  "msg_maintenance_failed = (''VGIC|ERROR: maintenance handler failed (error %d)'', [T_int])"

definition msg_redist_read_unknown :: message where
  "msg_redist_read_unknown = (''VMM|ERROR: Unknown register offset 0x%x'' @ [CHR 0x0A], [T_long])"

definition msg_redist_write_unknown :: message where
  "msg_redist_write_unknown = (''VMM|ERROR: Unknown register offset 0x%x, value: 0x%x'' @ [CHR 0x0A],
     [T_long, T_long])"

definition msg_already_registered :: message where
  "msg_already_registered = (''VMM|ERROR: IRQ %d already registered on VCPU %u'', [T_int, T_long])"

definition msg_load_list_reg_failed :: message where
  "msg_load_list_reg_failed = (''VMM|ERROR: Failure loading vGIC list register (error %d)'', [T_long])"

definition msg_enqueue_failed :: message where
  "msg_enqueue_failed = (''VMM|ERROR: Failure enqueueing IRQ, increase MAX_IRQ_QUEUE_LEN'', [])"

definition msg_dist_read_unknown :: message where
  "msg_dist_read_unknown = (''VMM|ERROR: Unknown register offset 0x%x'', [T_long])"

definition msg_enable_encoding :: message where
  "msg_enable_encoding = (''VMM|ERROR: Unknown enable register encoding'', [])"

definition msg_sgir_filter :: message where
  "msg_sgir_filter = (''VMM|ERROR: Unknow SGIR Target List Filter mode'', [])"

definition msg_dist_write_unknown :: message where
  "msg_dist_write_unknown = (''VMM|ERROR: Unknown register offset 0x%x'', [T_long])"

definition msg_riscv_starting :: message where
  "msg_riscv_starting = (''starting '' @ [CHR 0x22] @ ''%s'' @ [CHR 0x22, CHR 0x0A], [T_str])"

definition msg_riscv_completed_init :: message where
  "msg_riscv_completed_init = (''completed all initialisation'' @ [CHR 0x0A], [])"

definition msg_riscv_starting_vm :: message where
  "msg_riscv_starting_vm = (''starting VM at 0x%lx, DTB at 0x%lx'' @ [CHR 0x0A], [T_int, T_int])"

definition msg_riscv_unknown_fault :: "va_ty \<Rightarrow> message" where
  "msg_riscv_unknown_fault t = (''VMM|ERROR: unknown fault, stopping VM %d'' @ [CHR 0x0A], [t])"

text \<open>
  The messages whose arguments have the types that their conversions read, those that have not, and
  all messages, the types that are declared elsewhere being parameters.
\<close>

definition sound_messages :: "message list" where
  "sound_messages =
     [msg_received_syscall, msg_pa_translation, msg_nop_syscall, msg_unknown_syscall,
      msg_vppi_dropped, msg_vppi_ack_failed, msg_unknown_smc_exception, msg_invalid_instruction,
      msg_unexpected_vm_fault, msg_starting, msg_initialised_gic, msg_register_sgi0_failed,
      msg_register_sgi1_failed, msg_completed_init, msg_starting_guest, msg_smc_get_arg,
      msg_smc_set_arg, msg_smc_standard_service, msg_psci_unhandled, msg_decode_not_implemented,
      msg_maintenance_failed, msg_enqueue_failed, msg_enable_encoding, msg_sgir_filter,
      msg_riscv_starting, msg_riscv_completed_init]"

definition mistyped_messages :: "message list" where
  "mistyped_messages =
     [msg_vppi_event_ack_failed, msg_copying_kernel, msg_copying_dtb, msg_copying_initrd,
      msg_register_vtimer_failed, msg_irq_dropped, msg_smc_unknown_service, msg_unknown_width,
      msg_invalid_reg, msg_redist_read_unknown, msg_redist_write_unknown, msg_already_registered,
      msg_load_list_reg_failed, msg_dist_read_unknown, msg_dist_write_unknown, msg_riscv_starting_vm]"

definition monitor_messages :: "va_ty \<Rightarrow> va_ty \<Rightarrow> va_ty \<Rightarrow> message list" where
  "monitor_messages ch err vm = sound_messages @ mistyped_messages @
     [msg_unexpected_channel ch, msg_read_regs_failed err, msg_unknown_fault vm, msg_riscv_unknown_fault vm]"

definition mistyped :: "va_ty \<Rightarrow> va_ty \<Rightarrow> va_ty \<Rightarrow> message \<Rightarrow> bool" where
  "mistyped ch err vm m \<longleftrightarrow> m \<in> set mistyped_messages \<or> m = msg_unexpected_channel ch \<and> ch \<noteq> T_long \<or>
     m = msg_read_regs_failed err \<and> err \<noteq> T_int \<or>
     m \<in> {msg_unknown_fault vm, msg_riscv_unknown_fault vm} \<and> vm \<noteq> T_int"

section \<open>Passing arguments\<close>

text \<open>An argument of the type it is passed with: an \<^verbatim>\<open>int\<close>, a 64-bit integer or a string.\<close>

fun typed :: "va_ty \<Rightarrow> va \<Rightarrow> bool" where
  "typed T_int (Va_int _) \<longleftrightarrow> True"
| "typed T_long (Va_long _) \<longleftrightarrow> True"
| "typed T_str (Va_str _ _) \<longleftrightarrow> True"
| "typed _ _ \<longleftrightarrow> False"

text \<open>The types a format may ask for when an argument of a type is passed.\<close>

fun accepts :: "va_ty \<Rightarrow> va_ty \<Rightarrow> bool" where
  "accepts t T_int \<longleftrightarrow> t = T_int \<or> t = T_sint"
| "accepts t T_long \<longleftrightarrow> t = T_long \<or> t = T_slong"
| "accepts t T_str \<longleftrightarrow> t = T_str \<or> t = T_ptr"
| "accepts t _ \<longleftrightarrow> False"

fun accepts_all :: "va_ty list \<Rightarrow> va_ty list \<Rightarrow> bool" where
  "accepts_all [] _ \<longleftrightarrow> True"
| "accepts_all (t # ts) (a # as) \<longleftrightarrow> accepts t a \<and> accepts_all ts as"
| "accepts_all _ [] \<longleftrightarrow> False"

definition well_typed :: "message \<Rightarrow> bool" where
  "well_typed m \<longleftrightarrow> (case fmt_types (fst m) of Some ts \<Rightarrow> accepts_all ts (snd m) | None \<Rightarrow> False)"

text \<open>
  Values that their conversions can print: \<^verbatim>\<open>%d\<close> cannot take the smallest \<^verbatim>\<open>int\<close>, nor \<^verbatim>\<open>%s\<close> a null pointer.
\<close>

definition conversions :: "message \<Rightarrow> va_ty list" where
  "conversions m = (case fmt_types (fst m) of Some ts \<Rightarrow> ts | None \<Rightarrow> [])"

definition printable :: "message \<Rightarrow> va list \<Rightarrow> bool" where
  "printable m va \<longleftrightarrow> list_all (\<lambda>(t, v). value_fault t v = None) (zip (conversions m) va)"

lemma typed_fits: "typed a v \<Longrightarrow> fits t v = accepts t a"
  by (cases a; cases v; cases t) auto

lemma check_typed:
  assumes "list_all2 typed as va"
  shows "check_args ts va = Ret () \<longleftrightarrow> accepts_all ts as \<and> list_all (\<lambda>(t, v). value_fault t v = None) (zip ts va)"
    and "list_all (\<lambda>(t, v). value_fault t v = None) (zip ts va) \<Longrightarrow> \<not> accepts_all ts as \<Longrightarrow> check_args ts va = Fault Bad_vararg"
  using assms
proof (induction ts as arbitrary: va rule: accepts_all.induct)
  case (2 t ts a as)
  { case 1
    then obtain v va' where va: "va = v # va'" "typed a v" "list_all2 typed as va'" by (auto simp: list_all2_Cons1)
    show ?case using typed_fits [OF va(2), of t] "2.IH"(1) [OF va(3)] by (auto simp: va(1) split: option.splits) }
  { case 2
    then obtain v va' where va: "va = v # va'" "typed a v" "list_all2 typed as va'" by (auto simp: list_all2_Cons1)
    show ?case using typed_fits [OF va(2), of t] "2.IH"(2) [OF _ _ va(3)] 2(1,2) by (auto simp: va(1) split: option.splits) }
qed auto

lemma typed_no_double: "list_all2 typed as va \<Longrightarrow> Va_double d \<notin> set va"
proof
  assume "list_all2 typed as va" "Va_double d \<in> set va"
  then obtain a where "typed a (Va_double d)" by (auto simp: list_all2_conv_all_nth in_set_conv_nth)
  then show False by (cases a) simp_all
qed

lemma print_typed:
  assumes t: "fmt_types (fst m) = Some ts" and va: "list_all2 typed (snd m) va"
  shows "(\<exists>r. c_printf (fst m) va s = Ret r) \<longleftrightarrow> well_typed m \<and> printable m va"
    and "printable m va \<Longrightarrow> \<not> well_typed m \<Longrightarrow> c_printf (fst m) va s = Fault Bad_vararg"
proof -
  have c: "bind_res (c_printf (fst m) va s) (\<lambda>_. Ret ()) = check_args ts va"
    using c_printf_check [OF t] typed_no_double [OF va] by blast
  have w: "well_typed m \<longleftrightarrow> accepts_all ts (snd m)"
    "printable m va \<longleftrightarrow> list_all (\<lambda>(t, v). value_fault t v = None) (zip ts va)"
    by (simp_all add: well_typed_def printable_def conversions_def t)
  note ct = check_typed [OF va, of ts]
  show "(\<exists>r. c_printf (fst m) va s = Ret r) \<longleftrightarrow> well_typed m \<and> printable m va"
    using c ct(1) unfolding w by (cases "c_printf (fst m) va s") auto
  show "c_printf (fst m) va s = Fault Bad_vararg" if "printable m va" "\<not> well_typed m"
    using c ct(2) that unfolding w by (cases "c_printf (fst m) va s") auto
qed

lemma messages_checked:
  "\<forall>m \<in> set sound_messages. well_typed m" "\<forall>m \<in> set mistyped_messages. fmt_types (fst m) \<noteq> None \<and> \<not> well_typed m"
  by code_simp+

text \<open>
  The messages with arguments of foreign types: the channel has to be 64 bits wide, the error code and
  the number of the virtual machine are read as an \<^verbatim>\<open>int\<close>.
\<close>

lemma foreign_messages:
  "well_typed (msg_unexpected_channel t) \<longleftrightarrow> t = T_long" "well_typed (msg_read_regs_failed t) \<longleftrightarrow> t = T_int"
  "well_typed (msg_unknown_fault t) \<longleftrightarrow> t = T_int" "well_typed (msg_riscv_unknown_fault t) \<longleftrightarrow> t = T_int"
proof -
  let ?all = "[T_int, T_sint, T_long, T_slong, T_ptr, T_str, T_double]"
  have t: "t \<in> set ?all" by (cases t) simp_all
  have "\<forall>t \<in> set ?all. well_typed (msg_unexpected_channel t) = (t = T_long)"
    "\<forall>t \<in> set ?all. well_typed (msg_read_regs_failed t) = (t = T_int)"
    "\<forall>t \<in> set ?all. well_typed (msg_unknown_fault t) = (t = T_int)"
    "\<forall>t \<in> set ?all. well_typed (msg_riscv_unknown_fault t) = (t = T_int)"
    by code_simp+
  with t show "well_typed (msg_unexpected_channel t) \<longleftrightarrow> t = T_long" "well_typed (msg_read_regs_failed t) \<longleftrightarrow> t = T_int"
    "well_typed (msg_unknown_fault t) \<longleftrightarrow> t = T_int" "well_typed (msg_riscv_unknown_fault t) \<longleftrightarrow> t = T_int" by blast+
qed

lemma monitor_messages_typed:
  assumes "m \<in> set (monitor_messages ch err vm)"
  shows "well_typed m \<longleftrightarrow> \<not> mistyped ch err vm m" "fmt_types (fst m) \<noteq> None"
proof -
  have f: "fmt_types (fst (msg_unexpected_channel t)) \<noteq> None" "fmt_types (fst (msg_read_regs_failed t)) \<noteq> None"
    "fmt_types (fst (msg_unknown_fault t)) \<noteq> None" "fmt_types (fst (msg_riscv_unknown_fault t)) \<noteq> None" for t
    using foreign_messages(1) [of T_long] foreign_messages(2-4) [of T_int]
    by (auto simp: well_typed_def msg_unexpected_channel_def msg_read_regs_failed_def msg_unknown_fault_def
        msg_riscv_unknown_fault_def split: option.splits)
  show "fmt_types (fst m) \<noteq> None"
    using assms messages_checked f by (auto simp: monitor_messages_def well_typed_def split: option.splits)
  have bad: "\<not> well_typed m" if "mistyped ch err vm m"
    using that messages_checked(2) foreign_messages unfolding mistyped_def by auto
  have good: "well_typed m" if "\<not> mistyped ch err vm m"
  proof -
    have "m \<in> set sound_messages \<or> m = msg_unexpected_channel T_long \<or> m = msg_read_regs_failed T_int \<or>
        m = msg_unknown_fault T_int \<or> m = msg_riscv_unknown_fault T_int"
      using assms that unfolding monitor_messages_def mistyped_def by auto
    then show ?thesis using messages_checked(1) foreign_messages by auto
  qed
  show "well_typed m \<longleftrightarrow> \<not> mistyped ch err vm m" using bad good by blast
qed

text \<open>
  C18. What becomes of every message of the monitor, for all values of its arguments. The call returns
  exactly if every argument has the width that its conversion reads and every value can be printed
  (\<^verbatim>\<open>%d\<close> fails on the smallest \<^verbatim>\<open>int\<close>, \<^verbatim>\<open>%s\<close> on a null pointer). The widths are wrong in sixteen calls, and
  in the four calls with an argument of a type declared elsewhere exactly if the channel is not 64
  bits wide, or the error code or the number of the virtual machine is not an \<^verbatim>\<open>int\<close>: such a call
  never returns, and fails for the wrong width if the values alone could be printed.
\<close>
theorem messages_print_unless_mistyped:
  assumes "m \<in> set (monitor_messages ch err vm)" "list_all2 typed (snd m) va"
  shows "((\<exists>r. c_printf (fst m) va s = Ret r) \<longleftrightarrow> \<not> mistyped ch err vm m \<and> printable m va) \<and>
    (mistyped ch err vm m \<and> printable m va \<longrightarrow> c_printf (fst m) va s = Fault Bad_vararg)"
proof -
  note t = monitor_messages_typed [OF assms(1)]
  obtain ts where ts: "fmt_types (fst m) = Some ts" using t(2) by blast
  show ?thesis using print_typed [OF ts assms(2), of s] t(1) by blast
qed

theorem messages_print_unless_mistyped_witness:
  "c_printf (fst msg_irq_dropped) [Va_int 33, Va_int 0] \<lparr>out_buf = [], console = [], fct_calls = []\<rparr> = Fault Bad_vararg \<and>
   (\<exists>r. c_printf (fst msg_vppi_dropped) [Va_long 27, Va_int 0] \<lparr>out_buf = [], console = [], fct_calls = []\<rparr> = Ret r) \<and>
   (\<nexists>r. c_printf (fst msg_vppi_dropped) [Va_long 27, Va_int 0x80000000] \<lparr>out_buf = [], console = [], fct_calls = []\<rparr> = Ret r) \<and>
   c_printf (fst (msg_unexpected_channel T_int)) [Va_int 7] \<lparr>out_buf = [], console = [], fct_calls = []\<rparr> = Fault Bad_vararg"
proof -
  let ?s = "\<lparr>out_buf = [], console = [], fct_calls = []\<rparr>"
  let ?all = "monitor_messages T_int T_int T_int" and ?bad = "mistyped T_int T_int T_int"
  have m: "msg_irq_dropped \<in> set ?all" "msg_vppi_dropped \<in> set ?all" "msg_unexpected_channel T_int \<in> set ?all"
    by (simp_all add: monitor_messages_def sound_messages_def mistyped_messages_def)
  have b: "?bad msg_irq_dropped" "?bad (msg_unexpected_channel T_int)" "\<not> ?bad msg_vppi_dropped" by code_simp+
  have t: "list_all2 typed (snd msg_irq_dropped) [Va_int 33, Va_int 0]"
    "list_all2 typed (snd msg_vppi_dropped) [Va_long 27, Va_int n]"
    "list_all2 typed (snd (msg_unexpected_channel T_int)) [Va_int 7]" for n
    by (simp_all add: msg_irq_dropped_def msg_vppi_dropped_def msg_unexpected_channel_def)
  have p: "printable msg_irq_dropped [Va_int 33, Va_int 0]" "printable msg_vppi_dropped [Va_long 27, Va_int 0]"
    "\<not> printable msg_vppi_dropped [Va_long 27, Va_int 0x80000000]" "printable (msg_unexpected_channel T_int) [Va_int 7]"
    by code_simp+
  show ?thesis
    using messages_print_unless_mistyped [OF m(1) t(1), where s = ?s] messages_print_unless_mistyped [OF m(2) t(2), where s = ?s]
      messages_print_unless_mistyped [OF m(3) t(3), where s = ?s] b p by blast
qed

end
