(* ===== verification/Platform.thy ===== *)
theory Platform
  imports Prelude
begin

text \<open>
  What the monitor stands on. The seL4 kernel and the seL4 Core Platform library are not part
  of the repository; they are the parameter \<open>kernel\<close>, a record of functions that give the
  result of each call. A call may depend on everything the monitor has done before, so each
  function takes the list of \<open>event\<close>s so far; the calls that change the world outside the
  monitor are themselves recorded as events, in order, in the field \<open>trace\<close> of the state.

  The theory also holds the register context of the guest's thread and the constants of
  \<^verbatim>\<open>util.h\<close>, and the choice of board that the build makes with \<^verbatim>\<open>-DBOARD_...\<close>.
\<close>

section \<open>Build configuration\<close>

datatype board = Qemu_arm_virt_hyp | Odroidc2 | Imx8mm_evk

datatype gic_version = GIC_V2 | GIC_V3

definition gic_version_of :: "board \<Rightarrow> gic_version" where
  "gic_version_of b = (case b of Imx8mm_evk \<Rightarrow> GIC_V3 | _ \<Rightarrow> GIC_V2)"

definition VM_ID :: u64 where "VM_ID = 1"
definition VCPU_ID :: u64 where "VCPU_ID = 0"
definition NUM_VCPUS :: nat where "NUM_VCPUS = 1"

lemmas util_consts = VM_ID_def VCPU_ID_def NUM_VCPUS_def

section \<open>The guest's registers\<close>

text \<open>
  \<^verbatim>\<open>seL4_UserContext\<close>, in the order in which \<^verbatim>\<open>dump_ctx\<close> prints it. The context has
  \<^verbatim>\<open>0x24\<close> words; \<open>thread_ids\<close> stands for the two that no line of the monitor names.
\<close>

record seL4_UserContext =
  pc :: u64
  sp :: u64
  spsr :: u64
  x0 :: u64
  x1 :: u64
  x2 :: u64
  x3 :: u64
  x4 :: u64
  x5 :: u64
  x6 :: u64
  x7 :: u64
  x8 :: u64
  x16 :: u64
  x17 :: u64
  x18 :: u64
  x29 :: u64
  x30 :: u64
  x9 :: u64
  x10 :: u64
  x11 :: u64
  x12 :: u64
  x13 :: u64
  x14 :: u64
  x15 :: u64
  x19 :: u64
  x20 :: u64
  x21 :: u64
  x22 :: u64
  x23 :: u64
  x24 :: u64
  x25 :: u64
  x26 :: u64
  x27 :: u64
  x28 :: u64
  thread_ids :: "u64 \<times> u64"

text \<open>The context after \<^verbatim>\<open>memzero\<close>.\<close>

definition zero_ctx :: seL4_UserContext where
  "zero_ctx = \<lparr>pc = 0, sp = 0, spsr = 0, x0 = 0, x1 = 0, x2 = 0, x3 = 0, x4 = 0, x5 = 0, x6 = 0,
     x7 = 0, x8 = 0, x16 = 0, x17 = 0, x18 = 0, x29 = 0, x30 = 0, x9 = 0, x10 = 0, x11 = 0,
     x12 = 0, x13 = 0, x14 = 0, x15 = 0, x19 = 0, x20 = 0, x21 = 0, x22 = 0, x23 = 0, x24 = 0,
     x25 = 0, x26 = 0, x27 = 0, x28 = 0, thread_ids = (0, 0)\<rparr>"

section \<open>Calls into seL4 and the Core Platform\<close>

text \<open>The calls that act outside the monitor, with the arguments the monitor passes.\<close>

datatype event =
    Ev_WriteRegisters u64 bool seL4_UserContext  \<comment> \<open>\<^verbatim>\<open>seL4_TCB_WriteRegisters\<close>: VM, resume flag, registers\<close>
  | Ev_InjectIRQ u64 int int int int             \<comment> \<open>\<^verbatim>\<open>sel4cp_arm_vcpu_inject_irq\<close>: VM, IRQ, priority, group, list register\<close>
  | Ev_AckVPPI u64 u64                           \<comment> \<open>\<^verbatim>\<open>sel4cp_arm_vcpu_ack_vppi\<close>: VM, IRQ\<close>
  | Ev_IrqAck u64                                \<comment> \<open>\<^verbatim>\<open>sel4cp_irq_ack\<close>: channel\<close>
  | Ev_Send u64 u64 u64                          \<comment> \<open>\<^verbatim>\<open>seL4_Send\<close>: capability, label and length of the message\<close>
  | Ev_VmRestart u64 u64                         \<comment> \<open>\<^verbatim>\<open>sel4cp_vm_restart\<close>: VM, entry point\<close>
  | Ev_VmStop u64                                \<comment> \<open>\<^verbatim>\<open>sel4cp_vm_stop\<close>: VM\<close>

text \<open>The message registers that the handlers read, by the names libsel4 gives them.\<close>

datatype msg_reg =
    seL4_UnknownSyscall_Syscall | seL4_UnknownSyscall_FaultIP
  | seL4_VPPIEvent_IRQ | seL4_VCPUFault_HSR
  | seL4_UserException_FaultIP | seL4_UserException_Number
  | seL4_VMFault_Addr | seL4_VMFault_FSR | seL4_VMFault_IP | seL4_VMFault_PrefetchFault
  | seL4_VGICMaintenance_IDX

text \<open>The labels of fault messages; any other label is \<open>Other_label\<close>.\<close>

datatype fault_label =
    seL4_Fault_VMFault | seL4_Fault_UnknownSyscall | seL4_Fault_UserException
  | seL4_Fault_VGICMaintenance | seL4_Fault_VCPUFault | seL4_Fault_VPPIEvent
  | Other_label u64

type_synonym seL4_Error = u64

definition seL4_NoError :: seL4_Error where "seL4_NoError = 0"

record kernel =
  k_mr_get :: "event list \<Rightarrow> msg_reg \<Rightarrow> u64"
  k_read_registers :: "event list \<Rightarrow> seL4_Error \<times> seL4_UserContext"
  k_write_registers :: "event list \<Rightarrow> bool \<Rightarrow> seL4_UserContext \<Rightarrow> seL4_Error"
  k_inject_irq :: "event list \<Rightarrow> int \<Rightarrow> int \<Rightarrow> int \<Rightarrow> int \<Rightarrow> seL4_Error"
  k_ack_vppi :: "event list \<Rightarrow> u64 \<Rightarrow> seL4_Error"
  k_msginfo_label :: "u64 \<Rightarrow> fault_label"

text \<open>
  What the monitor relies on, as named hypotheses: the register calls on its own guest succeed,
  a list register accepts an interrupt, a PPI can be acknowledged.
\<close>

definition regs_calls_succeed :: "kernel \<Rightarrow> bool" where
  "regs_calls_succeed K \<longleftrightarrow>
     (\<forall>t. fst (k_read_registers K t) = seL4_NoError) \<and>
     (\<forall>t r c. k_write_registers K t r c = seL4_NoError)"

definition inject_succeeds :: "kernel \<Rightarrow> bool" where
  "inject_succeeds K \<longleftrightarrow> (\<forall>t v p g i. k_inject_irq K t v p g i = seL4_NoError)"

definition ack_succeeds :: "kernel \<Rightarrow> bool" where
  "ack_succeeds K \<longleftrightarrow> (\<forall>t i. k_ack_vppi K t i = seL4_NoError)"

lemma regs_calls_succeedD:
  assumes "regs_calls_succeed K"
  shows "fst (k_read_registers K t) = seL4_NoError" "k_write_registers K t r c = seL4_NoError"
  using assms by (simp_all add: regs_calls_succeed_def)

section \<open>State shared by every component\<close>

text \<open>
  Every component extends this record with its own global variables; \<open>trace\<close> is the sequence
  of calls made so far.
\<close>

record world =
  trace :: "event list"

definition emit :: "event \<Rightarrow> 'a world_scheme \<Rightarrow> 'a world_scheme" where
  "emit e s = s\<lparr>trace := trace s @ [e]\<rparr>"

definition reply_to_fault :: "'a world_scheme \<Rightarrow> 'a world_scheme" where
  "reply_to_fault s = emit (Ev_Send 4 0 0) s"

lemma trace_emit [simp]: "trace (emit e s) = trace s @ [e]"
  by (simp add: emit_def)

lemma trace_reply [simp]: "trace (reply_to_fault s) = trace s @ [Ev_Send 4 0 0]"
  by (simp add: reply_to_fault_def)

section \<open>A kernel for concrete runs\<close>

text \<open>A kernel for concrete runs: every call succeeds, registers and message registers are given.\<close>

definition demo_kernel :: "seL4_UserContext \<Rightarrow> (msg_reg \<Rightarrow> u64) \<Rightarrow> (u64 \<Rightarrow> fault_label) \<Rightarrow> kernel" where
  "demo_kernel c m l = \<lparr>k_mr_get = (\<lambda>_. m), k_read_registers = (\<lambda>_. (seL4_NoError, c)),
     k_write_registers = (\<lambda>_ _ _. seL4_NoError), k_inject_irq = (\<lambda>_ _ _ _ _. seL4_NoError),
     k_ack_vppi = (\<lambda>_ _. seL4_NoError), k_msginfo_label = l\<rparr>"

lemma demo_kernel_succeeds [simp]:
  "regs_calls_succeed (demo_kernel c m l)" "inject_succeeds (demo_kernel c m l)"
  "ack_succeeds (demo_kernel c m l)"
  by (simp_all add: demo_kernel_def regs_calls_succeed_def inject_succeeds_def ack_succeeds_def)

lemma demo_kernel_sel [simp]:
  "k_mr_get (demo_kernel c m l) t = m" "k_read_registers (demo_kernel c m l) t = (seL4_NoError, c)"
  "k_write_registers (demo_kernel c m l) t r c' = seL4_NoError"
  "k_inject_irq (demo_kernel c m l) t v p g i = seL4_NoError"
  "k_ack_vppi (demo_kernel c m l) t j = seL4_NoError"
  "k_msginfo_label (demo_kernel c m l) = l"
  by (simp_all add: demo_kernel_def)

end
