(* ===== verification/Faults.thy ===== *)
theory Faults
  imports Platform
begin

text \<open>
  The instruction emulation of \<^verbatim>\<open>fault.c\<close>: decoding the syndrome of a data abort, the byte lanes of
  the access, the destination register, and advancing the guest past the faulting instruction.
  The one global variable of the file, \<^verbatim>\<open>wzr\<close>, is part of the state.
\<close>

section \<open>Syndrome decoding\<close>

record fault_state = world +
  wzr :: u64

definition HSR_IS_SYNDROME_VALID :: "u64 \<Rightarrow> bool" where
  "HSR_IS_SYNDROME_VALID hsr \<longleftrightarrow> hsr AND push_bit 24 1 \<noteq> 0"

definition HSR_SYNDROME_WIDTH :: "u64 \<Rightarrow> u64" where
  "HSR_SYNDROME_WIDTH x = drop_bit 22 x AND 0x3"

definition HSR_SYNDROME_RT :: "u64 \<Rightarrow> u64" where
  "HSR_SYNDROME_RT x = drop_bit 16 x AND 0x1f"

definition fault_advance_vcpu ::
    "kernel \<Rightarrow> seL4_UserContext \<Rightarrow> 'a world_scheme \<Rightarrow> (bool \<times> 'a world_scheme) res" where
  "fault_advance_vcpu K regs s =
     (let regs' = regs\<lparr>pc := pc regs + 4\<rparr>;
          err = k_write_registers K (trace s) True regs';
          s1 = emit (Ev_WriteRegisters VM_ID True regs') s
      in c_assert (err = seL4_NoError)
           (Ret (err \<noteq> 0, reply_to_fault s1)))"

datatype fault_width = WIDTH_DOUBLEWORD | WIDTH_WORD | WIDTH_HALFWORD | WIDTH_BYTE

definition fault_get_width :: "u64 \<Rightarrow> fault_width res" where
  "fault_get_width fsr =
     (if HSR_IS_SYNDROME_VALID fsr then
        (let w = HSR_SYNDROME_WIDTH fsr in
         if w = 0 then Ret WIDTH_BYTE
         else if w = 1 then Ret WIDTH_HALFWORD
         else if w = 2 then Ret WIDTH_WORD
         else if w = 3 then Ret WIDTH_DOUBLEWORD
         else Fault Assert_failed)
      else Fault Assert_failed)"

definition fault_get_data_mask :: "u64 \<Rightarrow> u64 \<Rightarrow> u64 res" where
  "fault_get_data_mask addr fsr =
     bind_res (fault_get_width fsr) (\<lambda>width.
     bind_res (case width of
         WIDTH_BYTE \<Rightarrow> c_assert (addr AND 0x0 = 0) (Ret 0x000000ff)
       | WIDTH_HALFWORD \<Rightarrow> c_assert (addr AND 0x1 = 0) (Ret 0x0000ffff)
       | WIDTH_WORD \<Rightarrow> c_assert (addr AND 0x3 = 0) (Ret 0xffffffff)
       | WIDTH_DOUBLEWORD \<Rightarrow> Ret (NOT 0)) (\<lambda>mask.
     Ret (push_bit (unat ((addr AND 0x3) * 8)) mask)))"

section \<open>The register operand\<close>

text \<open>
  A pointer into the register context is the pair of a field's selector and update; the last
  pointer is the address of the global \<^verbatim>\<open>wzr\<close>.
\<close>

datatype reg_ptr =
    Reg_ptr "seL4_UserContext \<Rightarrow> u64" "(u64 \<Rightarrow> u64) \<Rightarrow> seL4_UserContext \<Rightarrow> seL4_UserContext"
  | Wzr_ptr

definition decode_rt :: "u64 \<Rightarrow> reg_ptr res" where
  "decode_rt reg =
     (
      if reg = 0 then Ret (Reg_ptr x0 x0_update)
      else if reg = 1 then Ret (Reg_ptr x1 x1_update)
      else if reg = 2 then Ret (Reg_ptr x2 x2_update)
      else if reg = 3 then Ret (Reg_ptr x3 x3_update)
      else if reg = 4 then Ret (Reg_ptr x4 x4_update)
      else if reg = 5 then Ret (Reg_ptr x5 x5_update)
      else if reg = 6 then Ret (Reg_ptr x6 x6_update)
      else if reg = 7 then Ret (Reg_ptr x7 x7_update)
      else if reg = 8 then Ret (Reg_ptr x8 x8_update)
      else if reg = 9 then Ret (Reg_ptr x9 x9_update)
      else if reg = 10 then Ret (Reg_ptr x10 x10_update)
      else if reg = 11 then Ret (Reg_ptr x11 x11_update)
      else if reg = 12 then Ret (Reg_ptr x12 x12_update)
      else if reg = 13 then Ret (Reg_ptr x13 x13_update)
      else if reg = 14 then Ret (Reg_ptr x14 x14_update)
      else if reg = 15 then Ret (Reg_ptr x15 x15_update)
      else if reg = 16 then Ret (Reg_ptr x16 x16_update)
      else if reg = 17 then Ret (Reg_ptr x17 x17_update)
      else if reg = 18 then Ret (Reg_ptr x18 x18_update)
      else if reg = 19 then Ret (Reg_ptr x19 x19_update)
      else if reg = 20 then Ret (Reg_ptr x20 x20_update)
      else if reg = 21 then Ret (Reg_ptr x21 x21_update)
      else if reg = 22 then Ret (Reg_ptr x22 x22_update)
      else if reg = 23 then Ret (Reg_ptr x23 x23_update)
      else if reg = 24 then Ret (Reg_ptr x24 x24_update)
      else if reg = 25 then Ret (Reg_ptr x25 x25_update)
      else if reg = 26 then Ret (Reg_ptr x26 x26_update)
      else if reg = 27 then Ret (Reg_ptr x27 x27_update)
      else if reg = 28 then Ret (Reg_ptr x28 x28_update)
      else if reg = 29 then Ret (Reg_ptr x29 x29_update)
      else if reg = 30 then Ret (Reg_ptr x30 x30_update)
      else if reg = 31 then Ret Wzr_ptr
      else Fault Assert_failed)"

fun ptr_read :: "reg_ptr \<Rightarrow> seL4_UserContext \<Rightarrow> 'a fault_state_scheme \<Rightarrow> u64" where
  "ptr_read (Reg_ptr sel upd) regs s = sel regs"
| "ptr_read Wzr_ptr regs s = wzr s"

fun ptr_write :: "reg_ptr \<Rightarrow> u64 \<Rightarrow> seL4_UserContext \<Rightarrow> 'a fault_state_scheme \<Rightarrow>
    seL4_UserContext \<times> 'a fault_state_scheme" where
  "ptr_write (Reg_ptr sel upd) v regs s = (upd (\<lambda>_. v) regs, s)"
| "ptr_write Wzr_ptr v regs s = (regs, s\<lparr>wzr := v\<rparr>)"

definition fault_is_write :: "u64 \<Rightarrow> bool" where
  "fault_is_write fsr \<longleftrightarrow> fsr AND push_bit 6 1 \<noteq> 0"

definition fault_is_read :: "u64 \<Rightarrow> bool" where
  "fault_is_read fsr \<longleftrightarrow> \<not> fault_is_write fsr"

definition get_rt :: "u64 \<Rightarrow> int res" where
  "get_rt fsr =
     (let rt = (if HSR_IS_SYNDROME_VALID fsr then uint (HSR_SYNDROME_RT fsr) else -1)
      in c_assert (rt \<ge> 0) (Ret rt))"

definition fault_get_data :: "seL4_UserContext \<Rightarrow> u64 \<Rightarrow> 'a fault_state_scheme \<Rightarrow> u64 res" where
  "fault_get_data regs fsr s =
     bind_res (get_rt fsr) (\<lambda>rt.
     bind_res (decode_rt (of_int rt)) (\<lambda>p.
     Ret (ptr_read p regs s)))"

definition fault_emulate :: "u64 \<Rightarrow> u64 \<Rightarrow> u64 \<Rightarrow> u64 \<Rightarrow> u64 res" where
  "fault_emulate reg addr fsr reg_val =
     (let s = unat ((addr AND 0x3) * 8) in
      bind_res (fault_get_data_mask addr fsr) (\<lambda>m.
      if fault_is_read fsr
      then Ret ((reg AND NOT (drop_bit s m)) OR drop_bit s (reg_val AND m))
      else Ret ((reg AND NOT m) OR (push_bit s reg_val AND m))))"

definition fault_advance ::
    "kernel \<Rightarrow> seL4_UserContext \<Rightarrow> u64 \<Rightarrow> u64 \<Rightarrow> u64 \<Rightarrow> 'a fault_state_scheme \<Rightarrow>
     (bool \<times> 'a fault_state_scheme) res" where
  "fault_advance K regs addr fsr reg_val s =
     bind_res (get_rt fsr) (\<lambda>rt.
     bind_res (decode_rt (of_int rt)) (\<lambda>reg_ctx.
     bind_res (fault_emulate (ptr_read reg_ctx regs s) addr fsr reg_val) (\<lambda>v.
     case ptr_write reg_ctx v regs s of (regs', s') \<Rightarrow> fault_advance_vcpu K regs' s')))"

section \<open>Decoding is total on valid syndromes\<close>

lemma HSR_IS_SYNDROME_VALID_iff: "HSR_IS_SYNDROME_VALID x \<longleftrightarrow> bit x 24"
  by (simp only: HSR_IS_SYNDROME_VALID_def and_push_bit_1_eq_0 not_not)

lemma fault_is_write_iff: "fault_is_write x \<longleftrightarrow> bit x 6"
  by (simp only: fault_is_write_def and_push_bit_1_eq_0 not_not)

lemma and_mask_word: "(x :: u64) AND 3 = take_bit 2 x" "x AND 0x1f = take_bit 5 x" "x AND 1 = take_bit 1 x"
  by (simp_all add: take_bit_eq_mask mask_eq_exp_minus_1)

lemma unat_HSR_SYNDROME_WIDTH: "unat (HSR_SYNDROME_WIDTH x) = unat x div 2 ^ 22 mod 4"
  by (simp add: HSR_SYNDROME_WIDTH_def and_mask_word unat_drop_bit_eq drop_bit_eq_div take_bit_eq_mod unat_mod_distrib unat_div_distrib)

lemma unat_HSR_SYNDROME_RT: "unat (HSR_SYNDROME_RT x) = unat x div 2 ^ 16 mod 32"
  by (simp add: HSR_SYNDROME_RT_def and_mask_word unat_drop_bit_eq drop_bit_eq_div take_bit_eq_mod unat_mod_distrib unat_div_distrib)

lemma HSR_SYNDROME_WIDTH_cases:
  "HSR_SYNDROME_WIDTH x = 0 \<or> HSR_SYNDROME_WIDTH x = 1 \<or> HSR_SYNDROME_WIDTH x = 2 \<or> HSR_SYNDROME_WIDTH x = 3"
proof -
  have "unat (HSR_SYNDROME_WIDTH x) < 4"
    unfolding unat_HSR_SYNDROME_WIDTH by simp
  then have "unat (HSR_SYNDROME_WIDTH x) \<in> {0, 1, 2, 3}" by auto
  then show ?thesis by (auto simp: word_unat_eq_iff)
qed

text \<open>The number of bytes an access transfers.\<close>

fun access_bytes :: "fault_width \<Rightarrow> nat" where
  "access_bytes WIDTH_BYTE = 1"
| "access_bytes WIDTH_HALFWORD = 2"
| "access_bytes WIDTH_WORD = 4"
| "access_bytes WIDTH_DOUBLEWORD = 8"

definition syndrome_width :: "u64 \<Rightarrow> fault_width" where
  "syndrome_width fsr = [WIDTH_BYTE, WIDTH_HALFWORD, WIDTH_WORD, WIDTH_DOUBLEWORD] ! unat (HSR_SYNDROME_WIDTH fsr)"

lemma fault_get_width_eq:
  "fault_get_width fsr = (if bit fsr 24 then Ret (syndrome_width fsr) else Fault Assert_failed)"
  using HSR_SYNDROME_WIDTH_cases [of fsr]
  by (auto simp: fault_get_width_def HSR_IS_SYNDROME_VALID_iff syndrome_width_def Let_def)

lemma shift_amount: "unat ((addr AND 3) * 8 :: u64) = 8 * (unat addr mod 4)"
proof -
  have "unat (addr AND 3) = unat addr mod 4"
    by (simp add: and_mask_word take_bit_eq_mod unat_mod_distrib)
  then show ?thesis by (subst unat_mult_lem [THEN iffD1]) auto
qed

definition lane_aligned :: "u64 \<Rightarrow> fault_width \<Rightarrow> bool" where
  "lane_aligned addr w \<longleftrightarrow> w = WIDTH_DOUBLEWORD \<or> unat addr mod access_bytes w = 0"

lemma and_1_eq_0: "(addr :: u64) AND 1 = 0 \<longleftrightarrow> unat addr mod 2 = 0"
  by (simp add: and_mask_word take_bit_eq_mod unat_mod_distrib word_unat_eq_iff)

lemma and_3_eq_0: "(addr :: u64) AND 3 = 0 \<longleftrightarrow> unat addr mod 4 = 0"
  by (simp add: and_mask_word take_bit_eq_mod unat_mod_distrib word_unat_eq_iff)

lemma push_bit_mask_64: "push_bit n (mask 64 :: u64) = NOT (mask n)"
  by (rule bit_word_eqI) (auto simp: bit_simps)

lemma fault_get_data_mask_eq:
  "fault_get_data_mask addr fsr =
     (if bit fsr 24 \<and> lane_aligned addr (syndrome_width fsr)
      then Ret (push_bit (8 * (unat addr mod 4)) (mask (8 * access_bytes (syndrome_width fsr))))
      else Fault Assert_failed)"
proof (cases "syndrome_width fsr")
  case WIDTH_DOUBLEWORD
  then show ?thesis
    by (simp add: fault_get_data_mask_def fault_get_width_eq shift_amount lane_aligned_def
        push_bit_mask_64)
qed (simp_all add: fault_get_data_mask_def fault_get_width_eq shift_amount lane_aligned_def
      and_1_eq_0 and_3_eq_0 c_assert_def mask_eq_exp_minus_1)

section \<open>Byte lanes\<close>

text \<open>An access that stays inside one 32-bit register: the lane starts at bit \<open>lane_shift\<close> and has
  \<open>lane_bits\<close> bits.\<close>

definition lane_shift :: "u64 \<Rightarrow> nat" where
  "lane_shift addr = 8 * (unat addr mod 4)"

definition lane_bits :: "u64 \<Rightarrow> nat" where
  "lane_bits fsr = 8 * access_bytes (syndrome_width fsr)"

definition lane_ok :: "u64 \<Rightarrow> u64 \<Rightarrow> bool" where
  "lane_ok addr fsr \<longleftrightarrow> bit fsr 24 \<and> syndrome_width fsr \<noteq> WIDTH_DOUBLEWORD
     \<and> unat addr mod access_bytes (syndrome_width fsr) = 0"

lemma lane_fits:
  assumes "lane_ok addr fsr"
  shows "lane_shift addr + lane_bits fsr \<le> 32"
proof (cases "syndrome_width fsr")
  case WIDTH_HALFWORD
  with assms have "unat addr mod 2 = 0" by (simp add: lane_ok_def)
  then have "unat addr mod 4 \<le> 2" by presburger
  with WIDTH_HALFWORD show ?thesis by (simp add: lane_shift_def lane_bits_def)
qed (use assms in \<open>simp_all add: lane_ok_def lane_shift_def lane_bits_def\<close>)

lemma lane_mask:
  assumes "lane_ok addr fsr"
  shows "fault_get_data_mask addr fsr = Ret (push_bit (lane_shift addr) (mask (lane_bits fsr)))"
  using assms by (simp add: fault_get_data_mask_eq lane_ok_def lane_aligned_def lane_shift_def lane_bits_def)

lemma bit_lane_mask:
  assumes "lane_ok addr fsr"
  shows "bit (push_bit (lane_shift addr) (mask (lane_bits fsr)) :: u64) i \<longleftrightarrow>
     lane_shift addr \<le> i \<and> i < lane_shift addr + lane_bits fsr"
  using lane_fits [OF assms] by (auto simp: bit_simps)

text \<open>What an emulated store leaves in the register, and an emulated load in the operand, bit by bit.\<close>

lemma fault_emulate_write_bits:
  assumes "lane_ok addr fsr" and "fault_is_write fsr"
  shows "\<exists>v. fault_emulate reg addr fsr data = Ret v \<and>
     (\<forall>i. bit v i \<longleftrightarrow>
        (if lane_shift addr \<le> i \<and> i < lane_shift addr + lane_bits fsr
         then bit data (i - lane_shift addr) else bit reg i))"
proof -
  let ?m = "push_bit (lane_shift addr) (mask (lane_bits fsr)) :: u64"
  let ?v = "(reg AND NOT ?m) OR (push_bit (lane_shift addr) data AND ?m)"
  have "fault_emulate reg addr fsr data = Ret ?v"
    using assms by (simp add: fault_emulate_def lane_mask fault_is_read_def shift_amount lane_shift_def)
  moreover have "\<forall>i. bit ?v i \<longleftrightarrow> (if lane_shift addr \<le> i \<and> i < lane_shift addr + lane_bits fsr
         then bit data (i - lane_shift addr) else bit reg i)"
    unfolding bit_merge bit_lane_mask [OF assms(1)] using lane_fits [OF assms(1)]
    by (auto simp: bit_push_bit_iff)
  ultimately show ?thesis by blast
qed

lemma fault_emulate_read_bits:
  assumes "lane_ok addr fsr" and "fault_is_read fsr"
  shows "\<exists>v. fault_emulate reg addr fsr reg_val = Ret v \<and>
     (\<forall>i. bit v i \<longleftrightarrow>
        (if i < lane_bits fsr then bit reg_val (i + lane_shift addr) else bit reg i))"
proof -
  let ?m = "push_bit (lane_shift addr) (mask (lane_bits fsr)) :: u64"
  let ?v = "(reg AND NOT (drop_bit (lane_shift addr) ?m)) OR
    (drop_bit (lane_shift addr) reg_val AND drop_bit (lane_shift addr) ?m)"
  have "fault_emulate reg addr fsr reg_val = Ret ?v"
    using assms by (simp add: fault_emulate_def lane_mask shift_amount lane_shift_def Let_def)
  moreover have "bit (drop_bit (lane_shift addr) ?m) i \<longleftrightarrow> i < lane_bits fsr" for i
    unfolding bit_drop_bit_eq comp_def bit_lane_mask [OF assms(1)] by simp
  then have "\<forall>i. bit ?v i \<longleftrightarrow> (if i < lane_bits fsr then bit reg_val (i + lane_shift addr) else bit reg i)"
    unfolding bit_merge by (simp add: bit_drop_bit_eq add.commute)
  ultimately show ?thesis by blast
qed

section \<open>The operand pointer\<close>

text \<open>The general registers as an array, the reference against which \<^verbatim>\<open>decode_rt\<close> is checked.\<close>

definition xregs :: "seL4_UserContext \<Rightarrow> u64 list" where
  "xregs c = [x0 c, x1 c, x2 c, x3 c, x4 c, x5 c, x6 c, x7 c, x8 c, x9 c, x10 c, x11 c, x12 c, x13 c, x14 c, x15 c, x16 c, x17 c, x18 c, x19 c, x20 c, x21 c, x22 c, x23 c, x24 c, x25 c, x26 c, x27 c, x28 c, x29 c, x30 c]"

definition nonx :: "seL4_UserContext \<Rightarrow> u64 \<times> u64 \<times> u64 \<times> u64 \<times> u64" where
  "nonx c = (pc c, sp c, spsr c, thread_ids c)"

lemma length_xregs [simp]: "length (xregs c) = 31"
  by (simp add: xregs_def)

lemma decode_rt_reg:
  assumes "unat r \<le> 30"
  shows "\<exists>p. decode_rt r = Ret p \<and> p \<noteq> Wzr_ptr \<and>
     (\<forall>c (s :: 'a fault_state_scheme). ptr_read p c s = xregs c ! unat r) \<and>
     (\<forall>c v (s :: 'a fault_state_scheme). \<exists>c'. ptr_write p v c s = (c', s) \<and>
        xregs c' = (xregs c)[unat r := v] \<and> nonx c' = nonx c)"
proof -
  have upt: "[0..<31] = [0, 1, 2, 3, 4, 5, 6, 7, 8, 9, 10, 11, 12, 13, 14, 15, 16, 17, 18, 19, 20, 21, 22, 23, 24, 25, 26, 27, 28, 29, 30]" by (simp add: upt_rec)
  have "unat r \<in> set [0..<31]" using assms by simp
  then have "r \<in> {0, 1, 2, 3, 4, 5, 6, 7, 8, 9, 10, 11, 12, 13, 14, 15, 16, 17, 18, 19, 20, 21, 22, 23, 24, 25, 26, 27, 28, 29, 30}"
    unfolding upt by (simp add: word_unat_eq_iff)
  then show ?thesis
    by (elim insertE; simp add: decode_rt_def xregs_def nonx_def)
qed

lemma get_rt_valid: "bit fsr 24 \<Longrightarrow> get_rt fsr = Ret (uint (HSR_SYNDROME_RT fsr))"
  by (simp add: get_rt_def HSR_IS_SYNDROME_VALID_iff)

lemma get_rt_invalid: "\<not> bit fsr 24 \<Longrightarrow> get_rt fsr = Fault Assert_failed"
  by (simp add: get_rt_def HSR_IS_SYNDROME_VALID_iff)

lemma decode_rt_31: "unat r = 31 \<Longrightarrow> decode_rt r = Ret Wzr_ptr"
proof -
  assume "unat r = 31"
  then have "r = 31" by (simp add: word_unat_eq_iff)
  then show "decode_rt r = Ret Wzr_ptr" by (simp add: decode_rt_def)
qed

lemma fault_advance_vcpu_eq:
  assumes "regs_calls_succeed K"
  shows "fault_advance_vcpu K regs s = Ret (False, s\<lparr>trace := trace s @
     [Ev_WriteRegisters VM_ID True (regs\<lparr>pc := pc regs + 4\<rparr>), Ev_Send 4 0 0]\<rparr>)"
  using assms by (simp add: fault_advance_vcpu_def regs_calls_succeedD reply_to_fault_def emit_def seL4_NoError_def)

lemma xregs_pc_update [simp]: "xregs (c\<lparr>pc := p\<rparr>) = xregs c"
  by (simp add: xregs_def)

section \<open>Properties\<close>

text \<open>
  C11. A guest store that the monitor emulates on a device register, followed by a guest load of
  the same width from the same address, brings the stored bytes back; the rest of the device
  register and of the destination register keep their contents.
\<close>

theorem emulated_store_load_roundtrip:
  assumes "lane_ok addr fsr_w" and "fault_is_write fsr_w"
    and "lane_ok addr fsr_r" and "fault_is_read fsr_r"
    and "syndrome_width fsr_r = syndrome_width fsr_w"
  shows "\<exists>v x. fault_emulate reg addr fsr_w data = Ret v \<and> fault_emulate old addr fsr_r v = Ret x \<and>
     take_bit (lane_bits fsr_w) x = take_bit (lane_bits fsr_w) data \<and>
     drop_bit (lane_bits fsr_w) x = drop_bit (lane_bits fsr_w) old \<and>
     take_bit (lane_shift addr) v = take_bit (lane_shift addr) reg \<and>
     drop_bit (lane_shift addr + lane_bits fsr_w) v = drop_bit (lane_shift addr + lane_bits fsr_w) reg"
proof -
  have same: "lane_bits fsr_r = lane_bits fsr_w" using assms(5) by (simp add: lane_bits_def)
  from fault_emulate_write_bits [OF assms(1,2)] obtain v
    where v: "fault_emulate reg addr fsr_w data = Ret v"
      "\<And>i. bit v i \<longleftrightarrow> (if lane_shift addr \<le> i \<and> i < lane_shift addr + lane_bits fsr_w
         then bit data (i - lane_shift addr) else bit reg i)" by blast
  from fault_emulate_read_bits [OF assms(3,4)] obtain x
    where x: "fault_emulate old addr fsr_r v = Ret x"
      "\<And>i. bit x i \<longleftrightarrow> (if i < lane_bits fsr_w then bit v (i + lane_shift addr) else bit old i)"
    unfolding same by blast
  have fits: "lane_shift addr + lane_bits fsr_w \<le> 32" by (rule lane_fits [OF assms(1)])
  have "take_bit (lane_bits fsr_w) x = take_bit (lane_bits fsr_w) data"
    using fits by (intro bit_word_eqI) (auto simp: bit_take_bit_iff v(2) x(2))
  moreover have "drop_bit (lane_bits fsr_w) x = drop_bit (lane_bits fsr_w) old"
    by (intro bit_word_eqI) (auto simp: bit_drop_bit_eq x(2))
  moreover have "take_bit (lane_shift addr) v = take_bit (lane_shift addr) reg"
    using fits by (intro bit_word_eqI) (auto simp: bit_take_bit_iff v(2))
  moreover have "drop_bit (lane_shift addr + lane_bits fsr_w) v = drop_bit (lane_shift addr + lane_bits fsr_w) reg"
    by (intro bit_word_eqI) (auto simp: bit_drop_bit_eq v(2))
  ultimately show ?thesis using v(1) x(1) by blast
qed

lemmas lane_eval = lane_ok_def lane_bits_def lane_shift_def syndrome_width_def
  HSR_SYNDROME_WIDTH_def HSR_SYNDROME_RT_def fault_is_read_def fault_is_write_iff

theorem emulated_store_load_roundtrip_witness:
  "\<exists>v x. fault_emulate 0xAABBCCDD 0x8000101 0x1000040 0x7E = Ret v \<and>
     fault_emulate 0 0x8000101 0x1000000 v = Ret x \<and> take_bit 8 x = 0x7E"
  using emulated_store_load_roundtrip [of "0x8000101" "0x1000040" "0x1000000" "0xAABBCCDD" "0x7E" 0]
  by (auto simp: lane_eval)

lemma fault_advance_load_eq:
  assumes "regs_calls_succeed K" and "lane_ok addr fsr" and "fault_is_read fsr"
    and "unat (HSR_SYNDROME_RT fsr) \<le> 30"
  shows "\<exists>v regs'. fault_advance K regs addr fsr reg_val s = Ret (False, s\<lparr>trace := trace s @
        [Ev_WriteRegisters VM_ID True regs', Ev_Send 4 0 0]\<rparr>) \<and>
     xregs regs' = (xregs regs)[unat (HSR_SYNDROME_RT fsr) := v] \<and> pc regs' = pc regs + 4 \<and>
     sp regs' = sp regs \<and> spsr regs' = spsr regs \<and>
     (\<forall>i. bit v i \<longleftrightarrow> (if i < lane_bits fsr then bit reg_val (i + lane_shift addr)
        else bit (xregs regs ! unat (HSR_SYNDROME_RT fsr)) i))"
proof -
  let ?r = "HSR_SYNDROME_RT fsr"
  have valid: "bit fsr 24" using assms(2) by (simp add: lane_ok_def)
  from decode_rt_reg [OF assms(4)] obtain p where p: "decode_rt ?r = Ret p"
    "\<And>c (s :: 'a fault_state_scheme). ptr_read p c s = xregs c ! unat ?r"
    "\<And>c v (s :: 'a fault_state_scheme). \<exists>c'. ptr_write p v c s = (c', s) \<and>
        xregs c' = (xregs c)[unat ?r := v] \<and> nonx c' = nonx c" by blast
  from fault_emulate_read_bits [OF assms(2,3)] obtain v where v:
    "fault_emulate (xregs regs ! unat ?r) addr fsr reg_val = Ret v"
    "\<forall>i. bit v i \<longleftrightarrow> (if i < lane_bits fsr then bit reg_val (i + lane_shift addr)
        else bit (xregs regs ! unat ?r) i)" by blast
  from p(3) obtain c' where c': "ptr_write p v regs s = (c', s)"
    "xregs c' = (xregs regs)[unat ?r := v]" "nonx c' = nonx regs" by blast
  have "fault_advance K regs addr fsr reg_val s = fault_advance_vcpu K c' s"
    using p(1,2) v(1) c'(1) by (simp add: fault_advance_def get_rt_valid [OF valid])
  with v(2) c'(2,3) show ?thesis
    by (intro exI [of _ v] exI [of _ "c'\<lparr>pc := pc c' + 4\<rparr>"])
      (simp add: fault_advance_vcpu_eq [OF assms(1)] nonx_def)
qed

text \<open>
  Emulating a guest load: exactly the operand register receives the selected bytes of the
  value, the guest resumes behind the instruction with these registers, and the fault is answered
  once.
\<close>

lemma fault_advance_load:
  assumes "regs_calls_succeed K" and "lane_ok addr fsr" and "fault_is_read fsr"
    and "unat (HSR_SYNDROME_RT fsr) \<le> 30"
  shows "\<exists>v regs'. fault_advance K regs addr fsr reg_val s = Ret (False, s\<lparr>trace := trace s @
        [Ev_WriteRegisters VM_ID True regs', Ev_Send 4 0 0]\<rparr>) \<and>
     xregs regs' = (xregs regs)[unat (HSR_SYNDROME_RT fsr) := v] \<and> pc regs' = pc regs + 4 \<and>
     sp regs' = sp regs \<and> spsr regs' = spsr regs \<and>
     (\<forall>i. bit v i \<longleftrightarrow> (if i < lane_bits fsr then bit reg_val (i + lane_shift addr)
        else bit (xregs regs ! unat (HSR_SYNDROME_RT fsr)) i))"
  by (rule fault_advance_load_eq [OF assms])

text \<open>
  C39. The zero register is a writable global. After an emulated load whose destination is
  register 31, a later store of register 31 carries the loaded bytes instead of zero.
\<close>

theorem load_to_zero_register_sticks:
  assumes "regs_calls_succeed K" and "lane_ok addr fsr" and "fault_is_read fsr"
    and "unat (HSR_SYNDROME_RT fsr) = 31"
    and "bit fsr' 24" and "unat (HSR_SYNDROME_RT fsr') = 31"
  shows "\<exists>s' w. fault_advance K regs addr fsr reg_val s = Ret (False, s') \<and>
     fault_get_data regs' fsr' s' = Ret w \<and>
     take_bit (lane_bits fsr) w = take_bit (lane_bits fsr) (drop_bit (lane_shift addr) reg_val)"
proof -
  have valid: "bit fsr 24" using assms(2) by (simp add: lane_ok_def)
  from fault_emulate_read_bits [OF assms(2,3)] obtain v where v:
    "fault_emulate (wzr s) addr fsr reg_val = Ret v"
    "\<And>i. bit v i \<longleftrightarrow> (if i < lane_bits fsr then bit reg_val (i + lane_shift addr) else bit (wzr s) i)"
    by blast
  have "take_bit (lane_bits fsr) v = take_bit (lane_bits fsr) (drop_bit (lane_shift addr) reg_val)"
    by (rule bit_word_eqI) (auto simp: bit_take_bit_iff bit_drop_bit_eq v(2) add.commute)
  with v(1) show ?thesis
    by (simp add: fault_advance_def fault_get_data_def get_rt_valid valid assms(5) decode_rt_31
        assms(4,6) fault_advance_vcpu_eq [OF assms(1)])
qed

lemma fault_advance_load_witness:
  "\<exists>v regs'. fault_advance (demo_kernel zero_ctx (\<lambda>_. 0) (\<lambda>_. seL4_Fault_VMFault)) zero_ctx 0x8000004
        0x1850000 0xfce7 \<lparr>trace = [], wzr = 0\<rparr> =
     Ret (False, \<lparr>trace = [Ev_WriteRegisters VM_ID True regs', Ev_Send 4 0 0], wzr = 0\<rparr>) \<and>
     xregs regs' = (xregs zero_ctx)[5 := v] \<and> pc regs' = 4"
proof -
  let ?K = "demo_kernel zero_ctx (\<lambda>_. 0) (\<lambda>_. seL4_Fault_VMFault)"
  let ?s = "\<lparr>trace = [], wzr = 0\<rparr>"
  have "lane_ok 0x8000004 0x1850000" "fault_is_read 0x1850000" "unat (HSR_SYNDROME_RT 0x1850000) \<le> 30"
    and r: "unat (HSR_SYNDROME_RT 0x1850000) = 5" by (simp_all add: lane_eval)
  from fault_advance_load [where K = ?K and regs = zero_ctx and reg_val = "0xfce7" and s = ?s,
      OF demo_kernel_succeeds(1) this(1-3)]
  obtain v regs' where "fault_advance ?K zero_ctx 0x8000004 0x1850000 0xfce7 ?s =
      Ret (False, ?s\<lparr>trace := trace ?s @ [Ev_WriteRegisters VM_ID True regs', Ev_Send 4 0 0]\<rparr>)"
    "xregs regs' = (xregs zero_ctx)[5 := v]" "pc regs' = pc zero_ctx + 4"
    unfolding r by blast
  then show ?thesis by (intro exI [of _ v] exI [of _ regs']) (simp add: zero_ctx_def)
qed

theorem load_to_zero_register_sticks_witness:
  "\<exists>s' w. fault_advance (demo_kernel zero_ctx (\<lambda>_. 0) (\<lambda>_. seL4_Fault_VMFault)) zero_ctx 0x8000004
        0x19f0000 0xfce7 \<lparr>trace = [], wzr = 0\<rparr> = Ret (False, s') \<and>
     fault_get_data zero_ctx 0x19f0040 s' = Ret w \<and> take_bit 32 w = 0xfce7"
proof -
  have "lane_ok 0x8000004 0x19f0000" "fault_is_read 0x19f0000" "unat (HSR_SYNDROME_RT 0x19f0000) = 31"
    "bit (0x19f0040 :: u64) 24" "unat (HSR_SYNDROME_RT 0x19f0040) = 31"
    by (simp_all add: lane_eval)
  from load_to_zero_register_sticks [OF demo_kernel_succeeds(1) this] show ?thesis
    by (force simp: lane_eval)
qed

end
