(* ===== verification/Util.thy ===== *)
theory Util imports Faults Printf_Facts begin

text \<open>
  The output helpers of \<^verbatim>\<open>util/util.h\<close> and \<^verbatim>\<open>util/util.c\<close>: decimal output of a byte, the dump of the
  guest's registers, and the messages of failed assertions. The console is the one of \<open>sink\<close>;
  \<^verbatim>\<open>sel4cp_dbg_puts\<close> and \<^verbatim>\<open>sel4cp_dbg_putc\<close> append to it.
\<close>

section \<open>Decimal output of a byte\<close>

definition sel4cp_dbg_puts :: "string \<Rightarrow> sink \<Rightarrow> sink" where
  "sel4cp_dbg_puts str s = s\<lparr>console := console s @ takeWhile (\<lambda>c. c \<noteq> CHR 0x00) str\<rparr>"

definition decchar :: "u32 \<Rightarrow> char" where
  "decchar v = char_of (48 + unat v)"

text \<open>The loop of \<^verbatim>\<open>put8\<close> over \<^verbatim>\<open>tmp[4]\<close>; \<open>i\<close> is the index of the last character written.\<close>

function put8_loop :: "char list \<Rightarrow> nat \<Rightarrow> u8 \<Rightarrow> (char list \<times> nat) res" where
  "put8_loop tmp i x =
     bind_res (arr_mod tmp (int i - 1) (\<lambda>_. decchar (ucast (x mod 10)))) (\<lambda>tmp.
     if x div 10 \<noteq> 0 then put8_loop tmp (i - 1) (x div 10) else Ret (tmp, i - 1))"
  by pat_completeness auto
termination
  by (relation "measure (\<lambda>(tmp, i, x). i)") (auto simp: arr_mod_eq_Ret)

declare put8_loop.simps [simp del]

definition put8 :: "u8 \<Rightarrow> sink \<Rightarrow> sink res" where
  "put8 x s =
     bind_res (put8_loop (replicate 4 CHR 0x00) 3 x) (\<lambda>(tmp, i).
     Ret (sel4cp_dbg_puts (drop i tmp) s))"

section \<open>Messages\<close>

definition print :: "string \<Rightarrow> va list \<Rightarrow> sink \<Rightarrow> sink res" where
  "print format va s = bind_res (c_printf format va s) (\<lambda>(_, s). Ret s)"

text \<open>
  What \<^verbatim>\<open>assert_fail\<close> prints before it spins for ever. The texts are used as formats, and the line number
  is cut to a byte by the call of \<^verbatim>\<open>put8\<close>.
\<close>

definition assert_fail_output :: "string \<Rightarrow> string \<Rightarrow> u32 \<Rightarrow> string \<Rightarrow> sink \<Rightarrow> sink res" where
  "assert_fail_output assertion file line fn s =
     bind_res (print (''Failed assertion '' @ [CHR 0x27]) [] s) (\<lambda>s.
     bind_res (print assertion [] s) (\<lambda>s.
     bind_res (print (CHR 0x27 # '' at '') [] s) (\<lambda>s.
     bind_res (print file [] s) (\<lambda>s.
     bind_res (print '':'' [] s) (\<lambda>s.
     bind_res (put8 (ucast line) s) (\<lambda>s.
     bind_res (print '' in function '' [] s) (\<lambda>s.
     bind_res (print fn [] s) (\<lambda>s.
     print [CHR 0x0A] [] s))))))))"

text \<open>\<^verbatim>\<open>__assert_func\<close>, the hook of the C library's \<^verbatim>\<open>assert\<close>, prints no line number and spins as well.\<close>

definition assert_func_output :: "string \<Rightarrow> int \<Rightarrow> string \<Rightarrow> string \<Rightarrow> sink \<Rightarrow> sink" where
  "assert_func_output file line fn str s =
     fold sel4cp_dbg_puts [''assert failed: '', str, '' '', file, '' '', fn, [CHR 0x0A]] s"

text \<open>The name of the protection domain decides the number of the monitor.\<close>

definition get_vmm_id :: "string \<Rightarrow> u64 res" where
  "get_vmm_id sel4cp_name =
     bind_res (arr_get (sel4cp_name @ [CHR 0x00]) 4) (\<lambda>c. Ret (of_int (of_char c - 48)))"

section \<open>Register dump\<close>

definition ctx_lines :: "seL4_UserContext \<Rightarrow> (string \<times> u64) list" where
  "ctx_lines ctx =
     [(''    pc:   0x'', pc ctx), (''    sp:   0x'', sp ctx), (''    spsr: 0x'', spsr ctx),
      (''    x0:   0x'', x0 ctx), (''    x1:   0x'', x1 ctx), (''    x2:   0x'', x2 ctx),
      (''    x3:   0x'', x3 ctx), (''    x4:   0x'', x4 ctx), (''    x5:   0x'', x5 ctx),
      (''    x6:   0x'', x6 ctx), (''    x7:   0x'', x7 ctx), (''    x8:   0x'', x8 ctx),
      (''    x16:  0x'', x16 ctx), (''    x17:  0x'', x17 ctx), (''    x18:  0x'', x18 ctx),
      (''    x29:  0x'', x29 ctx), (''    x30:  0x'', x30 ctx), (''    x9:   0x'', x9 ctx),
      (''    x10:  0x'', x10 ctx), (''    x11:  0x'', x11 ctx), (''    x12:  0x'', x12 ctx),
      (''    x13:  0x'', x13 ctx), (''    x14:  0x'', x14 ctx), (''    x15:  0x'', x15 ctx),
      (''    x19:  0x'', x19 ctx), (''    x20:  0x'', x20 ctx), (''    x21:  0x'', x21 ctx),
      (''    x22:  0x'', x22 ctx), (''    x23:  0x'', x23 ctx), (''    x24:  0x'', x24 ctx),
      (''    x25:  0x'', x25 ctx), (''    x26:  0x'', x26 ctx), (''    x27:  0x'', x27 ctx),
      (''    x28:  0x'', x28 ctx)]"

definition dump_ctx :: "seL4_UserContext \<Rightarrow> sink \<Rightarrow> sink res" where
  "dump_ctx ctx s =
     bind_res (print (''TCB registers:'' @ [CHR 0x0A]) [] s) (\<lambda>s.
     for_each (\<lambda>(label, v). print (label @ ''%016lx'' @ [CHR 0x0A]) [Va_long v]) (ctx_lines ctx) s)"

text \<open>\<^verbatim>\<open>LOG_VMM\<close>\<close>

definition LOG_VMM :: "u64 \<Rightarrow> string \<Rightarrow> string \<Rightarrow> va list \<Rightarrow> sink \<Rightarrow> sink res" where
  "LOG_VMM addr sel4cp_name format va s =
     bind_res (print ''%s|INFO: '' [Va_str addr sel4cp_name] s) (print format va)"

section \<open>What is printed\<close>

lemma print_eq:
  "print format va s = bind_res (render format va) (\<lambda>t.
     Ret (s\<lparr>console := console s @ filter (\<lambda>c. c \<noteq> CHR 0x00) t\<rparr>))"
  by (simp add: print_def c_printf_def console.vsnprintf_is_render out_all_console out_char_def bind_res_assoc)

lemma filter_no_nul: "CHR 0x00 \<notin> set t \<Longrightarrow> filter (\<lambda>c. c \<noteq> CHR 0x00) t = t"
  by (induction t) auto

lemma print_literal:
  assumes "CHR ''%'' \<notin> set t" and "CHR 0x00 \<notin> set t"
  shows "print t [] s = Ret (s\<lparr>console := console s @ t\<rparr>)"
  using assms render_literal [OF assms, of "[]" "[]"] by (simp add: print_eq filter_no_nul)

lemma hex16_no_nul: "CHR 0x00 \<notin> set (hex16 w)"
proof -
  have "digit_char 0 d \<noteq> CHR 0x00" if "d < 16" for d
  proof -
    have "\<forall>d \<in> set [0..<16]. digit_char 0 d \<noteq> CHR 0x00" by code_simp
    then show ?thesis using that by simp
  qed
  moreover have "unat (drop_bit (4 * i) w AND 0xF) < 16" for i by (simp add: nibble)
  ultimately have "CHR 0x00 \<noteq> digit_char 0 (unat (drop_bit (4 * i) w AND 0xF))" for i by metis
  then show ?thesis unfolding hex16_def by auto
qed

lemma print_register:
  assumes "CHR ''%'' \<notin> set label" and "CHR 0x00 \<notin> set label"
  shows "print (label @ ''%016lx'' @ [CHR 0x0A]) [Va_long v] s =
    Ret (s\<lparr>console := console s @ label @ hex16 v @ [CHR 0x0A]\<rparr>)"
proof -
  have "render [CHR 0x0A] [] = Ret [CHR 0x0A]" by code_simp
  then have "render (label @ ''%016lx'' @ [CHR 0x0A]) [Va_long v] = Ret (label @ hex16 v @ [CHR 0x0A])"
    using render_literal [OF assms] render_016lx [of "[CHR 0x0A]" v "[]"] by simp
  moreover have "filter (\<lambda>c. c \<noteq> CHR 0x00) (label @ hex16 v @ [CHR 0x0A]) = label @ hex16 v @ [CHR 0x0A]"
    using assms(2) hex16_no_nul [of v] by (simp add: filter_no_nul)
  ultimately show ?thesis by (simp add: print_eq)
qed

text \<open>
  The reference for the dump, from the registers' numbers: first program counter, stack pointer and
  status, then the general registers in the order of \<^verbatim>\<open>seL4_UserContext\<close>, register \<open>n\<close> under the name of
  its number and with the value that \<open>xregs\<close> has at \<open>n\<close>; names are padded to one column.
\<close>

definition dump_order :: "nat list" where
  "dump_order = [0..<9] @ [16, 17, 18, 29, 30] @ [9..<16] @ [19..<29]"

definition x_name :: "nat \<Rightarrow> string" where
  "x_name n = CHR ''x'' # rev (dec_digits n)"

definition dump_line :: "string \<times> u64 \<Rightarrow> string" where
  "dump_line = (\<lambda>(name, v).
     replicate 4 CHR 0x20 @ name @ [CHR 0x3A] @ replicate (5 - length name) CHR 0x20 @ ''0x'' @ hex16 v @ [CHR 0x0A])"

definition dump_regs :: "seL4_UserContext \<Rightarrow> (string \<times> u64) list" where
  "dump_regs ctx = [(''pc'', pc ctx), (''sp'', sp ctx), (''spsr'', spsr ctx)] @
     map (\<lambda>n. (x_name n, xregs ctx ! n)) dump_order"

text \<open>The table that the code runs over agrees with it.\<close>

lemma dump_text:
  "map (\<lambda>(label, v). label @ hex16 v @ [CHR 0x0A]) (ctx_lines ctx) = map dump_line (dump_regs ctx)"
proof -
  let ?head = "\<lambda>name. replicate 4 CHR 0x20 @ name @ [CHR 0x3A] @ replicate (5 - length name) CHR 0x20 @ ''0x''"
  let ?names = "[''pc'', ''sp'', ''spsr''] @ map x_name dump_order"
  let ?vals = "[pc ctx, sp ctx, spsr ctx] @ map ((!) (xregs ctx)) dump_order"
  have d: "dump_order = [0,1,2,3,4,5,6,7,8,16,17,18,29,30,9,10,11,12,13,14,15,19,20,21,22,23,24,25,26,27,28]" by code_simp
  have heads: "map fst (ctx_lines ctx) = map ?head ?names"
  proof -
    have "map fst (ctx_lines ctx) = [''    pc:   0x'', ''    sp:   0x'', ''    spsr: 0x'', ''    x0:   0x'',
        ''    x1:   0x'', ''    x2:   0x'', ''    x3:   0x'', ''    x4:   0x'', ''    x5:   0x'', ''    x6:   0x'',
        ''    x7:   0x'', ''    x8:   0x'', ''    x16:  0x'', ''    x17:  0x'', ''    x18:  0x'', ''    x29:  0x'',
        ''    x30:  0x'', ''    x9:   0x'', ''    x10:  0x'', ''    x11:  0x'', ''    x12:  0x'', ''    x13:  0x'',
        ''    x14:  0x'', ''    x15:  0x'', ''    x19:  0x'', ''    x20:  0x'', ''    x21:  0x'', ''    x22:  0x'',
        ''    x23:  0x'', ''    x24:  0x'', ''    x25:  0x'', ''    x26:  0x'', ''    x27:  0x'', ''    x28:  0x'']"
      by (simp add: ctx_lines_def)
    also have "\<dots> = map ?head ?names" by code_simp
    finally show ?thesis .
  qed
  have vals: "map snd (ctx_lines ctx) = ?vals" unfolding d by (simp add: ctx_lines_def xregs_def)
  have "ctx_lines ctx = zip (map fst (ctx_lines ctx)) (map snd (ctx_lines ctx))" by (rule zip_map_fst_snd [symmetric])
  also have "\<dots> = zip (map ?head ?names) ?vals" unfolding heads vals ..
  finally have "ctx_lines ctx = map (\<lambda>(name, v). (?head name, v)) (zip ?names ?vals)" by (simp only: zip_map1)
  also have "zip ?names ?vals = dump_regs ctx"
    by (simp add: dump_regs_def zip_map_map map_zip_map zip_same_conv_map)
  finally have "ctx_lines ctx = map (\<lambda>(name, v). (?head name, v)) (dump_regs ctx)" .
  then show ?thesis unfolding dump_line_def by (simp only: map_map) (rule map_cong [OF refl], simp add: case_prod_unfold)
qed

text \<open>
  C23. The register dump prints a title and one line for each of the 34 registers: program counter,
  stack pointer, status and then x0 to x8, x16 to x18, x29, x30, x9 to x15, x19 to x28, each with its
  own name and its own value in sixteen hexadecimal digits, most significant first. It never fails.
\<close>
theorem dump_ctx_prints_registers:
  "dump_ctx ctx s = Ret (s\<lparr>console := console s @ ''TCB registers:'' @ [CHR 0x0A] @
     concat (map dump_line (dump_regs ctx))\<rparr>)"
proof -
  have "for_each (\<lambda>(label, v). print (label @ ''%016lx'' @ [CHR 0x0A]) [Va_long v]) ls s =
      Ret (s\<lparr>console := console s @ concat (map (\<lambda>(label, v). label @ hex16 v @ [CHR 0x0A]) ls)\<rparr>)"
    if "\<forall>(label, v) \<in> set ls. CHR ''%'' \<notin> set label \<and> CHR 0x00 \<notin> set label" for ls and s :: sink
    using that
  proof (induction ls arbitrary: s)
    case (Cons l ls)
    then show ?case by (cases l) (simp add: print_register [simplified] del: bind_res_eq_Ret)
  qed simp
  moreover have "\<forall>(label, v) \<in> set (ctx_lines ctx). CHR ''%'' \<notin> set label \<and> CHR 0x00 \<notin> set label"
    by (simp add: ctx_lines_def)
  ultimately show ?thesis by (simp add: dump_ctx_def print_literal dump_text [symmetric])
qed

text \<open>The digits of a byte.\<close>

definition byte_text :: "u8 \<Rightarrow> string" where
  "byte_text x = rev (dec_digits (unat x))"

lemma decchar_digit: "decchar (ucast (x :: u8)) = char_of (48 + unat x)"
proof -
  have "unat x < 2 ^ 32" by (rule less_trans [OF unsigned_less]) simp
  then show ?thesis by (simp add: decchar_def unsigned_ucast_eq take_bit_nat_eq_self)
qed

lemma put8_loop_eq:
  assumes "length (dec_digits (unat x)) \<le> i" and "i \<le> length tmp"
  shows "put8_loop tmp i x =
    (let n = length (dec_digits (unat x)) in Ret (take (i - n) tmp @ rev (dec_digits (unat x)) @ drop i tmp, i - n))"
  using assms
proof (induction tmp i x rule: put8_loop.induct)
  case (1 tmp i x)
  let ?c = "char_of (48 + unat (x mod 10))"
  let ?tmp = "tmp[i - 1 := ?c]"
  have i: "0 < i" using 1(2) by (simp add: dec_digits_def) (metis digits_not_Nil gr0I le_zero_eq length_0_conv)
  have c: "decchar (ucast (x mod 10)) = ?c" by (rule decchar_digit)
  have put: "arr_mod tmp (int i - 1) (\<lambda>_. decchar (ucast (x mod 10))) = Ret ?tmp"
    using i 1(3) by (simp add: arr_mod_def c nat_diff_distrib)
  have tmp: "tmp[i - 1 := b] = take (i - 1) tmp @ b # drop i tmp" for b
    using i 1(3) by (simp add: upd_conv_take_nth_drop)
  have z: "x div 10 = 0 \<longleftrightarrow> unat x < 10"
    by (auto simp: unat_div div_eq_0_iff simp flip: unat_eq_zero)
  show ?case
  proof (cases "unat x < 10")
    case True
    then show ?thesis
      by (subst put8_loop.simps) (simp add: put z tmp [unfolded One_nat_def] dec_digits_small unat_mod)
  next
    case False
    then have d: "dec_digits (unat x) = ?c # dec_digits (unat (x div 10))"
      by (simp add: dec_digits_large unat_mod unat_div)
    have "put8_loop ?tmp (i - 1) (x div 10) =
        (let n = length (dec_digits (unat (x div 10))) in
         Ret (take (i - 1 - n) ?tmp @ rev (dec_digits (unat (x div 10))) @ drop (i - 1) ?tmp, i - 1 - n))"
      using 1(1) [OF put] z False 1(2,3) d by simp
    moreover have "drop (i - 1) ?tmp = ?c # drop i tmp" using i 1(3) unfolding tmp by simp
    ultimately show ?thesis
      using False by (subst put8_loop.simps) (simp add: put z d Let_def)
  qed
qed

text \<open>\<^verbatim>\<open>put8\<close> stays inside its four characters and prints the digits.\<close>

lemma put8_prints: "put8 x s = Ret (s\<lparr>console := console s @ byte_text x\<rparr>)"
proof -
  let ?ds = "dec_digits (unat x)"
  have "unat x < 256" using unsigned_less [of x, where 'a = nat] by simp
  then have len: "length ?ds \<le> 3"
    using digits_length [of 10 "unat x" 2] by (simp add: dec_digits_def)
  have "CHR 0x00 \<notin> set (dec_digits n)" for n
  proof -
    have "\<forall>d \<in> set [0..<10]. char_of (48 + d) \<noteq> CHR 0x00" by code_simp
    then show ?thesis using digits_less [of 10 _ n] by (auto simp: dec_digits_def)
  qed
  then have "takeWhile (\<lambda>c. c \<noteq> CHR 0x00) (rev ?ds @ [CHR 0x00]) = rev ?ds"
    by (simp add: takeWhile_tail) (metis (mono_tags) set_rev takeWhile_eq_all_conv)
  moreover have "put8_loop (replicate 4 CHR 0x00) 3 x =
      Ret (take (3 - length ?ds) (replicate 4 CHR 0x00) @ rev ?ds @ [CHR 0x00], 3 - length ?ds)"
    using put8_loop_eq [of x 3 "replicate 4 CHR 0x00"] len by (simp add: Let_def)
  ultimately show ?thesis by (simp add: put8_def sel4cp_dbg_puts_def byte_text_def)
qed

text \<open>
  What a failed assertion prints, for texts without percent signs: assertion, file and function as
  they are, and as line number the line modulo 256, in decimal.
\<close>
lemma assert_fail_prints:
  assumes "CHR ''%'' \<notin> set (assertion @ file @ fn)" and "CHR 0x00 \<notin> set (assertion @ file @ fn)"
  shows "assert_fail_output assertion file line fn s =
    Ret (s\<lparr>console := console s @ ''Failed assertion '' @ [CHR 0x27] @ assertion @ [CHR 0x27] @ '' at '' @ file @ '':'' @
      rev (dec_digits (unat line mod 256)) @ '' in function '' @ fn @ [CHR 0x0A]\<rparr>)"
proof -
  have "unat (ucast line :: u8) = unat line mod 256" by (simp add: unsigned_ucast_eq take_bit_eq_mod)
  then show ?thesis
    using assms by (simp add: assert_fail_output_def print_literal put8_prints byte_text_def del: bind_res_eq_Ret)
qed

lemma assert_fail_prints_example:
  "assert_fail_output ''irq'' ''vmm.c'' 300 ''init'' \<lparr>out_buf = [], console = [], fct_calls = []\<rparr> =
     Ret \<lparr>out_buf = [], console = ''Failed assertion '' @ [CHR 0x27] @ ''irq'' @ [CHR 0x27] @
       '' at vmm.c:44 in function init'' @ [CHR 0x0A], fct_calls = []\<rparr>"
proof -
  have "dec_digits (300 mod 256) = ''44''" by code_simp
  then show ?thesis
    using assert_fail_prints [of "''irq''" "''vmm.c''" "''init''" 300 "\<lparr>out_buf = [], console = [], fct_calls = []\<rparr>"]
    by simp
qed

end
