(* ===== verification/Vmm_Riscv.thy ===== *)
theory Vmm_Riscv imports Util begin

text \<open>
  The monitor for RISC-V, \<^verbatim>\<open>vmm_riscv.c\<close>: a program of its own that starts its guest and answers no
  fault. Its names carry the prefix \<open>riscv\<close>; the calls into the Core Platform are the events of
  \<open>Platform\<close>. Console output does not touch the state and is left out of the handlers.
\<close>

definition riscv_VM_IMAGE_ENTRY_ADDR :: u32 where "riscv_VM_IMAGE_ENTRY_ADDR = 0x80000000 + 0x80000"

definition riscv_VM_DTB_ADDR :: u32 where "riscv_VM_DTB_ADDR = 0x84000000"

definition riscv_handle_vm_fault :: "'a world_scheme \<Rightarrow> bool \<times> 'a world_scheme" where
  "riscv_handle_vm_fault s = (True, s)"

definition riscv_handle_user_exception :: "u64 \<Rightarrow> 'a world_scheme \<Rightarrow> bool \<times> 'a world_scheme" where
  "riscv_handle_user_exception msginfo s = (True, s)"

definition riscv_handle_vcpu_fault :: "u64 \<Rightarrow> 'a world_scheme \<Rightarrow> bool \<times> 'a world_scheme" where
  "riscv_handle_vcpu_fault msginfo s = (True, s)"

definition riscv_init :: "'a world_scheme \<Rightarrow> 'a world_scheme" where
  "riscv_init s = emit (Ev_VmRestart VM_ID (ucast riscv_VM_IMAGE_ENTRY_ADDR)) s"

definition riscv_notified :: "u64 \<Rightarrow> 'a world_scheme \<Rightarrow> 'a world_scheme" where
  "riscv_notified ch s = s"

definition riscv_fault :: "kernel \<Rightarrow> u64 \<Rightarrow> u64 \<Rightarrow> 'a world_scheme \<Rightarrow> 'a world_scheme" where
  "riscv_fault K vm msginfo s =
     (case k_msginfo_label K msginfo of
        seL4_Fault_VMFault \<Rightarrow> snd (riscv_handle_vm_fault s)
      | seL4_Fault_UserException \<Rightarrow> snd (riscv_handle_user_exception msginfo s)
      | seL4_Fault_VCPUFault \<Rightarrow> snd (riscv_handle_vcpu_fault msginfo s)
      | _ \<Rightarrow> emit (Ev_VmStop vm) s)"

section \<open>Runs\<close>

datatype riscv_step = Riscv_notified u64 | Riscv_fault u64 u64

primrec riscv_step_effect :: "kernel \<Rightarrow> riscv_step \<Rightarrow> 'a world_scheme \<Rightarrow> 'a world_scheme" where
  "riscv_step_effect K (Riscv_notified ch) s = riscv_notified ch s"
| "riscv_step_effect K (Riscv_fault vm msginfo) s = riscv_fault K vm msginfo s"

text \<open>The faults with a handler of their own.\<close>

definition riscv_handled :: "fault_label \<Rightarrow> bool" where
  "riscv_handled l \<longleftrightarrow> l \<in> {seL4_Fault_VMFault, seL4_Fault_UserException, seL4_Fault_VCPUFault}"

lemma riscv_fault_trace:
  "trace (riscv_fault K vm msginfo s) =
     trace s @ (if riscv_handled (k_msginfo_label K msginfo) then [] else [Ev_VmStop vm])"
  by (simp add: riscv_fault_def riscv_handled_def riscv_handle_vm_fault_def riscv_handle_user_exception_def
      riscv_handle_vcpu_fault_def split: fault_label.split)

text \<open>
  C33. In every run of the RISC-V monitor the guest is started once, at its entry point, and after that
  the only calls are stops for the faults without a handler, in order: no fault is ever answered.
\<close>
theorem riscv_run_answers_nothing:
  "trace (fold (riscv_step_effect K) steps (riscv_init s)) =
     trace s @ Ev_VmRestart 1 0x80080000 #
       List.map_filter (\<lambda>st. case st of
           Riscv_fault vm msginfo \<Rightarrow> if riscv_handled (k_msginfo_label K msginfo) then None else Some (Ev_VmStop vm)
         | Riscv_notified ch \<Rightarrow> None) steps"
proof (induction steps rule: rev_induct)
  case Nil
  show ?case
    by (simp add: riscv_init_def VM_ID_def riscv_VM_IMAGE_ENTRY_ADDR_def map_filter_simps)
next
  case (snoc st steps)
  then show ?case
    by (cases st) (simp_all add: map_filter_append map_filter_simps riscv_fault_trace riscv_notified_def)
qed

text \<open>
  The message that announces the start passes two \<^verbatim>\<open>unsigned int\<close> constants for \<^verbatim>\<open>%lx\<close>.
\<close>

lemma riscv_start_message_mistyped:
  "LOG_VMM addr name (''starting VM at 0x%lx, DTB at 0x%lx'' @ [CHR 0x0A])
     [Va_int riscv_VM_IMAGE_ENTRY_ADDR, Va_int riscv_VM_DTB_ADDR] s \<noteq> Ret s'"
proof -
  have "render (''starting VM at 0x'' @ ''%lx, DTB at 0x%lx'' @ [CHR 0x0A]) [Va_int e, Va_int d] = Fault Bad_vararg" for e d
    by (subst render_literal) (simp_all add: lx_needs_long)
  then show ?thesis by (simp add: LOG_VMM_def print_eq)
qed

end
