(* ===== verification/Virq.thy ===== *)
theory Virq
  imports Faults
begin

text \<open>
  \<^verbatim>\<open>virq.h\<close>: the handles of registered interrupts, the table of per-vCPU (SGI, PPI) and of
  shared (SPI) interrupts, the ring buffer of interrupts waiting for a list register, and the
  shadow of the list registers.
\<close>

section \<open>Data\<close>

abbreviation (input) NUM_SGI_VIRQS :: nat where "NUM_SGI_VIRQS \<equiv> 16"
abbreviation (input) NUM_PPI_VIRQS :: nat where "NUM_PPI_VIRQS \<equiv> 16"
abbreviation (input) NUM_VCPU_LOCAL_VIRQS :: nat where "NUM_VCPU_LOCAL_VIRQS \<equiv> 32"
abbreviation (input) NUM_SLOTS_SPI_VIRQ :: nat where "NUM_SLOTS_SPI_VIRQ \<equiv> 200"
abbreviation (input) NUM_LIST_REGS :: nat where "NUM_LIST_REGS \<equiv> 4"
abbreviation (input) MAX_IRQ_QUEUE_LEN :: nat where "MAX_IRQ_QUEUE_LEN \<equiv> 64"
abbreviation (input) VIRQ_INVALID :: int where "VIRQ_INVALID \<equiv> -1"

text \<open>
  The acknowledge functions of the program, the only values a function pointer
  \<^verbatim>\<open>irq_ack_fn_t\<close> takes besides \<^verbatim>\<open>NULL\<close> (\<open>None\<close> in the handle).
\<close>

datatype irq_ack_fn = Vppi_event_ack | Sgi_ack | Serial_ack

record virq_handle =
  virq :: int
  ack_fn :: "irq_ack_fn option"
  ack_data :: u64

text \<open>
  A pointer to a handle points into one of the two tables; \<open>None\<close> is \<^verbatim>\<open>NULL\<close>. The queue
  stores such pointers, so what is read through them is the handle the table holds then.
\<close>

datatype handle_slot = Local_virq nat nat | Spi_slot nat

type_synonym handle_ptr = "handle_slot option"

record irq_queue =
  irqs :: "handle_ptr list"
  head :: u64
  tail :: u64

record vgic_vcpu_t =
  lr_shadow :: "virq_handle list"
  irq_queue :: irq_queue
  local_virqs :: "virq_handle list"

record vgic_t =
  vspis :: "virq_handle list"
  vgic_vcpu :: "vgic_vcpu_t list"

record vgic_state = fault_state +
  vgic :: vgic_t

definition IRQ_QUEUE_NEXT :: "u64 \<Rightarrow> u64" where
  "IRQ_QUEUE_NEXT i = (i + 1) AND 63"

section \<open>Tables\<close>

definition get_vgic_vcpu :: "vgic_t \<Rightarrow> int \<Rightarrow> vgic_vcpu_t res" where
  "get_vgic_vcpu v vcpu_id =
     c_assert (vcpu_id \<ge> 0 \<and> vcpu_id < int (length (vgic_vcpu v)))
       (Ret (vgic_vcpu v ! nat vcpu_id))"

text \<open>Storing back through the pointer that \<^verbatim>\<open>get_vgic_vcpu\<close> returned.\<close>

definition put_vgic_vcpu :: "vgic_t \<Rightarrow> int \<Rightarrow> vgic_vcpu_t \<Rightarrow> vgic_t" where
  "put_vgic_vcpu v vcpu_id c = v\<lparr>vgic_vcpu := (vgic_vcpu v)[nat vcpu_id := c]\<rparr>"

definition deref :: "vgic_t \<Rightarrow> handle_ptr \<Rightarrow> virq_handle res" where
  "deref v p =
     (case p of
        None \<Rightarrow> Fault Null_deref
      | Some (Local_virq c i) \<Rightarrow>
          bind_res (arr_get (vgic_vcpu v) (int c)) (\<lambda>vc. arr_get (local_virqs vc) (int i))
      | Some (Spi_slot i) \<Rightarrow> arr_get (vspis v) (int i))"

text \<open>The three search loops of the file: the first index, counted from \<open>i\<close>, that satisfies \<open>P\<close>.\<close>

fun find_slot :: "('a \<Rightarrow> bool) \<Rightarrow> 'a list \<Rightarrow> nat \<Rightarrow> nat option" where
  "find_slot P [] i = None"
| "find_slot P (h # hs) i = (if P h then Some i else find_slot P hs (Suc i))"

definition virq_get_sgi_ppi :: "vgic_t \<Rightarrow> u64 \<Rightarrow> int \<Rightarrow> handle_ptr res" where
  "virq_get_sgi_ppi v vcpu_id irq =
     bind_res (get_vgic_vcpu v (to_c_int vcpu_id)) (\<lambda>vc.
     c_assert (irq \<ge> 0 \<and> irq < int (length (local_virqs vc)))
       (Ret (Some (Local_virq (nat (to_c_int vcpu_id)) (nat irq)))))"

definition virq_find_spi_irq_data :: "vgic_t \<Rightarrow> int \<Rightarrow> handle_ptr" where
  "virq_find_spi_irq_data v irq =
     map_option Spi_slot (find_slot (\<lambda>h. virq h \<noteq> VIRQ_INVALID \<and> virq h = irq) (vspis v) 0)"

definition virq_find_irq_data :: "vgic_t \<Rightarrow> u64 \<Rightarrow> int \<Rightarrow> handle_ptr res" where
  "virq_find_irq_data v vcpu_id irq =
     (if irq < int NUM_VCPU_LOCAL_VIRQS then virq_get_sgi_ppi v vcpu_id irq
      else Ret (virq_find_spi_irq_data v irq))"

definition virq_spi_add :: "vgic_t \<Rightarrow> virq_handle \<Rightarrow> bool \<times> vgic_t" where
  "virq_spi_add v virq_data =
     (case find_slot (\<lambda>h. virq h = VIRQ_INVALID) (vspis v) 0 of
        Some i \<Rightarrow> (True, v\<lparr>vspis := (vspis v)[i := virq_data]\<rparr>)
      | None \<Rightarrow> (False, v))"

definition virq_sgi_ppi_add :: "u64 \<Rightarrow> vgic_t \<Rightarrow> virq_handle \<Rightarrow> (bool \<times> vgic_t) res" where
  "virq_sgi_ppi_add vcpu_id v virq_data =
     bind_res (get_vgic_vcpu v (to_c_int vcpu_id)) (\<lambda>vc.
     let irq = virq virq_data in
     c_assert (irq \<ge> 0 \<and> irq < int (length (local_virqs vc)))
       (if virq (local_virqs vc ! nat irq) \<noteq> VIRQ_INVALID then Ret (False, v)
        else Ret (True, put_vgic_vcpu v (to_c_int vcpu_id)
               (vc\<lparr>local_virqs := (local_virqs vc)[nat irq := virq_data]\<rparr>))))"

definition virq_add :: "u64 \<Rightarrow> vgic_t \<Rightarrow> virq_handle \<Rightarrow> (bool \<times> vgic_t) res" where
  "virq_add vcpu_id v h =
     (if virq h < int NUM_VCPU_LOCAL_VIRQS then virq_sgi_ppi_add vcpu_id v h
      else Ret (virq_spi_add v h))"

section \<open>The queue of waiting interrupts\<close>

definition queue_push :: "irq_queue \<Rightarrow> handle_ptr \<Rightarrow> (int \<times> irq_queue) res" where
  "queue_push q irq =
     (if IRQ_QUEUE_NEXT (tail q) = head q then Ret (-1, q)
      else bind_res (arr_mod (irqs q) (uint (tail q)) (\<lambda>_. irq)) (\<lambda>a.
           Ret (0, q\<lparr>irqs := a, tail := IRQ_QUEUE_NEXT (tail q)\<rparr>)))"

definition queue_pop :: "irq_queue \<Rightarrow> (handle_ptr \<times> irq_queue) res" where
  "queue_pop q =
     (if head q \<noteq> tail q then
        bind_res (arr_get (irqs q) (uint (head q))) (\<lambda>p.
        Ret (p, q\<lparr>head := IRQ_QUEUE_NEXT (head q)\<rparr>))
      else Ret (None, q))"

definition vgic_irq_enqueue :: "vgic_t \<Rightarrow> u64 \<Rightarrow> handle_ptr \<Rightarrow> (int \<times> vgic_t) res" where
  "vgic_irq_enqueue v vcpu_id irq =
     bind_res (get_vgic_vcpu v (to_c_int vcpu_id)) (\<lambda>vc.
     bind_res (queue_push (irq_queue vc) irq) (\<lambda>(err, q).
     Ret (err, put_vgic_vcpu v (to_c_int vcpu_id) (vc\<lparr>irq_queue := q\<rparr>))))"

definition vgic_irq_dequeue :: "vgic_t \<Rightarrow> u64 \<Rightarrow> (handle_ptr \<times> vgic_t) res" where
  "vgic_irq_dequeue v vcpu_id =
     bind_res (get_vgic_vcpu v (to_c_int vcpu_id)) (\<lambda>vc.
     bind_res (queue_pop (irq_queue vc)) (\<lambda>(p, q).
     Ret (p, put_vgic_vcpu v (to_c_int vcpu_id) (vc\<lparr>irq_queue := q\<rparr>))))"

section \<open>List registers\<close>

definition vgic_find_empty_list_reg :: "vgic_t \<Rightarrow> u64 \<Rightarrow> int res" where
  "vgic_find_empty_list_reg v vcpu_id =
     bind_res (get_vgic_vcpu v (to_c_int vcpu_id)) (\<lambda>vc.
     Ret (case find_slot (\<lambda>h. virq h = VIRQ_INVALID) (lr_shadow vc) 0 of
            Some i \<Rightarrow> int i
          | None \<Rightarrow> -1))"

definition vgic_vcpu_load_list_reg ::
    "kernel \<Rightarrow> u64 \<Rightarrow> int \<Rightarrow> int \<Rightarrow> handle_ptr \<Rightarrow> 'a vgic_state_scheme \<Rightarrow>
     (bool \<times> 'a vgic_state_scheme) res" where
  "vgic_vcpu_load_list_reg K vcpu_id idx grp p s =
     bind_res (get_vgic_vcpu (vgic s) (to_c_int vcpu_id)) (\<lambda>vc.
     c_assert (idx \<ge> 0 \<and> idx < int (length (lr_shadow vc)))
       (bind_res (deref (vgic s) p) (\<lambda>h.
        let err = k_inject_irq K (trace s) (virq h) 0 grp idx;
            s1 = emit (Ev_InjectIRQ VM_ID (virq h) 0 grp idx) s
        in c_assert (err = seL4_NoError)
             (if err \<noteq> 0 then Ret (False, s1)
              else Ret (True, s1\<lparr>vgic := put_vgic_vcpu (vgic s1) (to_c_int vcpu_id)
                     (vc\<lparr>lr_shadow := (lr_shadow vc)[nat idx := h]\<rparr>)\<rparr>)))))"

section \<open>The bounded queue\<close>

text \<open>The contents of the ring buffer, oldest first.\<close>

definition queue_len :: "irq_queue \<Rightarrow> nat" where
  "queue_len q = (unat (tail q) + 64 - unat (head q)) mod 64"

definition queue_list :: "irq_queue \<Rightarrow> handle_ptr list" where
  "queue_list q = map (\<lambda>i. irqs q ! ((unat (head q) + i) mod 64)) [0..<queue_len q]"

definition wf_queue :: "irq_queue \<Rightarrow> bool" where
  "wf_queue q \<longleftrightarrow> length (irqs q) = 64 \<and> unat (head q) < 64 \<and> unat (tail q) < 64"

lemma unat_IRQ_QUEUE_NEXT: "unat (IRQ_QUEUE_NEXT i) = (unat i + 1) mod 64"
proof -
  have "IRQ_QUEUE_NEXT i = take_bit 6 (i + 1)"
    by (simp add: IRQ_QUEUE_NEXT_def take_bit_eq_mask mask_eq_exp_minus_1)
  then have "unat (IRQ_QUEUE_NEXT i) = unat (i + 1) mod 64"
    by (simp add: take_bit_eq_mod unat_mod_distrib)
  also have "\<dots> = (unat i + 1) mod 64"
    by (simp add: unat_word_ariths mod_mod_cancel)
  finally show ?thesis .
qed

lemma length_queue_list [simp]: "length (queue_list q) = queue_len q"
  by (simp add: queue_list_def)

lemma queue_len_less: "queue_len q < 64"
  by (simp add: queue_len_def)

lemma ring_len_succ_tail:
  fixes h t :: nat
  assumes "h < 64" "t < 64" "(t + 1) mod 64 \<noteq> h"
  shows "((t + 1) mod 64 + 64 - h) mod 64 = Suc ((t + 64 - h) mod 64)"
  using assms by (auto simp: mod_if split: if_splits)

lemma ring_len_succ_head:
  fixes h t :: nat
  assumes "h < 64" "t < 64" "h \<noteq> t"
  shows "(t + 64 - h) mod 64 = Suc ((t + 64 - (h + 1) mod 64) mod 64)"
  using assms by (auto simp: mod_if split: if_splits)

lemma ring_index_tail:
  fixes h t :: nat
  assumes "h < 64" "t < 64"
  shows "(h + (t + 64 - h) mod 64) mod 64 = t"
  using assms by (auto simp: mod_if)

lemma ring_index_neq_tail:
  fixes h t :: nat
  assumes "h < 64" "t < 64" "i < (t + 64 - h) mod 64"
  shows "t \<noteq> (h + i) mod 64"
proof -
  have len: "(t + 64 - h) mod 64 = (if h \<le> t then t - h else t + 64 - h)"
    using assms(1,2) by (auto simp: mod_if)
  have "i < 64" using assms(3) mod_less_divisor [of 64 "t + 64 - h"] by linarith
  then have "(h + i) mod 64 = (if h + i < 64 then h + i else h + i - 64)"
    using assms(1) by (simp add: le_mod_geq)
  with assms len show ?thesis by (auto split: if_splits)
qed

lemma queue_push_full:
  assumes "wf_queue q" and "queue_len q = 63"
  shows "queue_push q p = Ret (-1, q)"
proof -
  have "(unat (tail q) + 1) mod 64 = unat (head q)"
    using assms by (auto simp: wf_queue_def queue_len_def mod_if split: if_splits)
  then have "IRQ_QUEUE_NEXT (tail q) = head q"
    by (simp add: word_unat_eq_iff unat_IRQ_QUEUE_NEXT)
  then show ?thesis by (simp add: queue_push_def)
qed

lemma queue_push_room:
  assumes wf: "wf_queue q" and "queue_len q < 63"
  shows "\<exists>q'. queue_push q p = Ret (0, q') \<and> wf_queue q' \<and> queue_list q' = queue_list q @ [p]"
proof -
  let ?h = "unat (head q)" and ?t = "unat (tail q)"
  let ?q = "q\<lparr>irqs := (irqs q)[?t := p], tail := IRQ_QUEUE_NEXT (tail q)\<rparr>"
  have ht: "?h < 64" "?t < 64" and len: "length (irqs q) = 64" using wf by (simp_all add: wf_queue_def)
  have room: "(?t + 1) mod 64 \<noteq> ?h"
    using assms ht by (auto simp: queue_len_def mod_if split: if_splits)
  then have "IRQ_QUEUE_NEXT (tail q) \<noteq> head q"
    by (simp add: word_unat_eq_iff unat_IRQ_QUEUE_NEXT)
  then have "queue_push q p = Ret (0, ?q)"
    using ht len by (simp add: queue_push_def)
  moreover have "wf_queue ?q" using ht len by (simp add: wf_queue_def unat_IRQ_QUEUE_NEXT)
  moreover have "queue_len ?q = Suc (queue_len q)"
    using ring_len_succ_tail [OF ht room] by (simp add: queue_len_def unat_IRQ_QUEUE_NEXT)
  then have "queue_list ?q = queue_list q @ [p]"
    using ht len ring_index_tail [OF ht] ring_index_neq_tail [OF ht]
    by (auto simp: queue_list_def queue_len_def)
  ultimately show ?thesis by blast
qed

lemma queue_pop_empty:
  assumes "wf_queue q" and "queue_list q = []"
  shows "queue_pop q = Ret (None, q)"
proof -
  have "queue_len q = 0" using assms(2) length_queue_list [of q] by simp
  then have "unat (head q) = unat (tail q)"
    using assms(1) by (auto simp: wf_queue_def queue_len_def mod_if split: if_splits)
  then show ?thesis by (simp add: queue_pop_def word_unat_eq_iff)
qed

lemma queue_pop_cons:
  assumes wf: "wf_queue q" and cons: "queue_list q = p # ps"
  shows "\<exists>q'. queue_pop q = Ret (p, q') \<and> wf_queue q' \<and> queue_list q' = ps"
proof -
  let ?h = "unat (head q)" and ?t = "unat (tail q)"
  let ?q = "q\<lparr>head := IRQ_QUEUE_NEXT (head q)\<rparr>"
  have ht: "?h < 64" "?t < 64" and len: "length (irqs q) = 64" using wf by (simp_all add: wf_queue_def)
  have "queue_len q \<noteq> 0" using cons length_queue_list [of q] by auto
  then have neq: "?h \<noteq> ?t" using ht by (auto simp: queue_len_def)
  have lens: "queue_len q = Suc (queue_len ?q)"
    using ring_len_succ_head [OF ht neq] by (simp add: queue_len_def unat_IRQ_QUEUE_NEXT)
  have "queue_list q = irqs q ! ?h # queue_list ?q"
    unfolding queue_list_def lens using ht
    by (simp add: map_upt_Suc unat_IRQ_QUEUE_NEXT mod_add_left_eq del: upt_Suc)
  with cons have "p = irqs q ! ?h" "queue_list ?q = ps" by simp_all
  moreover have "queue_pop q = Ret (irqs q ! ?h, ?q)"
    using neq ht len by (auto simp: queue_pop_def)
  moreover have "wf_queue ?q" using ht len by (simp add: wf_queue_def unat_IRQ_QUEUE_NEXT)
  ultimately show ?thesis by blast
qed

section \<open>The contract of a bounded FIFO\<close>

datatype 'a queue_op = Push 'a | Pop
datatype 'a queue_obs = Pushed int | Popped 'a

text \<open>The reference: a list that never holds more than \<open>n\<close> elements.\<close>

fun fifo_run :: "nat \<Rightarrow> 'a \<Rightarrow> 'a list \<Rightarrow> 'a queue_op list \<Rightarrow> 'a queue_obs list \<times> 'a list" where
  "fifo_run n d xs [] = ([], xs)"
| "fifo_run n d xs (Push x # ops) =
     (let r = (if length xs < n then 0 else -1);
          (obs, ys) = fifo_run n d (if length xs < n then xs @ [x] else xs) ops
      in (Pushed r # obs, ys))"
| "fifo_run n d xs (Pop # ops) =
     (let (obs, ys) = fifo_run n d (tl xs) ops
      in (Popped (if xs = [] then d else hd xs) # obs, ys))"

text \<open>The code: the same operations one after the other, stopping at an error.\<close>

fun queue_run :: "('q \<Rightarrow> 'a \<Rightarrow> (int \<times> 'q) res) \<Rightarrow> ('q \<Rightarrow> ('a \<times> 'q) res) \<Rightarrow> 'q \<Rightarrow> 'a queue_op list \<Rightarrow>
    ('a queue_obs list \<times> 'q) res" where
  "queue_run push pop q [] = Ret ([], q)"
| "queue_run push pop q (Push x # ops) =
     bind_res (push q x) (\<lambda>(r, q1).
     bind_res (queue_run push pop q1 ops) (\<lambda>(obs, q2). Ret (Pushed r # obs, q2)))"
| "queue_run push pop q (Pop # ops) =
     bind_res (pop q) (\<lambda>(x, q1).
     bind_res (queue_run push pop q1 ops) (\<lambda>(obs, q2). Ret (Popped x # obs, q2)))"

locale bounded_fifo =
  fixes push :: "'q \<Rightarrow> 'a \<Rightarrow> (int \<times> 'q) res"
    and pop :: "'q \<Rightarrow> ('a \<times> 'q) res"
    and contents :: "'q \<Rightarrow> 'a list"
    and invar :: "'q \<Rightarrow> bool"
    and null :: 'a
    and capacity :: nat
  assumes push_room: "invar q \<Longrightarrow> length (contents q) < capacity \<Longrightarrow>
      \<exists>q'. push q x = Ret (0, q') \<and> invar q' \<and> contents q' = contents q @ [x]"
    and push_full: "invar q \<Longrightarrow> length (contents q) = capacity \<Longrightarrow> push q x = Ret (-1, q)"
    and pop_empty: "invar q \<Longrightarrow> contents q = [] \<Longrightarrow> pop q = Ret (null, q)"
    and pop_cons: "invar q \<Longrightarrow> contents q = x # xs \<Longrightarrow>
      \<exists>q'. pop q = Ret (x, q') \<and> invar q' \<and> contents q' = xs"
    and within_capacity: "invar q \<Longrightarrow> length (contents q) \<le> capacity"
begin

lemma push_refines:
  assumes "invar q"
  shows "\<exists>q'. push q x = Ret (if length (contents q) < capacity then 0 else -1, q') \<and> invar q' \<and>
    contents q' = (if length (contents q) < capacity then contents q @ [x] else contents q)"
proof (cases "length (contents q) < capacity")
  case True
  with push_room [OF assms] show ?thesis by simp
next
  case False
  with within_capacity [OF assms] have "length (contents q) = capacity" by simp
  with push_full [OF assms] assms show ?thesis by simp
qed

lemma pop_refines:
  assumes "invar q"
  shows "\<exists>q'. pop q = Ret (if contents q = [] then null else hd (contents q), q') \<and> invar q' \<and>
    contents q' = tl (contents q)"
  using assms pop_empty [OF assms] pop_cons [OF assms] by (cases "contents q") auto

lemma run_refines:
  "invar q \<Longrightarrow> \<exists>q'. queue_run push pop q ops = Ret (fst (fifo_run capacity null (contents q) ops), q') \<and>
     invar q' \<and> contents q' = snd (fifo_run capacity null (contents q) ops)"
proof (induction ops arbitrary: q)
  case Nil
  then show ?case by simp
next
  case (Cons oper ops)
  show ?case
  proof (cases oper)
    case (Push x)
    obtain q1 where q1: "push q x = Ret (if length (contents q) < capacity then 0 else -1, q1)" "invar q1"
      "contents q1 = (if length (contents q) < capacity then contents q @ [x] else contents q)"
      using push_refines [OF Cons.prems] by blast
    from Cons.IH [OF q1(2)] q1 Push show ?thesis by (auto simp: split_beta Let_def)
  next
    case Pop
    obtain q1 where q1: "pop q = Ret (if contents q = [] then null else hd (contents q), q1)" "invar q1"
      "contents q1 = tl (contents q)"
      using pop_refines [OF Cons.prems] by blast
    from Cons.IH [OF q1(2)] q1 Pop show ?thesis by (auto simp: split_beta Let_def)
  qed
qed

end

interpretation irq_fifo: bounded_fifo queue_push queue_pop queue_list wf_queue None 63
proof unfold_locales
  fix q assume "wf_queue q"
  show "length (queue_list q) \<le> 63" using queue_len_less [of q] by simp
qed (simp_all add: queue_push_room queue_push_full queue_pop_empty queue_pop_cons)

text \<open>
  C6. The ring buffer of waiting interrupts is a bounded first-in first-out queue: from any
  well-formed buffer, every sequence of \<^verbatim>\<open>vgic_irq_enqueue\<close> and \<^verbatim>\<open>vgic_irq_dequeue\<close> steps
  returns, never indexes outside the array, gives the same answers (0 or -1, a handle or
  \<^verbatim>\<open>NULL\<close>) as a list of at most 63 elements, and leaves the contents of that list.
\<close>

theorem irq_queue_refines_fifo:
  assumes "wf_queue q"
  shows "\<exists>q'. queue_run queue_push queue_pop q ops = Ret (fst (fifo_run 63 None (queue_list q) ops), q') \<and>
    wf_queue q' \<and> queue_list q' = snd (fifo_run 63 None (queue_list q) ops)"
  by (rule irq_fifo.run_refines [OF assms])

text \<open>As a witness, a queue at the end of the ring.\<close>
theorem irq_queue_refines_fifo_witness:
  "\<exists>q'. queue_run queue_push queue_pop \<lparr>irqs = replicate 64 None, head = 63, tail = 63\<rparr>
       [Push (Some (Spi_slot 7)), Push (Some (Spi_slot 9)), Pop, Pop, Pop] =
     Ret ([Pushed 0, Pushed 0, Popped (Some (Spi_slot 7)), Popped (Some (Spi_slot 9)), Popped None], q')"
proof -
  let ?q = "\<lparr>irqs = replicate 64 None, head = 63, tail = 63\<rparr>"
  have "wf_queue ?q" "queue_list ?q = []" by (simp_all add: wf_queue_def queue_list_def queue_len_def)
  with irq_queue_refines_fifo [of ?q "[Push (Some (Spi_slot 7)), Push (Some (Spi_slot 9)), Pop, Pop, Pop]"]
  show ?thesis by auto
qed

section \<open>Well-formedness of the interrupt state\<close>

definition wf_vcpu :: "vgic_vcpu_t \<Rightarrow> bool" where
  "wf_vcpu c \<longleftrightarrow> length (lr_shadow c) = NUM_LIST_REGS \<and> wf_queue (irq_queue c) \<and>
     length (local_virqs c) = NUM_VCPU_LOCAL_VIRQS \<and>
     (\<forall>i < NUM_VCPU_LOCAL_VIRQS. virq (local_virqs c ! i) = VIRQ_INVALID \<or> virq (local_virqs c ! i) = int i)"

definition wf_vgic :: "vgic_t \<Rightarrow> bool" where
  "wf_vgic v \<longleftrightarrow> length (vspis v) = NUM_SLOTS_SPI_VIRQ \<and>
     (\<forall>h \<in> set (vspis v). virq h = VIRQ_INVALID \<or> int NUM_VCPU_LOCAL_VIRQS \<le> virq h) \<and>
     length (vgic_vcpu v) = NUM_VCPUS \<and> wf_vcpu (vgic_vcpu v ! 0)"

text \<open>The interrupt context of the only vCPU.\<close>

definition vcpu0 :: "vgic_t \<Rightarrow> vgic_vcpu_t" where
  "vcpu0 v = vgic_vcpu v ! 0"

definition put_vcpu0 :: "vgic_t \<Rightarrow> vgic_vcpu_t \<Rightarrow> vgic_t" where
  "put_vcpu0 v c = v\<lparr>vgic_vcpu := [c]\<rparr>"

lemma to_c_int_VCPU_ID [simp]: "to_c_int VCPU_ID = 0"
  by (simp add: to_c_int_def VCPU_ID_def)

lemma wf_vgic_get [simp]: "wf_vgic v \<Longrightarrow> get_vgic_vcpu v 0 = Ret (vcpu0 v)"
  by (simp add: wf_vgic_def get_vgic_vcpu_def NUM_VCPUS_def vcpu0_def)

lemma wf_vgic_put [simp]: "wf_vgic v \<Longrightarrow> put_vgic_vcpu v 0 c = put_vcpu0 v c"
  by (cases "vgic_vcpu v") (auto simp: wf_vgic_def put_vgic_vcpu_def NUM_VCPUS_def put_vcpu0_def)

lemma put_vcpu0_sel [simp]:
  "vcpu0 (put_vcpu0 v c) = c" "vspis (put_vcpu0 v c) = vspis v"
  "put_vcpu0 (put_vcpu0 v c) d = put_vcpu0 v d" "vspis_update f (put_vcpu0 v c) = put_vcpu0 (vspis_update f v) c"
  by (simp_all add: put_vcpu0_def vcpu0_def)

lemma put_vcpu0_same [simp]: "wf_vgic v \<Longrightarrow> put_vcpu0 v (vcpu0 v) = v"
  by (cases "vgic_vcpu v") (auto simp: wf_vgic_def NUM_VCPUS_def put_vcpu0_def vcpu0_def)

lemma vcpu0_vspis_update [simp]: "vcpu0 (vspis_update f v) = vcpu0 v"
  by (simp add: vcpu0_def)

lemma wf_vgic_vcpu0: "wf_vgic v \<Longrightarrow> wf_vcpu (vcpu0 v)"
  by (simp add: wf_vgic_def vcpu0_def)

lemma wf_vgic_put_vcpu0: "wf_vgic v \<Longrightarrow> wf_vcpu c \<Longrightarrow> wf_vgic (put_vcpu0 v c)"
  by (simp add: wf_vgic_def put_vcpu0_def NUM_VCPUS_def)

lemma deref_simps:
  "wf_vgic v \<Longrightarrow> i < 32 \<Longrightarrow> deref v (Some (Local_virq 0 i)) = Ret (local_virqs (vcpu0 v) ! i)"
  "wf_vgic v \<Longrightarrow> i < 200 \<Longrightarrow> deref v (Some (Spi_slot i)) = Ret (vspis v ! i)"
  "deref v None = Fault Null_deref"
  by (auto simp: deref_def wf_vgic_def wf_vcpu_def NUM_VCPUS_def vcpu0_def)

lemma wf_vcpu_local:
  assumes "wf_vcpu c" and "0 \<le> i" and "i < 32"
  shows "virq (local_virqs c ! nat i) = VIRQ_INVALID \<or> virq (local_virqs c ! nat i) = i"
proof -
  have "nat i < 32" using assms(3) by simp
  with assms(1) have "virq (local_virqs c ! nat i) = VIRQ_INVALID \<or> virq (local_virqs c ! nat i) = int (nat i)"
    unfolding wf_vcpu_def by blast
  with assms(2) show ?thesis by simp
qed

section \<open>The search loops\<close>

lemma find_slot_SomeD:
  "find_slot P xs i = Some k \<Longrightarrow> i \<le> k \<and> k < i + length xs \<and> P (xs ! (k - i)) \<and> (\<forall>j < k - i. \<not> P (xs ! j))"
proof (induction xs arbitrary: i)
  case Nil
  then show ?case by simp
next
  case (Cons x xs)
  show ?case
  proof (cases "P x")
    case True
    with Cons.prems show ?thesis by simp
  next
    case False
    with Cons.prems have k: "find_slot P xs (Suc i) = Some k" by simp
    note IH = Cons.IH [OF k]
    then have "k - i = Suc (k - Suc i)" by linarith
    with IH False show ?thesis by (auto simp: nth_Cons split: nat.splits)
  qed
qed

lemma find_slot_None_iff: "find_slot P xs i = None \<longleftrightarrow> (\<forall>x \<in> set xs. \<not> P x)"
  by (induction xs arbitrary: i) (auto split: if_splits)

lemma find_slot_ex: "x \<in> set xs \<Longrightarrow> P x \<Longrightarrow> \<exists>k. find_slot P xs i = Some k"
  using find_slot_None_iff by (metis not_None_eq)

lemma find_slot_upd_irrel:
  "\<not> P (xs ! j) \<Longrightarrow> \<not> P h \<Longrightarrow> find_slot P (xs[j := h]) i = find_slot P xs i"
  by (induction xs arbitrary: i j) (auto split: nat.splits)

lemma find_slot_upd_new:
  "find_slot P xs i = None \<Longrightarrow> j < length xs \<Longrightarrow> P h \<Longrightarrow> find_slot P (xs[j := h]) i = Some (i + j)"
  by (induction xs arbitrary: i j) (auto split: nat.splits if_splits)

section \<open>The contract of the handle table\<close>

text \<open>The handle registered for an interrupt, as the code looks it up.\<close>

definition registered :: "vgic_t \<Rightarrow> u64 \<Rightarrow> int \<Rightarrow> virq_handle option" where
  "registered v vcpu_id irq =
     (case bind_res (virq_find_irq_data v vcpu_id irq) (deref v) of
        Fault e \<Rightarrow> None
      | Ret h \<Rightarrow> if virq h = VIRQ_INVALID then None else Some h)"

definition spi_free :: "vgic_t \<Rightarrow> nat" where
  "spi_free v = length (filter (\<lambda>h. virq h = VIRQ_INVALID) (vspis v))"

lemma registered_local:
  assumes "wf_vgic v" and "0 \<le> irq" and "irq < 32"
  shows "registered v VCPU_ID irq =
    (let h = local_virqs (vcpu0 v) ! nat irq in if virq h = VIRQ_INVALID then None else Some h)"
  using assms wf_vgic_vcpu0 [OF assms(1)]
  by (simp add: registered_def virq_find_irq_data_def virq_get_sgi_ppi_def wf_vcpu_def deref_simps Let_def)

lemma registered_spi:
  assumes "wf_vgic v" and "32 \<le> irq"
  shows "registered v VCPU_ID irq =
    map_option (\<lambda>i. vspis v ! i) (find_slot (\<lambda>h. virq h \<noteq> VIRQ_INVALID \<and> virq h = irq) (vspis v) 0)"
proof (cases "find_slot (\<lambda>h. virq h \<noteq> VIRQ_INVALID \<and> virq h = irq) (vspis v) 0")
  case None
  with assms show ?thesis
    by (simp add: registered_def virq_find_irq_data_def virq_find_spi_irq_data_def deref_simps)
next
  case (Some i)
  from find_slot_SomeD [OF Some] assms(1) have "i < 200" "virq (vspis v ! i) \<noteq> VIRQ_INVALID"
    by (auto simp: wf_vgic_def)
  with Some assms show ?thesis
    by (simp add: registered_def virq_find_irq_data_def virq_find_spi_irq_data_def deref_simps)
qed

lemma registered_negative: "irq < 0 \<Longrightarrow> wf_vgic v \<Longrightarrow> registered v VCPU_ID irq = None"
  by (simp add: registered_def virq_find_irq_data_def virq_get_sgi_ppi_def)

lemma registered_virq: "wf_vgic v \<Longrightarrow> registered v VCPU_ID irq = Some h \<Longrightarrow> virq h = irq \<and> 0 \<le> irq"
proof -
  assume wf: "wf_vgic v" and r: "registered v VCPU_ID irq = Some h"
  have "0 \<le> irq" using registered_negative [of irq v] wf r by (cases "0 \<le> irq") auto
  show ?thesis
  proof (cases "irq < 32")
    case True
    with wf_vcpu_local [OF wf_vgic_vcpu0 [OF wf] \<open>0 \<le> irq\<close>] registered_local [OF wf \<open>0 \<le> irq\<close>] r \<open>0 \<le> irq\<close>
    show ?thesis by (auto simp: Let_def split: if_splits)
  next
    case False
    with r wf \<open>0 \<le> irq\<close> show ?thesis by (auto simp: registered_spi dest: find_slot_SomeD)
  qed
qed

subsection \<open>Registration\<close>

lemma virq_add_local_taken:
  assumes "wf_vgic v" and "0 \<le> virq h" and "virq h < 32" and "registered v VCPU_ID (virq h) \<noteq> None"
  shows "virq_add VCPU_ID v h = Ret (False, v)"
  using assms wf_vgic_vcpu0 [OF assms(1)]
  by (simp add: virq_add_def virq_sgi_ppi_add_def registered_local Let_def wf_vcpu_def split: if_splits)

lemma virq_add_local_free:
  assumes wf: "wf_vgic v" and irq: "0 \<le> virq h" "virq h < 32" and free: "registered v VCPU_ID (virq h) = None"
  shows "\<exists>v'. virq_add VCPU_ID v h = Ret (True, v') \<and> wf_vgic v' \<and> vspis v' = vspis v \<and>
    registered v' VCPU_ID = (registered v VCPU_ID)(virq h \<mapsto> h)"
proof -
  let ?c = "vcpu0 v"
  let ?c' = "?c\<lparr>local_virqs := (local_virqs ?c)[nat (virq h) := h]\<rparr>"
  let ?v = "put_vcpu0 v ?c'"
  have wfc: "wf_vcpu ?c" by (rule wf_vgic_vcpu0 [OF wf])
  then have wfc': "wf_vcpu ?c'"
    using irq by (auto simp: wf_vcpu_def nth_list_update)
  have wf': "wf_vgic ?v" by (rule wf_vgic_put_vcpu0 [OF wf wfc'])
  have "virq_add VCPU_ID v h = Ret (True, ?v)"
    using assms wfc by (simp add: virq_add_def virq_sgi_ppi_add_def registered_local Let_def wf_vcpu_def split: if_splits)
  moreover have "registered ?v VCPU_ID k = ((registered v VCPU_ID)(virq h \<mapsto> h)) k" for k
  proof -
    consider "k < 0" | "0 \<le> k" "k < 32" | "32 \<le> k" by linarith
    then show ?thesis
      using wf wf' irq wfc
      by cases (auto simp: registered_negative registered_local registered_spi Let_def nth_list_update
          eq_nat_nat_iff wf_vcpu_def)
  qed
  ultimately show ?thesis using wf' by auto
qed

lemma virq_add_spi_full:
  assumes "32 \<le> virq h" and "spi_free v = 0"
  shows "virq_add VCPU_ID v h = Ret (False, v)"
proof -
  have "find_slot (\<lambda>h. virq h = VIRQ_INVALID) (vspis v) 0 = None"
    using assms(2) by (simp add: find_slot_None_iff spi_free_def filter_empty_conv)
  with assms(1) show ?thesis by (simp add: virq_add_def virq_spi_add_def)
qed

lemma spi_free_upd:
  assumes "i < length (vspis v)" and "virq (vspis v ! i) = VIRQ_INVALID" and "virq h \<noteq> VIRQ_INVALID"
  shows "spi_free v = Suc (spi_free (v\<lparr>vspis := (vspis v)[i := h]\<rparr>))"
proof -
  have "vspis v = take i (vspis v) @ vspis v ! i # drop (Suc i) (vspis v)"
    using assms(1) by (rule id_take_nth_drop)
  then have "spi_free v = length (filter (\<lambda>h. virq h = VIRQ_INVALID) (take i (vspis v) @ vspis v ! i # drop (Suc i) (vspis v)))"
    by (simp add: spi_free_def)
  with assms show ?thesis by (simp add: spi_free_def upd_conv_take_nth_drop)
qed

lemma virq_add_spi_free:
  assumes wf: "wf_vgic v" and irq: "32 \<le> virq h" and room: "spi_free v \<noteq> 0"
    and fresh: "registered v VCPU_ID (virq h) = None"
  shows "\<exists>v'. virq_add VCPU_ID v h = Ret (True, v') \<and> wf_vgic v' \<and> vgic_vcpu v' = vgic_vcpu v \<and>
    spi_free v = Suc (spi_free v') \<and> registered v' VCPU_ID = (registered v VCPU_ID)(virq h \<mapsto> h)"
proof -
  obtain i where i: "find_slot (\<lambda>h. virq h = VIRQ_INVALID) (vspis v) 0 = Some i"
    using room find_slot_ex [of _ "vspis v" "\<lambda>h. virq h = VIRQ_INVALID" 0]
    by (auto simp: spi_free_def filter_empty_conv)
  then have slot: "i < length (vspis v)" "virq (vspis v ! i) = VIRQ_INVALID"
    by (auto dest: find_slot_SomeD)
  let ?v = "v\<lparr>vspis := (vspis v)[i := h]\<rparr>"
  have wf': "wf_vgic ?v"
    using wf irq set_update_subset_insert [of "vspis v" i h] by (auto simp: wf_vgic_def)
  have vc: "vcpu0 ?v = vcpu0 v" by (simp add: vcpu0_def)
  have "registered ?v VCPU_ID k = ((registered v VCPU_ID)(virq h \<mapsto> h)) k" for k
  proof -
    consider "k < 0" | "0 \<le> k" "k < 32" | "32 \<le> k" "k \<noteq> virq h" | "k = virq h" "32 \<le> k"
      using irq by linarith
    then show ?thesis
    proof cases
      case 3
      have "find_slot (\<lambda>h. virq h \<noteq> VIRQ_INVALID \<and> virq h = k) ((vspis v)[i := h]) 0 =
          find_slot (\<lambda>h. virq h \<noteq> VIRQ_INVALID \<and> virq h = k) (vspis v) 0" (is "?L = ?R")
        using slot 3 by (intro find_slot_upd_irrel) auto
      moreover have "j \<noteq> i" if "?R = Some j" for j
        using find_slot_SomeD [OF that] slot by auto
      ultimately show ?thesis
        using wf wf' 3 by (cases ?R) (auto simp: registered_spi)
    next
      case 4
      have "find_slot (\<lambda>h. virq h \<noteq> VIRQ_INVALID \<and> virq h = k) ((vspis v)[i := h]) 0 = Some (0 + i)"
        using fresh slot(1) irq wf 4 by (intro find_slot_upd_new) (auto simp: registered_spi)
      with 4 wf' slot show ?thesis by (simp add: registered_spi)
    qed (use irq wf wf' vc in \<open>auto simp: registered_negative registered_local\<close>)
  qed
  moreover have "virq_add VCPU_ID v h = Ret (True, ?v)"
    using irq i by (simp add: virq_add_def virq_spi_add_def)
  moreover have "spi_free v = Suc (spi_free ?v)" using slot irq by (intro spi_free_upd) auto
  ultimately show ?thesis using wf' by auto
qed

text \<open>
  What the rest of the monitor may assume of the table: a handle for a fresh interrupt is stored
  and found again, nothing else changes; a full table or a taken slot refuses it and is left as
  it was.
\<close>

text \<open>Registering a list of handles one after the other, stopping when one is refused.\<close>

fun add_all :: "('t \<Rightarrow> virq_handle \<Rightarrow> (bool \<times> 't) res) \<Rightarrow> 't \<Rightarrow> virq_handle list \<Rightarrow> 't res" where
  "add_all add t [] = Ret t"
| "add_all add t (h # hs) = bind_res (add t h) (\<lambda>(ok, t'). c_assert ok (add_all add t' hs))"

locale handle_table =
  fixes add :: "'t \<Rightarrow> virq_handle \<Rightarrow> (bool \<times> 't) res"
    and lookup :: "'t \<Rightarrow> int \<Rightarrow> virq_handle option"
    and invar :: "'t \<Rightarrow> bool"
    and room :: "'t \<Rightarrow> nat"
  assumes add_fresh: "invar t \<Longrightarrow> 0 \<le> virq h \<Longrightarrow> lookup t (virq h) = None \<Longrightarrow> room t \<noteq> 0 \<Longrightarrow>
      \<exists>t'. add t h = Ret (True, t') \<and> invar t' \<and> lookup t' = (lookup t)(virq h \<mapsto> h) \<and> room t \<le> Suc (room t')"
    and lookup_key: "invar t \<Longrightarrow> lookup t k = Some h \<Longrightarrow> virq h = k"
begin

lemma add_all_registers:
  "invar t \<Longrightarrow> distinct (map virq hs) \<Longrightarrow> length hs \<le> room t \<Longrightarrow>
   (\<And>h. h \<in> set hs \<Longrightarrow> 0 \<le> virq h \<and> lookup t (virq h) = None) \<Longrightarrow>
   \<exists>t'. add_all add t hs = Ret t' \<and> invar t' \<and>
     (\<forall>h \<in> set hs. lookup t' (virq h) = Some h) \<and>
     (\<forall>k. k \<notin> virq ` set hs \<longrightarrow> lookup t' k = lookup t k)"
proof (induction hs arbitrary: t)
  case Nil
  then show ?case by simp
next
  case (Cons h hs)
  obtain t1 where t1: "add t h = Ret (True, t1)" "invar t1" "lookup t1 = (lookup t)(virq h \<mapsto> h)"
    "room t \<le> Suc (room t1)"
    using add_fresh [of t h] Cons.prems by force
  have len: "length hs \<le> room t1" using t1(4) Cons.prems(3) by simp
  have dist: "distinct (map virq hs)" and new: "virq h \<notin> virq ` set hs" using Cons.prems(2) by auto
  have fresh: "0 \<le> virq g \<and> lookup t1 (virq g) = None" if "g \<in> set hs" for g
  proof -
    have "virq g \<noteq> virq h" using new that by (metis imageI)
    with Cons.prems(4) [of g] that t1(3) show ?thesis by simp
  qed
  obtain t2 where t2: "add_all add t1 hs = Ret t2" "invar t2"
    "\<forall>g \<in> set hs. lookup t2 (virq g) = Some g" "\<forall>k. k \<notin> virq ` set hs \<longrightarrow> lookup t2 k = lookup t1 k"
    using Cons.IH [OF t1(2) dist len fresh] by blast
  with t1 new show ?case by auto
qed

end

interpretation virq_table: handle_table "virq_add VCPU_ID" "\<lambda>v. registered v VCPU_ID" wf_vgic spi_free
proof unfold_locales
  fix t :: vgic_t and h :: virq_handle
  assume wf: "wf_vgic t" and "0 \<le> virq h" "registered t VCPU_ID (virq h) = None" "spi_free t \<noteq> 0"
  then show "\<exists>t'. virq_add VCPU_ID t h = Ret (True, t') \<and> wf_vgic t' \<and>
      registered t' VCPU_ID = (registered t VCPU_ID)(virq h \<mapsto> h) \<and> spi_free t \<le> Suc (spi_free t')"
  proof (cases "virq h < 32")
    case True
    with virq_add_local_free [OF wf, of h] \<open>0 \<le> virq h\<close> \<open>registered t VCPU_ID (virq h) = None\<close>
    show ?thesis by (auto simp: spi_free_def)
  next
    case False
    with virq_add_spi_free [OF wf, of h] \<open>registered t VCPU_ID (virq h) = None\<close> \<open>spi_free t \<noteq> 0\<close>
    show ?thesis by auto
  qed
qed (simp add: registered_virq)

text \<open>An empty table, as \<^verbatim>\<open>vgic_init\<close> leaves it.\<close>

definition no_virq :: virq_handle where
  "no_virq = \<lparr>virq = VIRQ_INVALID, ack_fn = None, ack_data = 0\<rparr>"

definition empty_vgic :: vgic_t where
  "empty_vgic = \<lparr>vspis = replicate 200 no_virq,
     vgic_vcpu = [\<lparr>lr_shadow = replicate 4 no_virq, irq_queue = \<lparr>irqs = replicate 64 None, head = 0, tail = 0\<rparr>,
       local_virqs = replicate 32 no_virq\<rparr>]\<rparr>"

lemma virq_no_virq [simp]: "virq no_virq = VIRQ_INVALID"
  by (simp add: no_virq_def)

lemma wf_empty_vgic: "wf_vgic empty_vgic"
  by (simp add: empty_vgic_def wf_vgic_def wf_vcpu_def wf_queue_def NUM_VCPUS_def)

lemma registered_empty_vgic: "registered empty_vgic VCPU_ID irq = None"
proof -
  consider "irq < 0" | "0 \<le> irq" "irq < 32" | "32 \<le> irq" by linarith
  then show ?thesis
  proof cases
    case 2
    have "local_virqs (vcpu0 empty_vgic) ! nat irq = no_virq"
      using 2 by (simp add: empty_vgic_def vcpu0_def nth_replicate)
    with 2 show ?thesis by (simp add: registered_local [OF wf_empty_vgic] Let_def)
  next
    case 3
    have "find_slot (\<lambda>h. virq h \<noteq> VIRQ_INVALID \<and> virq h = irq) (vspis empty_vgic) 0 = None"
      by (simp add: find_slot_None_iff empty_vgic_def)
    with 3 show ?thesis by (simp add: registered_spi [OF wf_empty_vgic])
  qed (simp add: registered_negative wf_empty_vgic)
qed

lemma spi_free_empty_vgic: "spi_free empty_vgic = 200"
  by (simp add: spi_free_def empty_vgic_def)

text \<open>
  C24. Registering a handle for an interrupt that has none and then looking the interrupt up gives
  that handle; the lookup of every other interrupt is unchanged, and the table stays well formed.
\<close>

theorem virq_add_then_find:
  assumes "wf_vgic v" and "0 \<le> virq h" and "registered v VCPU_ID (virq h) = None" and "spi_free v \<noteq> 0"
  shows "\<exists>v'. virq_add VCPU_ID v h = Ret (True, v') \<and> wf_vgic v' \<and>
    registered v' VCPU_ID = (registered v VCPU_ID)(virq h \<mapsto> h)"
  using virq_table.add_fresh [OF assms] by blast

theorem virq_add_then_find_witness:
  "\<exists>v'. virq_add VCPU_ID empty_vgic \<lparr>virq = 33, ack_fn = Some Serial_ack, ack_data = 0\<rparr> = Ret (True, v') \<and>
     registered v' VCPU_ID 33 = Some \<lparr>virq = 33, ack_fn = Some Serial_ack, ack_data = 0\<rparr> \<and>
     registered v' VCPU_ID 34 = None"
  using virq_add_then_find [OF wf_empty_vgic, of "\<lparr>virq = 33, ack_fn = Some Serial_ack, ack_data = 0\<rparr>"]
  by (auto simp: registered_empty_vgic spi_free_empty_vgic)

text \<open>
  C25. Registration is refused, with the tables untouched, exactly when an SGI or PPI is already
  registered or when an SPI finds all slots taken.
\<close>

theorem virq_add_refused_iff:
  assumes "wf_vgic v" and "0 \<le> virq h"
  shows "virq_add VCPU_ID v h = Ret (False, v) \<longleftrightarrow>
      (if virq h < 32 then registered v VCPU_ID (virq h) \<noteq> None else spi_free v = 0)"
proof (cases "virq h < 32")
  case True
  then show ?thesis
    using virq_add_local_taken [OF assms True] virq_add_local_free [OF assms True]
    by (cases "registered v VCPU_ID (virq h)") auto
next
  case False
  have "spi_free v = 0 \<longleftrightarrow> find_slot (\<lambda>h. virq h = VIRQ_INVALID) (vspis v) 0 = None"
    by (simp add: spi_free_def filter_empty_conv find_slot_None_iff)
  with False show ?thesis by (auto simp: virq_add_def virq_spi_add_def split: option.splits)
qed

theorem virq_add_refused_iff_witness:
  "virq_add VCPU_ID (empty_vgic\<lparr>vspis := replicate 200 \<lparr>virq = 40, ack_fn = None, ack_data = 0\<rparr>\<rparr>)
     \<lparr>virq = 33, ack_fn = None, ack_data = 0\<rparr> =
   Ret (False, empty_vgic\<lparr>vspis := replicate 200 \<lparr>virq = 40, ack_fn = None, ack_data = 0\<rparr>\<rparr>)"
proof -
  let ?v = "empty_vgic\<lparr>vspis := replicate 200 \<lparr>virq = 40, ack_fn = None, ack_data = 0\<rparr>\<rparr>"
  have "wf_vgic ?v" using wf_empty_vgic by (simp add: wf_vgic_def)
  moreover have "spi_free ?v = 0" by (simp add: spi_free_def)
  ultimately show ?thesis
    using virq_add_refused_iff [of ?v "\<lparr>virq = 33, ack_fn = None, ack_data = 0\<rparr>"] by simp
qed

end
