(* ===== verification/Dist.thy ===== *)
theory Dist
  imports Virq
begin

text \<open>
  The registers of the virtual interrupt controller (\<^verbatim>\<open>vgic_v2.h\<close>, \<^verbatim>\<open>vgic_v3.h\<close>) and the single-bit
  operations on them of \<^verbatim>\<open>vdist.h\<close>, with the contract these operations keep: setting a bit of
  one interrupt is seen by the test for that interrupt and by no other.
\<close>

section \<open>Register files\<close>

text \<open>
  The two versions of \<^verbatim>\<open>struct gic_dist_map\<close> share the fields up to the SGI registers; the fields
  only one version has are the sub-records \<open>dist_v2\<close> and \<open>dist_v3\<close>. Reserved words that no line of
  the program reads or writes are left out.
\<close>

record gic_dist_v2 =
  spi :: "u32 list"
  res5 :: "u32 list"
  res6 :: u32
  legacy_int :: u32
  res7 :: "u32 list"
  match_d :: u32
  enable_d :: u32
  res8 :: "u32 list"
  periph_id :: "u32 list"
  component_id :: "u32 list"

record gic_dist_v3 =
  irouter :: "u64 list"
  res10 :: "u64 list"
  pidrn :: "u32 list"
  cidrn :: "u32 list"

record gic_dist_map =
  ctlr :: u32
  typer :: u32
  iidr :: u32
  irq_group0 :: "u32 list"
  irq_group :: "u32 list"
  enable_set0 :: "u32 list"
  enable_set :: "u32 list"
  enable_clr0 :: "u32 list"
  enable_clr :: "u32 list"
  pending_set0 :: "u32 list"
  pending_set :: "u32 list"
  pending_clr0 :: "u32 list"
  pending_clr :: "u32 list"
  active0 :: "u32 list"
  active :: "u32 list"
  active_clr0 :: "u32 list"
  active_clr :: "u32 list"
  priority0 :: "u32 list list"
  priority :: "u32 list"
  targets0 :: "u32 list list"
  targets :: "u32 list"
  config :: "u32 list"
  sgir :: u32
  sgi_pending_clr :: "u32 list list"
  sgi_pending_set :: "u32 list list"
  dist_v2 :: gic_dist_v2
  dist_v3 :: gic_dist_v3

text \<open>\<^verbatim>\<open>struct gic_redist_map\<close>; the prefix keeps its fields apart from the distributor's.\<close>

record gic_redist_map =
  r_ctlr :: u32
  r_iidr :: u32
  r_typer :: u64
  r_waker :: u32
  pidr4 :: u32
  pidr5 :: u32
  pidr6 :: u32
  pidr7 :: u32
  pidr0 :: u32
  pidr1 :: u32
  pidr2 :: u32
  pidr3 :: u32
  cidr0 :: u32
  cidr1 :: u32
  cidr2 :: u32
  cidr3 :: u32

text \<open>
  The global variables of the monitor. The pointer \<^verbatim>\<open>vgic.registers\<close> is set once, by
  \<^verbatim>\<open>vgic_init\<close>, to the globals \<open>dist\<close> and \<open>redist\<close>, and every function of the controller runs after
  that; so \<^verbatim>\<open>vgic_get_dist(vgic->registers)\<close> is the field \<open>dist\<close>. The field \<open>memory\<close> is the address
  space of the monitor, in which the guest's images are placed.
\<close>

record vmm_state = vgic_state +
  dist :: gic_dist_map
  redist :: gic_redist_map
  memory :: "u64 \<Rightarrow> u8"

section \<open>Controller enable\<close>

definition GIC_ENABLED :: "board \<Rightarrow> u32" where
  "GIC_ENABLED b = (case gic_version_of b of GIC_V2 \<Rightarrow> 1 | GIC_V3 \<Rightarrow> push_bit 4 1 OR push_bit 1 1 OR push_bit 0 1)"

definition vgic_dist_is_enabled :: "board \<Rightarrow> gic_dist_map \<Rightarrow> bool" where
  "vgic_dist_is_enabled b d =
     (case gic_version_of b of
        GIC_V2 \<Rightarrow> ctlr d = GIC_ENABLED b
      | GIC_V3 \<Rightarrow> ctlr d AND push_bit 1 1 \<noteq> 0)"

definition vgic_dist_enable :: "board \<Rightarrow> gic_dist_map \<Rightarrow> gic_dist_map" where
  "vgic_dist_enable b d =
     (case gic_version_of b of
        GIC_V2 \<Rightarrow> d\<lparr>ctlr := GIC_ENABLED b\<rparr>
      | GIC_V3 \<Rightarrow> d\<lparr>ctlr := ctlr d OR (push_bit 1 1 OR push_bit 4 1)\<rparr>)"

definition vgic_dist_disable :: "board \<Rightarrow> gic_dist_map \<Rightarrow> gic_dist_map" where
  "vgic_dist_disable b d =
     (case gic_version_of b of
        GIC_V2 \<Rightarrow> d\<lparr>ctlr := 0\<rparr>
      | GIC_V3 \<Rightarrow> d\<lparr>ctlr := ctlr d AND NOT (push_bit 1 1 OR push_bit 4 1)\<rparr>)"

text \<open>The interrupt group that the two versions inject with.\<close>

definition irq_inject_group :: "board \<Rightarrow> int" where
  "irq_inject_group b = (case gic_version_of b of GIC_V2 \<Rightarrow> 0 | GIC_V3 \<Rightarrow> 1)"

section \<open>Bits of one interrupt\<close>

definition IRQ_IDX :: "int \<Rightarrow> int" where
  "IRQ_IDX irq = irq sdiv 32"

definition IRQ_BIT :: "int \<Rightarrow> u32 res" where
  "IRQ_BIT irq = (if irq smod 32 < 0 then Fault Bad_shift else Ret (push_bit (nat (irq smod 32)) 1))"

text \<open>\<^verbatim>\<open>a[i] |= b\<close> or \<^verbatim>\<open>a[i] &= ~b\<close>.\<close>

definition put_bit :: "u32 list \<Rightarrow> int \<Rightarrow> bool \<Rightarrow> u32 \<Rightarrow> u32 list res" where
  "put_bit a i v b = arr_mod a i (\<lambda>w. if v then w OR b else w AND NOT b)"

definition set_sgi_ppi_pending :: "gic_dist_map \<Rightarrow> int \<Rightarrow> bool \<Rightarrow> int \<Rightarrow> gic_dist_map res" where
  "set_sgi_ppi_pending d irq v vcpu_id =
     bind_res (IRQ_BIT irq) (\<lambda>b.
     bind_res (put_bit (pending_set0 d) vcpu_id v b) (\<lambda>ps.
     bind_res (put_bit (pending_clr0 d) vcpu_id v b) (\<lambda>pc.
     Ret (d\<lparr>pending_set0 := ps, pending_clr0 := pc\<rparr>))))"

definition set_spi_pending :: "gic_dist_map \<Rightarrow> int \<Rightarrow> bool \<Rightarrow> gic_dist_map res" where
  "set_spi_pending d irq v =
     bind_res (IRQ_BIT irq) (\<lambda>b.
     bind_res (put_bit (pending_set d) (IRQ_IDX irq) v b) (\<lambda>ps.
     bind_res (put_bit (pending_clr d) (IRQ_IDX irq) v b) (\<lambda>pc.
     Ret (d\<lparr>pending_set := ps, pending_clr := pc\<rparr>))))"

definition set_pending :: "gic_dist_map \<Rightarrow> int \<Rightarrow> bool \<Rightarrow> int \<Rightarrow> gic_dist_map res" where
  "set_pending d irq v vcpu_id =
     (if irq < int NUM_VCPU_LOCAL_VIRQS then set_sgi_ppi_pending d irq v vcpu_id
      else set_spi_pending d irq v)"

text \<open>\<^verbatim>\<open>!!(a[i] & IRQ_BIT(irq))\<close>.\<close>

definition test_bit :: "u32 list \<Rightarrow> int \<Rightarrow> int \<Rightarrow> bool res" where
  "test_bit a i irq = bind_res (IRQ_BIT irq) (\<lambda>b. bind_res (arr_get a i) (\<lambda>w. Ret (w AND b \<noteq> 0)))"

definition is_sgi_ppi_pending :: "gic_dist_map \<Rightarrow> int \<Rightarrow> int \<Rightarrow> bool res" where
  "is_sgi_ppi_pending d irq vcpu_id = test_bit (pending_set0 d) vcpu_id irq"

definition is_spi_pending :: "gic_dist_map \<Rightarrow> int \<Rightarrow> bool res" where
  "is_spi_pending d irq = test_bit (pending_set d) (IRQ_IDX irq) irq"

definition is_pending :: "gic_dist_map \<Rightarrow> int \<Rightarrow> int \<Rightarrow> bool res" where
  "is_pending d irq vcpu_id =
     (if irq < int NUM_VCPU_LOCAL_VIRQS then is_sgi_ppi_pending d irq vcpu_id else is_spi_pending d irq)"

definition set_sgi_ppi_enable :: "gic_dist_map \<Rightarrow> int \<Rightarrow> bool \<Rightarrow> int \<Rightarrow> gic_dist_map res" where
  "set_sgi_ppi_enable d irq v vcpu_id =
     bind_res (IRQ_BIT irq) (\<lambda>b.
     bind_res (put_bit (enable_set0 d) vcpu_id v b) (\<lambda>es.
     bind_res (put_bit (enable_clr0 d) vcpu_id v b) (\<lambda>ec.
     Ret (d\<lparr>enable_set0 := es, enable_clr0 := ec\<rparr>))))"

definition set_spi_enable :: "gic_dist_map \<Rightarrow> int \<Rightarrow> bool \<Rightarrow> gic_dist_map res" where
  "set_spi_enable d irq v =
     bind_res (IRQ_BIT irq) (\<lambda>b.
     bind_res (put_bit (enable_set d) (IRQ_IDX irq) v b) (\<lambda>es.
     bind_res (put_bit (enable_clr d) (IRQ_IDX irq) v b) (\<lambda>ec.
     Ret (d\<lparr>enable_set := es, enable_clr := ec\<rparr>))))"

definition set_enable :: "gic_dist_map \<Rightarrow> int \<Rightarrow> bool \<Rightarrow> int \<Rightarrow> gic_dist_map res" where
  "set_enable d irq v vcpu_id =
     (if irq < int NUM_VCPU_LOCAL_VIRQS then set_sgi_ppi_enable d irq v vcpu_id
      else set_spi_enable d irq v)"

definition is_sgi_ppi_enabled :: "gic_dist_map \<Rightarrow> int \<Rightarrow> int \<Rightarrow> bool res" where
  "is_sgi_ppi_enabled d irq vcpu_id = test_bit (enable_set0 d) vcpu_id irq"

definition is_spi_enabled :: "gic_dist_map \<Rightarrow> int \<Rightarrow> bool res" where
  "is_spi_enabled d irq = test_bit (enable_set d) (IRQ_IDX irq) irq"

definition is_enabled :: "gic_dist_map \<Rightarrow> int \<Rightarrow> int \<Rightarrow> bool res" where
  "is_enabled d irq vcpu_id =
     (if irq < int NUM_VCPU_LOCAL_VIRQS then is_sgi_ppi_enabled d irq vcpu_id else is_spi_enabled d irq)"

definition is_sgi_ppi_active :: "gic_dist_map \<Rightarrow> int \<Rightarrow> int \<Rightarrow> bool res" where
  "is_sgi_ppi_active d irq vcpu_id = test_bit (active0 d) vcpu_id irq"

definition is_spi_active :: "gic_dist_map \<Rightarrow> int \<Rightarrow> bool res" where
  "is_spi_active d irq = test_bit (active d) (IRQ_IDX irq) irq"

definition is_active :: "gic_dist_map \<Rightarrow> int \<Rightarrow> int \<Rightarrow> bool res" where
  "is_active d irq vcpu_id =
     (if irq < int NUM_VCPU_LOCAL_VIRQS then is_sgi_ppi_active d irq vcpu_id else is_spi_active d irq)"

section \<open>Well-formedness\<close>

text \<open>The array sizes of the structs, which no operation changes.\<close>

definition wf_dist :: "gic_dist_map \<Rightarrow> bool" where
  "wf_dist d \<longleftrightarrow>
     length (irq_group0 d) = NUM_VCPUS \<and> length (irq_group d) = 31 \<and>
     length (enable_set0 d) = NUM_VCPUS \<and> length (enable_set d) = 31 \<and>
     length (enable_clr0 d) = NUM_VCPUS \<and> length (enable_clr d) = 31 \<and>
     length (pending_set0 d) = NUM_VCPUS \<and> length (pending_set d) = 31 \<and>
     length (pending_clr0 d) = NUM_VCPUS \<and> length (pending_clr d) = 31 \<and>
     length (active0 d) = NUM_VCPUS \<and> length (active d) = 31 \<and>
     length (active_clr0 d) = NUM_VCPUS \<and> length (active_clr d) = 31 \<and>
     length (priority0 d) = NUM_VCPUS \<and> (\<forall>p \<in> set (priority0 d). length p = 8) \<and> length (priority d) = 247 \<and>
     length (targets0 d) = NUM_VCPUS \<and> (\<forall>p \<in> set (targets0 d). length p = 8) \<and> length (targets d) = 247 \<and>
     length (config d) = 64 \<and>
     length (sgi_pending_clr d) = NUM_VCPUS \<and> (\<forall>p \<in> set (sgi_pending_clr d). length p = 4) \<and>
     length (sgi_pending_set d) = NUM_VCPUS \<and> (\<forall>p \<in> set (sgi_pending_set d). length p = 4)"

definition wf_dist_v2 :: "gic_dist_v2 \<Rightarrow> bool" where
  "wf_dist_v2 v \<longleftrightarrow> length (spi v) = 32 \<and> length (res5 v) = 20 \<and> length (res7 v) = 2 \<and> length (res8 v) = 70 \<and>
     length (periph_id v) = 12 \<and> length (component_id v) = 4"

definition wf_dist_v3 :: "gic_dist_v3 \<Rightarrow> bool" where
  "wf_dist_v3 v \<longleftrightarrow> length (irouter v) = 960 \<and> length (res10 v) = 2080 \<and> length (pidrn v) = 8 \<and> length (cidrn v) = 4"

text \<open>The interrupts that have a bit in the model's register file: the arrays for shared interrupts
  have 31 words and are indexed by \<^verbatim>\<open>irq / 32\<close>.\<close>

definition has_bit :: "int \<Rightarrow> bool" where
  "has_bit irq \<longleftrightarrow> 0 \<le> irq \<and> irq < 992"

section \<open>Bit laws\<close>

definition irq_mask :: "int \<Rightarrow> u32" where
  "irq_mask irq = push_bit (nat (irq mod 32)) 1"

lemma IRQ_nonneg:
  assumes "0 \<le> irq"
  shows "IRQ_IDX irq = irq div 32" "IRQ_BIT irq = Ret (irq_mask irq)"
proof -
  have "\<not> irq mod 32 < 0" by (simp add: not_less)
  with assms show "IRQ_IDX irq = irq div 32" "IRQ_BIT irq = Ret (irq_mask irq)"
    by (auto simp: IRQ_IDX_def IRQ_BIT_def irq_mask_def signed_divide_int_def signed_modulo_int_def sgn_if)
qed

lemma test_bit_ok:
  assumes "0 \<le> irq" "0 \<le> i" "i < int (length a)"
  shows "test_bit a i irq = Ret (bit (a ! nat i) (nat (irq mod 32)))"
  using assms by (simp add: test_bit_def IRQ_nonneg irq_mask_def and_exp_eq_0_iff_not_bit)

text \<open>The interrupts whose bit is set, of a word for the local and an array for the shared ones.\<close>

definition bank :: "u32 list \<Rightarrow> u32 list \<Rightarrow> int \<Rightarrow> bool" where
  "bank l sh irq \<longleftrightarrow> has_bit irq \<and>
     (if irq < 32 then bit (l ! 0) (nat irq) else bit (sh ! nat (irq div 32)) (nat (irq mod 32)))"

abbreviation pending :: "gic_dist_map \<Rightarrow> int \<Rightarrow> bool" where
  "pending d \<equiv> bank (pending_set0 d) (pending_set d)"

abbreviation enabled :: "gic_dist_map \<Rightarrow> int \<Rightarrow> bool" where
  "enabled d \<equiv> bank (enable_set0 d) (enable_set d)"

text \<open>The clear registers always show the same bits as the set registers.\<close>

definition mirrored :: "gic_dist_map \<Rightarrow> bool" where
  "mirrored d \<longleftrightarrow> pending_clr0 d = pending_set0 d \<and> pending_clr d = pending_set d \<and>
     enable_clr0 d = enable_set0 d \<and> enable_clr d = enable_set d"

text \<open>The word with the bit of one interrupt changed, and the array with that word.\<close>

definition word_put :: "u32 \<Rightarrow> int \<Rightarrow> bool \<Rightarrow> u32" where
  "word_put w irq v = (if v then w OR irq_mask irq else w AND NOT (irq_mask irq))"

lemma bit_word_put: "bit (word_put w irq v) n \<longleftrightarrow> (if n = nat (irq mod 32) then v else bit w n)"
proof -
  have "nat (irq mod 32) < LENGTH(32)" by (simp add: nat_less_iff)
  then show ?thesis
    unfolding word_put_def irq_mask_def by (simp only: bit_or_push_bit_1 bit_and_not_push_bit_1 split: if_split) auto
qed

lemma put_bit_ok:
  assumes "0 \<le> i" "i < int (length a)"
  shows "put_bit a i v (irq_mask irq) = Ret (a[nat i := word_put (a ! nat i) irq v])"
  using assms by (simp add: put_bit_def word_put_def)

lemma nat_div_mod_inj:
  fixes irq k :: int
  assumes "0 \<le> irq" "0 \<le> k" "nat (k div 32) = nat (irq div 32)" "nat (k mod 32) = nat (irq mod 32)"
  shows "k = irq"
proof -
  have "k div 32 = irq div 32" "k mod 32 = irq mod 32" using assms by (simp_all add: pos_imp_zdiv_nonneg_iff eq_nat_nat_iff)
  then show ?thesis by (metis div_mult_mod_eq)
qed

definition put_local :: "u32 list \<Rightarrow> int \<Rightarrow> bool \<Rightarrow> u32 list" where
  "put_local l irq v = (if irq < 32 then l[0 := word_put (l ! 0) irq v] else l)"

definition put_shared :: "u32 list \<Rightarrow> int \<Rightarrow> bool \<Rightarrow> u32 list" where
  "put_shared sh irq v =
     (if irq < 32 then sh else sh[nat (irq div 32) := word_put (sh ! nat (irq div 32)) irq v])"

lemma length_put [simp]: "length (put_local l irq v) = length l" "length (put_shared sh irq v) = length sh"
  by (simp_all add: put_local_def put_shared_def)

lemma bank_put:
  assumes "has_bit irq" "length l = NUM_VCPUS" "length sh = 31"
  shows "bank (put_local l irq v) (put_shared sh irq v) = (bank l sh)(irq := v)"
proof
  fix k
  have irq: "0 \<le> irq" "irq < 992" using assms(1) by (simp_all add: has_bit_def)
  then have "nat (irq div 32) < 31" by (simp add: nat_less_iff)
  then show "bank (put_local l irq v) (put_shared sh irq v) k = ((bank l sh)(irq := v)) k"
    using assms(2,3) irq nat_div_mod_inj [of irq k]
    by (auto simp: bank_def put_local_def put_shared_def has_bit_def nth_list_update bit_word_put
        NUM_VCPUS_def eq_nat_nat_iff)
qed

lemma shared_index:
  fixes irq :: int
  assumes "has_bit irq"
  shows "0 \<le> irq" "0 \<le> irq div 32" "irq div 32 < 31"
  using assms by (auto simp: has_bit_def pos_imp_zdiv_nonneg_iff div_less_iff_less_mult)

text \<open>What one bit operation does; all that it leaves alone is visible in the update.\<close>

definition pending_put :: "gic_dist_map \<Rightarrow> int \<Rightarrow> bool \<Rightarrow> gic_dist_map" where
  "pending_put d irq v = d\<lparr>
     pending_set0 := put_local (pending_set0 d) irq v, pending_set := put_shared (pending_set d) irq v,
     pending_clr0 := put_local (pending_clr0 d) irq v, pending_clr := put_shared (pending_clr d) irq v\<rparr>"

definition enable_put :: "gic_dist_map \<Rightarrow> int \<Rightarrow> bool \<Rightarrow> gic_dist_map" where
  "enable_put d irq v = d\<lparr>
     enable_set0 := put_local (enable_set0 d) irq v, enable_set := put_shared (enable_set d) irq v,
     enable_clr0 := put_local (enable_clr0 d) irq v, enable_clr := put_shared (enable_clr d) irq v\<rparr>"

lemma wf_dist_put [simp]:
  "wf_dist (pending_put d irq v) = wf_dist d" "wf_dist (enable_put d irq v) = wf_dist d"
  by (simp_all add: wf_dist_def pending_put_def enable_put_def)

lemma mirrored_put [simp]:
  "mirrored d \<Longrightarrow> mirrored (pending_put d irq v)" "mirrored d \<Longrightarrow> mirrored (enable_put d irq v)"
  by (simp_all add: mirrored_def pending_put_def enable_put_def)

lemma wf_dist_ctlr [simp]: "wf_dist (d\<lparr>ctlr := c\<rparr>) = wf_dist d" "mirrored (d\<lparr>ctlr := c\<rparr>) = mirrored d"
  by (simp_all add: wf_dist_def mirrored_def)

lemma wf_dist_lengths:
  assumes "wf_dist d"
  shows "length (pending_set0 d) = NUM_VCPUS" "length (pending_set d) = 31"
    "length (pending_clr0 d) = NUM_VCPUS" "length (pending_clr d) = 31"
    "length (enable_set0 d) = NUM_VCPUS" "length (enable_set d) = 31"
    "length (enable_clr0 d) = NUM_VCPUS" "length (enable_clr d) = 31"
  using assms by (simp_all add: wf_dist_def)

lemma set_pending_eq:
  assumes "wf_dist d" and "has_bit irq"
  shows "set_pending d irq v 0 = Ret (pending_put d irq v)"
  using wf_dist_lengths [OF assms(1)] shared_index [OF assms(2)]
  by (simp add: set_pending_def set_sgi_ppi_pending_def set_spi_pending_def pending_put_def put_local_def
      put_shared_def put_bit_ok IRQ_nonneg NUM_VCPUS_def)

lemma set_enable_eq:
  assumes "wf_dist d" and "has_bit irq"
  shows "set_enable d irq v 0 = Ret (enable_put d irq v)"
  using wf_dist_lengths [OF assms(1)] shared_index [OF assms(2)]
  by (simp add: set_enable_def set_sgi_ppi_enable_def set_spi_enable_def enable_put_def put_local_def
      put_shared_def put_bit_ok IRQ_nonneg NUM_VCPUS_def)

lemma is_pending_eq:
  assumes "wf_dist d" and "has_bit irq"
  shows "is_pending d irq 0 = Ret (pending d irq)"
  using wf_dist_lengths [OF assms(1)] shared_index [OF assms(2)] assms(2)
  by (simp add: is_pending_def is_sgi_ppi_pending_def is_spi_pending_def test_bit_ok IRQ_nonneg NUM_VCPUS_def bank_def)

lemma is_enabled_eq:
  assumes "wf_dist d" and "has_bit irq"
  shows "is_enabled d irq 0 = Ret (enabled d irq)"
  using wf_dist_lengths [OF assms(1)] shared_index [OF assms(2)] assms(2)
  by (simp add: is_enabled_def is_sgi_ppi_enabled_def is_spi_enabled_def test_bit_ok IRQ_nonneg NUM_VCPUS_def bank_def)

lemma bits_put:
  assumes "wf_dist d" and "has_bit irq"
  shows "pending (pending_put d irq v) = (pending d)(irq := v)"
    "enabled (enable_put d irq v) = (enabled d)(irq := v)"
    "enabled (pending_put d irq v) = enabled d" "pending (enable_put d irq v) = pending d"
  using wf_dist_lengths [OF assms(1)] bank_put [OF assms(2)]
  by (simp_all add: pending_put_def enable_put_def)

lemma put_frame [simp]:
  "ctlr (pending_put d irq v) = ctlr d" "ctlr (enable_put d irq v) = ctlr d"
  by (simp_all add: pending_put_def enable_put_def)

lemma vgic_dist_is_enabled_put [simp]:
  "vgic_dist_is_enabled b (pending_put d irq v) = vgic_dist_is_enabled b d"
  "vgic_dist_is_enabled b (enable_put d irq v) = vgic_dist_is_enabled b d"
  by (simp_all add: vgic_dist_is_enabled_def split: gic_version.split)

section \<open>The contract of a bit bank\<close>

locale irq_bits =
  fixes set_bit :: "'d \<Rightarrow> int \<Rightarrow> bool \<Rightarrow> 'd res"
    and is_set :: "'d \<Rightarrow> int \<Rightarrow> bool res"
    and bits :: "'d \<Rightarrow> int \<Rightarrow> bool"
    and invar :: "'d \<Rightarrow> bool"
  assumes set_bit_ok: "invar d \<Longrightarrow> has_bit irq \<Longrightarrow>
      \<exists>d'. set_bit d irq v = Ret d' \<and> invar d' \<and> bits d' = (bits d)(irq := v)"
    and is_set_ok: "invar d \<Longrightarrow> has_bit irq \<Longrightarrow> is_set d irq = Ret (bits d irq)"
begin

lemma set_then_test:
  assumes "invar d" "has_bit irq" "has_bit k"
  shows "\<exists>d'. set_bit d irq v = Ret d' \<and> invar d' \<and>
    is_set d' k = (if k = irq then Ret v else is_set d k)"
  using set_bit_ok [OF assms(1,2)] is_set_ok assms by fastforce

text \<open>Setting the bits of a list of interrupts one after the other.\<close>

lemma set_all:
  assumes "invar d" and "\<And>irq. irq \<in> set ks \<Longrightarrow> has_bit irq"
  shows "\<exists>d'. for_each (\<lambda>irq d. set_bit d irq v) ks d = Ret d' \<and> invar d' \<and>
    bits d' = (\<lambda>k. if k \<in> set ks then v else bits d k)"
  using assms
proof (induction ks arbitrary: d)
  case Nil
  then show ?case by simp
next
  case (Cons irq ks)
  have "has_bit irq" using Cons.prems(2) by simp
  from set_bit_ok [OF Cons.prems(1) this] obtain d1
    where d1: "set_bit d irq v = Ret d1" "invar d1" "bits d1 = (bits d)(irq := v)" by blast
  from Cons.IH [OF d1(2)] Cons.prems(2) obtain d2
    where "for_each (\<lambda>irq d. set_bit d irq v) ks d1 = Ret d2" "invar d2"
      "bits d2 = (\<lambda>k. if k \<in> set ks then v else bits d1 k)" by auto
  with d1 show ?case by (auto simp: fun_eq_iff)
qed

end

interpretation pending_bits: irq_bits "\<lambda>d irq v. set_pending d irq v 0" "\<lambda>d irq. is_pending d irq 0"
    pending "\<lambda>d. wf_dist d \<and> mirrored d"
  by unfold_locales (auto simp: set_pending_eq is_pending_eq bits_put)

interpretation enable_bits: irq_bits "\<lambda>d irq v. set_enable d irq v 0" "\<lambda>d irq. is_enabled d irq 0"
    enabled "\<lambda>d. wf_dist d \<and> mirrored d"
  by unfold_locales (auto simp: set_enable_eq is_enabled_eq bits_put)

section \<open>Registers before initialisation\<close>

text \<open>The globals \<^verbatim>\<open>dist\<close> and \<^verbatim>\<open>redist\<close> as the loader leaves them: zero.\<close>

definition zero_dist :: gic_dist_map where
  "zero_dist = \<lparr>ctlr = 0, typer = 0, iidr = 0,
     irq_group0 = replicate NUM_VCPUS 0, irq_group = replicate 31 0,
     enable_set0 = replicate NUM_VCPUS 0, enable_set = replicate 31 0,
     enable_clr0 = replicate NUM_VCPUS 0, enable_clr = replicate 31 0,
     pending_set0 = replicate NUM_VCPUS 0, pending_set = replicate 31 0,
     pending_clr0 = replicate NUM_VCPUS 0, pending_clr = replicate 31 0,
     active0 = replicate NUM_VCPUS 0, active = replicate 31 0,
     active_clr0 = replicate NUM_VCPUS 0, active_clr = replicate 31 0,
     priority0 = replicate NUM_VCPUS (replicate 8 0), priority = replicate 247 0,
     targets0 = replicate NUM_VCPUS (replicate 8 0), targets = replicate 247 0,
     config = replicate 64 0, sgir = 0,
     sgi_pending_clr = replicate NUM_VCPUS (replicate 4 0), sgi_pending_set = replicate NUM_VCPUS (replicate 4 0),
     dist_v2 = \<lparr>spi = replicate 32 0, res5 = replicate 20 0, res6 = 0, legacy_int = 0, res7 = replicate 2 0,
       match_d = 0, enable_d = 0, res8 = replicate 70 0, periph_id = replicate 12 0, component_id = replicate 4 0\<rparr>,
     dist_v3 = \<lparr>irouter = replicate 960 0, res10 = replicate 2080 0, pidrn = replicate 8 0, cidrn = replicate 4 0\<rparr>\<rparr>"

definition zero_redist :: gic_redist_map where
  "zero_redist = \<lparr>r_ctlr = 0, r_iidr = 0, r_typer = 0, r_waker = 0, pidr4 = 0, pidr5 = 0, pidr6 = 0, pidr7 = 0,
     pidr0 = 0, pidr1 = 0, pidr2 = 0, pidr3 = 0, cidr0 = 0, cidr1 = 0, cidr2 = 0, cidr3 = 0\<rparr>"

lemma zero_dist_ok: "wf_dist zero_dist" "mirrored zero_dist"
  "wf_dist_v2 (dist_v2 zero_dist)" "wf_dist_v3 (dist_v3 zero_dist)"
  by (simp_all add: zero_dist_def wf_dist_def mirrored_def wf_dist_v2_def wf_dist_v3_def NUM_VCPUS_def)

lemma bank_zero: "bank (replicate NUM_VCPUS 0) (replicate 31 0) irq = False"
proof -
  have "(replicate 31 0 :: u32 list) ! nat (irq div 32) = 0" if "has_bit irq"
    using shared_index [OF that] by (intro nth_replicate) simp
  then show ?thesis by (auto simp: bank_def NUM_VCPUS_def)
qed

text \<open>The flags of the first \<open>n\<close> local interrupts and no others.\<close>

lemma bank_mask:
  assumes "n \<le> 32"
  shows "bank [mask n] (replicate 31 0) k \<longleftrightarrow> 0 \<le> k \<and> k < int n"
proof -
  have b: "bit (mask n :: u32) i \<longleftrightarrow> i < n" for i using assms by (auto simp: bit_mask_iff)
  have "bank [mask n] (replicate 31 0) k \<longleftrightarrow> has_bit k \<and> (if k < 32 then nat k < n
      else bit ((replicate 31 0 :: u32 list) ! nat (k div 32)) (nat (k mod 32)))"
    by (simp only: bank_def nth_Cons_0 b)
  also have "\<dots> \<longleftrightarrow> has_bit k \<and> k < int n"
    using bank_zero [of k] assms by (cases "k < 32") (auto simp: bank_def has_bit_def)
  finally show ?thesis using assms by (auto simp: has_bit_def)
qed

lemma zero_dist_bits: "pending zero_dist irq = False" "enabled zero_dist irq = False"
  by (simp_all add: zero_dist_def bank_zero)

section \<open>Properties\<close>

text \<open>
  Setting or clearing the pending flag of an interrupt is what the test for that interrupt
  returns afterwards; the flag of every other interrupt and all enable flags keep their value,
  the set and clear registers keep showing the same bits, and no array is indexed out of range.
\<close>

lemma set_pending_is_pending:
  assumes "wf_dist d" and "mirrored d" and "has_bit irq" and "has_bit k"
  shows "\<exists>d'. set_pending d irq v 0 = Ret d' \<and> wf_dist d' \<and> mirrored d' \<and>
     is_pending d' k 0 = (if k = irq then Ret v else is_pending d k 0) \<and>
     is_enabled d' k 0 = is_enabled d k 0"
proof -
  obtain d' where d': "set_pending d irq v 0 = Ret d'" "wf_dist d'" "mirrored d'"
    "is_pending d' k 0 = (if k = irq then Ret v else is_pending d k 0)"
    using pending_bits.set_then_test [of d irq k v] assms by blast
  moreover have "is_enabled d' k 0 = is_enabled d k 0"
    using assms d'(1) by (auto simp: set_pending_eq is_enabled_eq bits_put)
  ultimately show ?thesis by blast
qed

text \<open>
  The same for the enable flag: the flag of exactly the given interrupt takes the given value
  and the pending flags are untouched.
\<close>

lemma set_enable_is_enabled:
  assumes "wf_dist d" and "mirrored d" and "has_bit irq" and "has_bit k"
  shows "\<exists>d'. set_enable d irq v 0 = Ret d' \<and> wf_dist d' \<and> mirrored d' \<and>
     is_enabled d' k 0 = (if k = irq then Ret v else is_enabled d k 0) \<and>
     is_pending d' k 0 = is_pending d k 0"
proof -
  obtain d' where d': "set_enable d irq v 0 = Ret d'" "wf_dist d'" "mirrored d'"
    "is_enabled d' k 0 = (if k = irq then Ret v else is_enabled d k 0)"
    using enable_bits.set_then_test [of d irq k v] assms by blast
  moreover have "is_pending d' k 0 = is_pending d k 0"
    using assms d'(1) by (auto simp: set_enable_eq is_pending_eq bits_put)
  ultimately show ?thesis by blast
qed

lemma set_enable_is_enabled_witness:
  "\<exists>d'. set_enable zero_dist 27 True 0 = Ret d' \<and> is_enabled d' 27 0 = Ret True"
  using set_enable_is_enabled [OF zero_dist_ok(1,2), of 27 27 True] by (auto simp: has_bit_def)

text \<open>
  C38. The arrays for shared interrupts start at interrupt 32 but are indexed by \<^verbatim>\<open>irq / 32\<close>: the
  flag of a shared interrupt lands one word above the word that the register of that interrupt
  (\<^verbatim>\<open>ISENABLER<irq/32>\<close>, word \<^verbatim>\<open>irq/32 - 1\<close> of the array) shows, and for interrupts from 992 on
  the index is outside the array.
\<close>

theorem shared_enable_bit_one_word_high:
  assumes "wf_dist d" and "32 \<le> irq"
  shows "set_enable d irq True 0 =
     (if irq < 992
      then Ret (enable_put d irq True)
      else Fault Out_of_bounds) \<and>
     (irq < 992 \<longrightarrow>
       enable_set (enable_put d irq True) ! nat (irq div 32 - 1) = enable_set d ! nat (irq div 32 - 1) \<and>
       bit (enable_set (enable_put d irq True) ! nat (irq div 32)) (nat (irq mod 32)))"
proof (cases "irq < 992")
  case True
  then have irq: "has_bit irq" using assms(2) by (simp add: has_bit_def)
  have "1 \<le> irq div 32" using assms(2) zdiv_mono1 [of 32 irq 32] by simp
  then have "nat (irq div 32 - 1) \<noteq> nat (irq div 32)" "nat (irq div 32) < length (enable_set d)"
    using shared_index [OF irq] wf_dist_lengths(6) [OF assms(1)] by auto
  with True assms irq show ?thesis
    by (simp add: set_enable_eq enable_put_def put_shared_def bit_word_put)
next
  case False
  then have "31 \<le> irq div 32" using zdiv_mono1 [of 992 irq 32] by simp
  with False assms wf_dist_lengths [OF assms(1)] show ?thesis
    by (simp add: set_enable_def set_spi_enable_def IRQ_nonneg put_bit_def arr_mod_out)
qed

theorem shared_enable_bit_one_word_high_witness:
  "set_enable zero_dist 33 True 0 = Ret (enable_put zero_dist 33 True) \<and>
   enable_set (enable_put zero_dist 33 True) ! 0 = enable_set zero_dist ! 0 \<and>
   bit (enable_set (enable_put zero_dist 33 True) ! 1) 1"
  using shared_enable_bit_one_word_high [OF zero_dist_ok(1), of 33] by simp

end
