(* ===== verification/Pending.thy ===== *)
theory Pending
  imports Dist
begin

text \<open>
  Making an interrupt pending: \<^verbatim>\<open>vgic_dist_set_pending_irq\<close> of \<^verbatim>\<open>vdist.h\<close>, \<^verbatim>\<open>vgic_inject_irq\<close> of
  \<^verbatim>\<open>vgic.c\<close>, and the acknowledge functions of \<^verbatim>\<open>vmm.c\<close> that \<^verbatim>\<open>virq_ack\<close> calls through the
  handle. The abstract controller of this theory has no pending flags: an interrupt is pending
  exactly while it sits in a list register or waits in the queue.
\<close>

section \<open>Injection\<close>

lemma state_update_order [simp]:
  "vgic_update f (dist_update g s) = dist_update g (vgic_update f s)"
  "trace_update t (dist_update g s) = dist_update g (trace_update t s)"
  "trace_update t (vgic_update f s) = vgic_update f (trace_update t s)"
  for s :: vmm_state
  by simp_all

text \<open>The second half of \<^verbatim>\<open>vgic_dist_set_pending_irq\<close>, after the pending flag is set: the
  interrupt goes through the queue into the first empty list register, if there is one.\<close>

definition queue_and_load ::
    "board \<Rightarrow> kernel \<Rightarrow> u64 \<Rightarrow> handle_ptr \<Rightarrow> vmm_state \<Rightarrow> (bool \<times> vmm_state) res" where
  "queue_and_load b K vcpu_id virq_data s =
     bind_res (vgic_irq_enqueue (vgic s) vcpu_id virq_data) (\<lambda>(err, v).
     c_assert (err = 0)
       (let s1 = s\<lparr>vgic := v\<rparr> in
        bind_res (vgic_find_empty_list_reg (vgic s1) vcpu_id) (\<lambda>idx.
        if idx < 0 then Ret (True, s1)
        else bind_res (vgic_irq_dequeue (vgic s1) vcpu_id) (\<lambda>(virq', v').
          let s2 = s1\<lparr>vgic := v'\<rparr> in
          bind_res (deref (vgic s2) virq') (\<lambda>h.
          c_assert (virq h \<noteq> VIRQ_INVALID)
            (vgic_vcpu_load_list_reg K vcpu_id idx (irq_inject_group b) virq' s2))))))"

definition vgic_dist_set_pending_irq ::
    "board \<Rightarrow> kernel \<Rightarrow> u64 \<Rightarrow> int \<Rightarrow> vmm_state \<Rightarrow> (bool \<times> vmm_state) res" where
  "vgic_dist_set_pending_irq b K vcpu_id irq s =
     bind_res (virq_find_irq_data (vgic s) vcpu_id irq) (\<lambda>virq_data.
     bind_res (deref (vgic s) virq_data) (\<lambda>h.
     if virq h = VIRQ_INVALID \<or> \<not> vgic_dist_is_enabled b (dist s) then Ret (False, s)
     else bind_res (is_enabled (dist s) irq (to_c_int vcpu_id)) (\<lambda>en.
     if \<not> en then Ret (False, s)
     else bind_res (is_pending (dist s) (virq h) (to_c_int vcpu_id)) (\<lambda>pend.
     if pend then Ret (True, s)
     else bind_res (set_pending (dist s) (virq h) True (to_c_int vcpu_id)) (\<lambda>d.
     queue_and_load b K vcpu_id virq_data (s\<lparr>dist := d\<rparr>))))))"

definition vgic_inject_irq :: "board \<Rightarrow> kernel \<Rightarrow> u64 \<Rightarrow> int \<Rightarrow> vmm_state \<Rightarrow> (bool \<times> vmm_state) res" where
  "vgic_inject_irq b K vcpu_id irq s = vgic_dist_set_pending_irq b K vcpu_id irq s"

section \<open>Acknowledging\<close>

definition SERIAL_IRQ_CH :: u64 where "SERIAL_IRQ_CH = 1"

definition SERIAL_IRQ :: "board \<Rightarrow> int" where
  "SERIAL_IRQ b = (case b of Qemu_arm_virt_hyp \<Rightarrow> 33 | Odroidc2 \<Rightarrow> 225 | Imx8mm_evk \<Rightarrow> 79)"

definition vppi_event_ack :: "kernel \<Rightarrow> u64 \<Rightarrow> int \<Rightarrow> vmm_state \<Rightarrow> vmm_state res" where
  "vppi_event_ack K vcpu_id irq s =
     (let err = k_ack_vppi K (trace s) (of_int irq);
          s1 = emit (Ev_AckVPPI VM_ID (of_int irq)) s
      in c_assert (err = seL4_NoError) (Ret s1))"

definition sgi_ack :: "u64 \<Rightarrow> int \<Rightarrow> vmm_state \<Rightarrow> vmm_state res" where
  "sgi_ack vcpu_id irq s = Ret s"

definition serial_ack :: "board \<Rightarrow> kernel \<Rightarrow> u64 \<Rightarrow> int \<Rightarrow> vmm_state \<Rightarrow> vmm_state res" where
  "serial_ack b K vcpu_id irq s =
     (case b of
        Qemu_arm_virt_hyp \<Rightarrow> Ret (emit (Ev_IrqAck SERIAL_IRQ_CH) s)
      | Odroidc2 \<Rightarrow>
          bind_res (vgic_inject_irq b K VCPU_ID (to_c_int SERIAL_IRQ_CH) (emit (Ev_IrqAck SERIAL_IRQ_CH) s))
            (\<lambda>(_, s1). Ret s1)
      | Imx8mm_evk \<Rightarrow> Ret s)"

text \<open>The call through the function pointer of a handle.\<close>

fun call_ack_fn :: "irq_ack_fn \<Rightarrow> board \<Rightarrow> kernel \<Rightarrow> u64 \<Rightarrow> int \<Rightarrow> vmm_state \<Rightarrow> vmm_state res" where
  "call_ack_fn Vppi_event_ack b K vcpu_id irq s = vppi_event_ack K vcpu_id irq s"
| "call_ack_fn Sgi_ack b K vcpu_id irq s = sgi_ack vcpu_id irq s"
| "call_ack_fn Serial_ack b K vcpu_id irq s = serial_ack b K vcpu_id irq s"

definition virq_ack :: "board \<Rightarrow> kernel \<Rightarrow> u64 \<Rightarrow> virq_handle \<Rightarrow> vmm_state \<Rightarrow> vmm_state res" where
  "virq_ack b K vcpu_id h s =
     (case ack_fn h of
        None \<Rightarrow> Fault Assert_failed
      | Some f \<Rightarrow> call_ack_fn f b K vcpu_id (virq h) s)"

section \<open>The abstract controller\<close>

record irq_abs =
  a_on :: bool
  a_known :: "int \<Rightarrow> bool"
  a_enabled :: "int \<Rightarrow> bool"
  a_lrs :: "int option list"
  a_wait :: "int list"

definition in_flight :: "irq_abs \<Rightarrow> int list" where
  "in_flight a = List.map_filter id (a_lrs a) @ a_wait a"

definition a_inject :: "int \<Rightarrow> irq_abs \<Rightarrow> bool \<times> irq_abs" where
  "a_inject irq a =
     (if \<not> a_known a irq \<or> \<not> a_on a \<or> \<not> a_enabled a irq then (False, a)
      else if irq \<in> set (in_flight a) then (True, a)
      else case find_slot (\<lambda>x. x = None) (a_lrs a) 0 of
             Some i \<Rightarrow> (True, a\<lparr>a_lrs := (a_lrs a)[i := Some irq]\<rparr>)
           | None \<Rightarrow> (True, a\<lparr>a_wait := a_wait a @ [irq]\<rparr>))"

text \<open>The abstraction: what a list register holds, what the queued pointers point to.\<close>

definition lr_irq :: "virq_handle \<Rightarrow> int option" where
  "lr_irq h = (if virq h = VIRQ_INVALID then None else Some (virq h))"

definition ptr_irq :: "vgic_t \<Rightarrow> handle_ptr \<Rightarrow> int" where
  "ptr_irq v p = (case deref v p of Ret h \<Rightarrow> virq h | Fault e \<Rightarrow> VIRQ_INVALID)"

definition waiting :: "vgic_t \<Rightarrow> handle_ptr list" where
  "waiting v = queue_list (irq_queue (vcpu0 v))"

definition flight :: "vgic_t \<Rightarrow> int list" where
  "flight v = List.map_filter lr_irq (lr_shadow (vcpu0 v)) @ map (ptr_irq v) (waiting v)"

definition irq_abs_of :: "board \<Rightarrow> vmm_state \<Rightarrow> irq_abs" where
  "irq_abs_of b s = \<lparr>a_on = vgic_dist_is_enabled b (dist s),
     a_known = (\<lambda>k. registered (vgic s) VCPU_ID k \<noteq> None),
     a_enabled = enabled (dist s),
     a_lrs = map lr_irq (lr_shadow (vcpu0 (vgic s))),
     a_wait = map (ptr_irq (vgic s)) (waiting (vgic s))\<rparr>"

section \<open>The invariant\<close>

text \<open>A handle that is the one registered for its interrupt, and a pointer to such a handle.\<close>

definition good_handle :: "vgic_t \<Rightarrow> virq_handle \<Rightarrow> bool" where
  "good_handle v h \<longleftrightarrow> registered v VCPU_ID (virq h) = Some h"

definition good_ptr :: "vgic_t \<Rightarrow> handle_ptr \<Rightarrow> bool" where
  "good_ptr v p = (case deref v p of Ret h \<Rightarrow> good_handle v h | Fault e \<Rightarrow> False)"

text \<open>
  The tables, arrays and ring are well formed; every registered interrupt has a bit and an
  acknowledge function; what sits in list registers and in the queue is a registered interrupt;
  no interrupt is in flight twice, and those in flight are exactly the pending ones; interrupts
  wait only while all list registers are taken.
\<close>

definition irq_inv :: "vmm_state \<Rightarrow> bool" where
  "irq_inv s \<longleftrightarrow> wf_vgic (vgic s) \<and> wf_dist (dist s) \<and> mirrored (dist s) \<and>
     (\<forall>k h. registered (vgic s) VCPU_ID k = Some h \<longrightarrow> has_bit k \<and> ack_fn h \<noteq> None) \<and>
     (\<forall>h \<in> set (lr_shadow (vcpu0 (vgic s))). virq h = VIRQ_INVALID \<or> good_handle (vgic s) h) \<and>
     (\<forall>p \<in> set (waiting (vgic s)). good_ptr (vgic s) p) \<and>
     distinct (flight (vgic s)) \<and> set (flight (vgic s)) = {k. pending (dist s) k} \<and>
     (waiting (vgic s) = [] \<or> (\<forall>h \<in> set (lr_shadow (vcpu0 (vgic s))). virq h \<noteq> VIRQ_INVALID))"

lemma in_flight_irq_abs_of [simp]: "in_flight (irq_abs_of b s) = flight (vgic s)"
  by (simp add: in_flight_def irq_abs_of_def flight_def List.map_filter_def comp_def filter_map)

section \<open>Operations on the only vCPU\<close>

lemma deref_put_vcpu0:
  assumes "wf_vgic v" and "local_virqs c = local_virqs (vcpu0 v)"
  shows "deref (put_vcpu0 v c) p = deref v p"
proof -
  obtain c0 where "vgic_vcpu v = [c0]"
    using assms(1) by (cases "vgic_vcpu v") (auto simp: wf_vgic_def NUM_VCPUS_def)
  then show ?thesis
    using assms(2) by (auto simp: deref_def put_vcpu0_def vcpu0_def arr_get_def split: option.split handle_slot.split)
qed

lemma registered_put_vcpu0:
  assumes "wf_vgic v" "wf_vcpu c" and "local_virqs c = local_virqs (vcpu0 v)"
  shows "registered (put_vcpu0 v c) VCPU_ID = registered v VCPU_ID"
proof
  fix k :: int
  have wf: "wf_vgic (put_vcpu0 v c)" by (rule wf_vgic_put_vcpu0 [OF assms(1,2)])
  consider "k < 0" | "0 \<le> k" "k < 32" | "32 \<le> k" by linarith
  then show "registered (put_vcpu0 v c) VCPU_ID k = registered v VCPU_ID k"
    using assms wf by cases (simp_all add: registered_negative registered_local registered_spi)
qed

lemma lookup_registered:
  assumes "wf_vgic v" and "registered v VCPU_ID irq = Some h"
  shows "\<exists>p. virq_find_irq_data v VCPU_ID irq = Ret p \<and> deref v p = Ret h \<and> virq h = irq \<and> 0 \<le> irq"
proof -
  have "\<exists>p. virq_find_irq_data v VCPU_ID irq = Ret p \<and> deref v p = Ret h"
    using assms(2) by (auto simp: registered_def split: res.splits if_splits)
  with registered_virq [OF assms] show ?thesis by blast
qed

lemma vgic_irq_enqueue_room:
  assumes wf: "wf_vgic v" and room: "length (waiting v) < 63"
  shows "\<exists>q. vgic_irq_enqueue v VCPU_ID p = Ret (0, put_vcpu0 v ((vcpu0 v)\<lparr>irq_queue := q\<rparr>)) \<and>
     wf_queue q \<and> queue_list q = waiting v @ [p]"
proof -
  have "wf_queue (irq_queue (vcpu0 v))" using wf_vgic_vcpu0 [OF wf] by (simp add: wf_vcpu_def)
  with irq_fifo.push_room [of "irq_queue (vcpu0 v)" p] room obtain q where
    "queue_push (irq_queue (vcpu0 v)) p = Ret (0, q)" "wf_queue q" "queue_list q = waiting v @ [p]"
    unfolding waiting_def by blast
  with wf show ?thesis by (intro exI [of _ q]) (simp add: vgic_irq_enqueue_def)
qed

lemma vgic_irq_enqueue_full:
  assumes wf: "wf_vgic v" and full: "length (waiting v) = 63"
  shows "vgic_irq_enqueue v VCPU_ID p = Ret (-1, v)"
proof -
  have "wf_queue (irq_queue (vcpu0 v))" using wf_vgic_vcpu0 [OF wf] by (simp add: wf_vcpu_def)
  with irq_fifo.push_full [of "irq_queue (vcpu0 v)" p] full wf show ?thesis
    by (simp add: vgic_irq_enqueue_def waiting_def)
qed

lemma vgic_irq_dequeue_cons:
  assumes wf: "wf_vgic v" and cons: "waiting v = p # ps"
  shows "\<exists>q. vgic_irq_dequeue v VCPU_ID = Ret (p, put_vcpu0 v ((vcpu0 v)\<lparr>irq_queue := q\<rparr>)) \<and>
     wf_queue q \<and> queue_list q = ps"
proof -
  have "wf_queue (irq_queue (vcpu0 v))" using wf_vgic_vcpu0 [OF wf] by (simp add: wf_vcpu_def)
  with irq_fifo.pop_cons [of "irq_queue (vcpu0 v)" p ps] cons obtain q where
    "queue_pop (irq_queue (vcpu0 v)) = Ret (p, q)" "wf_queue q" "queue_list q = ps"
    unfolding waiting_def by blast
  with wf show ?thesis by (intro exI [of _ q]) (simp add: vgic_irq_dequeue_def)
qed

lemma vgic_irq_dequeue_empty:
  assumes wf: "wf_vgic v" and "waiting v = []"
  shows "vgic_irq_dequeue v VCPU_ID = Ret (None, v)"
proof -
  have "wf_queue (irq_queue (vcpu0 v))" using wf_vgic_vcpu0 [OF wf] by (simp add: wf_vcpu_def)
  with irq_fifo.pop_empty [of "irq_queue (vcpu0 v)"] assms show ?thesis
    by (simp add: vgic_irq_dequeue_def waiting_def)
qed

definition free_lr :: "vgic_t \<Rightarrow> nat option" where
  "free_lr v = find_slot (\<lambda>h. virq h = VIRQ_INVALID) (lr_shadow (vcpu0 v)) 0"

lemma vgic_find_empty_list_reg_eq:
  "wf_vgic v \<Longrightarrow> vgic_find_empty_list_reg v VCPU_ID = Ret (case free_lr v of Some i \<Rightarrow> int i | None \<Rightarrow> -1)"
  by (simp add: vgic_find_empty_list_reg_def free_lr_def)

lemma load_list_reg_eq:
  assumes "wf_vgic (vgic s)" and "inject_succeeds K" and "i < NUM_LIST_REGS" and "deref (vgic s) p = Ret h"
  shows "vgic_vcpu_load_list_reg K VCPU_ID (int i) g p s =
    Ret (True, (emit (Ev_InjectIRQ VM_ID (virq h) 0 g (int i)) s)\<lparr>vgic := put_vcpu0 (vgic s)
      ((vcpu0 (vgic s))\<lparr>lr_shadow := (lr_shadow (vcpu0 (vgic s)))[i := h]\<rparr>)\<rparr>)"
  using assms wf_vgic_vcpu0 [OF assms(1)]
  by (simp add: vgic_vcpu_load_list_reg_def inject_succeeds_def seL4_NoError_def emit_def wf_vcpu_def Let_def)

section \<open>The branches of an injection\<close>

lemma irq_invD:
  assumes "irq_inv s"
  shows "wf_vgic (vgic s)" "wf_dist (dist s)" "mirrored (dist s)"
    "\<And>k h. registered (vgic s) VCPU_ID k = Some h \<Longrightarrow> has_bit k \<and> ack_fn h \<noteq> None"
    "\<And>h. h \<in> set (lr_shadow (vcpu0 (vgic s))) \<Longrightarrow> virq h = VIRQ_INVALID \<or> good_handle (vgic s) h"
    "\<And>p. p \<in> set (waiting (vgic s)) \<Longrightarrow> good_ptr (vgic s) p"
    "distinct (flight (vgic s))" "set (flight (vgic s)) = {k. pending (dist s) k}"
    "waiting (vgic s) = [] \<or> (\<forall>h \<in> set (lr_shadow (vcpu0 (vgic s))). virq h \<noteq> VIRQ_INVALID)"
  using assms unfolding irq_inv_def by blast+

definition deliverable :: "board \<Rightarrow> int \<Rightarrow> vmm_state \<Rightarrow> bool" where
  "deliverable b irq s \<longleftrightarrow> registered (vgic s) VCPU_ID irq \<noteq> None \<and> vgic_dist_is_enabled b (dist s) \<and>
     enabled (dist s) irq"

lemma inject_not_deliverable:
  assumes inv: "irq_inv s" and irq: "has_bit irq" and no: "\<not> deliverable b irq s"
    and slot: "irq < 32 \<or> registered (vgic s) VCPU_ID irq \<noteq> None"
  shows "vgic_inject_irq b K VCPU_ID irq s = Ret (False, s)"
proof (cases "registered (vgic s) VCPU_ID irq")
  case None
  note wf = irq_invD(1) [OF inv]
  have "0 \<le> irq" "irq < 32" using irq slot None by (auto simp: has_bit_def)
  moreover from this None have "virq (local_virqs (vcpu0 (vgic s)) ! nat irq) = VIRQ_INVALID"
    by (auto simp: registered_local [OF wf] Let_def split: if_splits)
  ultimately show ?thesis
    using wf wf_vgic_vcpu0 [OF wf]
    by (simp add: vgic_inject_irq_def vgic_dist_set_pending_irq_def virq_find_irq_data_def
        virq_get_sgi_ppi_def wf_vcpu_def deref_simps)
next
  case (Some h)
  from lookup_registered [OF irq_invD(1) [OF inv] Some] obtain p where
    "virq_find_irq_data (vgic s) VCPU_ID irq = Ret p" "deref (vgic s) p = Ret h" "virq h = irq" "0 \<le> irq" by blast
  with no Some irq irq_invD(2) [OF inv] show ?thesis
    by (auto simp: vgic_inject_irq_def vgic_dist_set_pending_irq_def is_enabled_eq deliverable_def)
qed

lemma inject_deliverable:
  assumes inv: "irq_inv s" and del: "deliverable b irq s"
  obtains p h where "registered (vgic s) VCPU_ID irq = Some h" "virq h = irq" "has_bit irq" "0 \<le> irq"
    "deref (vgic s) p = Ret h"
    "vgic_inject_irq b K VCPU_ID irq s =
      (if pending (dist s) irq then Ret (True, s)
       else queue_and_load b K VCPU_ID p (s\<lparr>dist := pending_put (dist s) irq True\<rparr>))"
proof -
  from del obtain h where h: "registered (vgic s) VCPU_ID irq = Some h" by (auto simp: deliverable_def)
  from lookup_registered [OF irq_invD(1) [OF inv] h] obtain p where
    p: "virq_find_irq_data (vgic s) VCPU_ID irq = Ret p" "deref (vgic s) p = Ret h" "virq h = irq" "0 \<le> irq" by blast
  have irq: "has_bit irq" using irq_invD(4) [OF inv h] by simp
  with p del irq_invD(2) [OF inv] that [OF h p(3) irq p(4) p(2)] show thesis
    by (auto simp: vgic_inject_irq_def vgic_dist_set_pending_irq_def is_enabled_eq is_pending_eq
        set_pending_eq deliverable_def)
qed

lemma inject_already_pending:
  assumes "irq_inv s" and "deliverable b irq s" and "pending (dist s) irq"
  shows "vgic_inject_irq b K VCPU_ID irq s = Ret (True, s)"
  by (rule inject_deliverable [OF assms(1,2), of K]) (simp add: assms(3))

lemma free_lr_SomeD:
  assumes "wf_vgic v" and "free_lr v = Some i"
  shows "i < 4" "virq (lr_shadow (vcpu0 v) ! i) = VIRQ_INVALID" "lr_shadow (vcpu0 v) ! i \<in> set (lr_shadow (vcpu0 v))"
  using find_slot_SomeD [OF assms(2) [unfolded free_lr_def]] wf_vgic_vcpu0 [OF assms(1)]
  by (auto simp: wf_vcpu_def)

lemma wf_vgic_put_queue: "wf_vgic v \<Longrightarrow> wf_queue q \<Longrightarrow> wf_vgic (put_vcpu0 v ((vcpu0 v)\<lparr>irq_queue := q\<rparr>))"
  using wf_vgic_vcpu0 [of v] by (intro wf_vgic_put_vcpu0) (simp_all add: wf_vcpu_def)

lemma queue_and_load_free:
  assumes wf: "wf_vgic (vgic s)" and p: "deref (vgic s) p = Ret h" "virq h \<noteq> VIRQ_INVALID"
    and empty: "waiting (vgic s) = []" and free: "free_lr (vgic s) = Some i" and K: "inject_succeeds K"
  shows "\<exists>q. wf_queue q \<and> queue_list q = [] \<and> queue_and_load b K VCPU_ID p s = Ret (True,
       s\<lparr>trace := trace s @ [Ev_InjectIRQ VM_ID (virq h) 0 (irq_inject_group b) (int i)],
         vgic := put_vcpu0 (vgic s) ((vcpu0 (vgic s))\<lparr>irq_queue := q,
           lr_shadow := (lr_shadow (vcpu0 (vgic s)))[i := h]\<rparr>)\<rparr>)"
proof -
  let ?v = "vgic s" and ?c = "vcpu0 (vgic s)"
  let ?put = "\<lambda>q. put_vcpu0 ?v (?c\<lparr>irq_queue := q\<rparr>)"
  from vgic_irq_enqueue_room [OF wf, of p] empty obtain q1 where
    q1: "vgic_irq_enqueue ?v VCPU_ID p = Ret (0, ?put q1)" "wf_queue q1" "queue_list q1 = [p]" by auto
  have wf1: "wf_vgic (?put q1)" by (rule wf_vgic_put_queue [OF wf q1(2)])
  have "free_lr (?put q1) = Some i" using free by (simp add: free_lr_def)
  then have e: "vgic_find_empty_list_reg (?put q1) VCPU_ID = Ret (int i)" by (simp add: vgic_find_empty_list_reg_eq [OF wf1])
  have "waiting (?put q1) = [p]" using q1(3) by (simp add: waiting_def)
  from vgic_irq_dequeue_cons [OF wf1 this] obtain q2 where
    q2: "vgic_irq_dequeue (?put q1) VCPU_ID = Ret (p, ?put q2)" "wf_queue q2" "queue_list q2 = []" by auto
  have wf2: "wf_vgic (?put q2)" by (rule wf_vgic_put_queue [OF wf q2(2)])
  have d2: "deref (?put q2) p = Ret h" using deref_put_vcpu0 [OF wf, of "?c\<lparr>irq_queue := q2\<rparr>"] p by simp
  have "queue_and_load b K VCPU_ID p s =
      vgic_vcpu_load_list_reg K VCPU_ID (int i) (irq_inject_group b) p (s\<lparr>vgic := ?put q2\<rparr>)"
    using q1(1) e q2(1) d2 p(2) by (simp add: queue_and_load_def)
  also have "\<dots> = Ret (True,
       s\<lparr>trace := trace s @ [Ev_InjectIRQ VM_ID (virq h) 0 (irq_inject_group b) (int i)],
         vgic := put_vcpu0 ?v (?c\<lparr>irq_queue := q2, lr_shadow := (lr_shadow ?c)[i := h]\<rparr>)\<rparr>)"
    using load_list_reg_eq [OF _ K free_lr_SomeD(1) [OF wf free], of "s\<lparr>vgic := ?put q2\<rparr>" p h] wf2 d2
    by (simp add: emit_def)
  finally show ?thesis using q2 by (intro exI [of _ q2] conjI)
qed

lemma queue_and_load_busy:
  assumes wf: "wf_vgic (vgic s)" and busy: "free_lr (vgic s) = None" and room: "length (waiting (vgic s)) < 63"
  shows "\<exists>q. wf_queue q \<and> queue_list q = waiting (vgic s) @ [p] \<and> queue_and_load b K VCPU_ID p s = Ret (True,
       s\<lparr>vgic := put_vcpu0 (vgic s) ((vcpu0 (vgic s))\<lparr>irq_queue := q\<rparr>)\<rparr>)"
proof -
  let ?put = "\<lambda>q. put_vcpu0 (vgic s) ((vcpu0 (vgic s))\<lparr>irq_queue := q\<rparr>)"
  from vgic_irq_enqueue_room [OF wf room, of p] obtain q where
    q: "vgic_irq_enqueue (vgic s) VCPU_ID p = Ret (0, ?put q)" "wf_queue q" "queue_list q = waiting (vgic s) @ [p]"
    by blast
  have "vgic_find_empty_list_reg (?put q) VCPU_ID = Ret (-1)"
    using busy by (simp add: vgic_find_empty_list_reg_eq [OF wf_vgic_put_queue [OF wf q(2)]] free_lr_def)
  with q show ?thesis by (intro exI [of _ q]) (simp add: queue_and_load_def)
qed

lemma inject_into_list_register:
  assumes inv: "irq_inv s" and del: "deliverable b irq s" and np: "\<not> pending (dist s) irq"
    and free: "free_lr (vgic s) = Some i" and K: "inject_succeeds K"
  shows "\<exists>h q. registered (vgic s) VCPU_ID irq = Some h \<and> wf_queue q \<and> queue_list q = [] \<and>
     vgic_inject_irq b K VCPU_ID irq s = Ret (True,
       s\<lparr>trace := trace s @ [Ev_InjectIRQ VM_ID irq 0 (irq_inject_group b) (int i)],
         vgic := put_vcpu0 (vgic s) ((vcpu0 (vgic s))\<lparr>irq_queue := q,
           lr_shadow := (lr_shadow (vcpu0 (vgic s)))[i := h]\<rparr>),
         dist := pending_put (dist s) irq True\<rparr>)"
proof (rule inject_deliverable [OF inv del, of K])
  fix p h
  assume h: "registered (vgic s) VCPU_ID irq = Some h" "virq h = irq" "0 \<le> irq" and p: "deref (vgic s) p = Ret h"
    and unf: "vgic_inject_irq b K VCPU_ID irq s = (if pending (dist s) irq then Ret (True, s)
       else queue_and_load b K VCPU_ID p (s\<lparr>dist := pending_put (dist s) irq True\<rparr>))"
  note wf = irq_invD(1) [OF inv]
  have "waiting (vgic s) = []" using irq_invD(9) [OF inv] free_lr_SomeD [OF wf free] by blast
  with queue_and_load_free [OF _ _ _ _ _ K, of "s\<lparr>dist := pending_put (dist s) irq True\<rparr>" p h i b] wf p h free
  show ?thesis unfolding unf using np by (intro exI [of _ h]) auto
qed

lemma inject_into_queue:
  assumes inv: "irq_inv s" and del: "deliverable b irq s" and np: "\<not> pending (dist s) irq"
    and busy: "free_lr (vgic s) = None" and room: "length (waiting (vgic s)) < 63"
  shows "\<exists>p h q. registered (vgic s) VCPU_ID irq = Some h \<and> deref (vgic s) p = Ret h \<and>
     wf_queue q \<and> queue_list q = waiting (vgic s) @ [p] \<and>
     vgic_inject_irq b K VCPU_ID irq s = Ret (True,
       s\<lparr>vgic := put_vcpu0 (vgic s) ((vcpu0 (vgic s))\<lparr>irq_queue := q\<rparr>), dist := pending_put (dist s) irq True\<rparr>)"
proof (rule inject_deliverable [OF inv del, of K])
  fix p h
  assume h: "registered (vgic s) VCPU_ID irq = Some h" and p: "deref (vgic s) p = Ret h"
    and unf: "vgic_inject_irq b K VCPU_ID irq s = (if pending (dist s) irq then Ret (True, s)
       else queue_and_load b K VCPU_ID p (s\<lparr>dist := pending_put (dist s) irq True\<rparr>))"
  from queue_and_load_busy [of "s\<lparr>dist := pending_put (dist s) irq True\<rparr>" p b K] irq_invD(1) [OF inv] busy room
  show ?thesis unfolding unf using np h p by (intro exI [of _ p] exI [of _ h]) auto
qed

lemma inject_queue_full:
  assumes inv: "irq_inv s" and del: "deliverable b irq s" and np: "\<not> pending (dist s) irq"
    and full: "length (waiting (vgic s)) = 63"
  shows "vgic_inject_irq b K VCPU_ID irq s = Fault Assert_failed"
  by (rule inject_deliverable [OF inv del, of K])
    (simp add: np queue_and_load_def vgic_irq_enqueue_full [OF irq_invD(1) [OF inv] full])

section \<open>Refinement\<close>

lemma ptr_irq_put_vcpu0:
  assumes "wf_vgic v" and "local_virqs c = local_virqs (vcpu0 v)"
  shows "ptr_irq (put_vcpu0 v c) = ptr_irq v"
  using deref_put_vcpu0 [OF assms] by (simp add: ptr_irq_def fun_eq_iff)

lemma good_put_vcpu0:
  assumes "wf_vgic v" "wf_vcpu c" and "local_virqs c = local_virqs (vcpu0 v)"
  shows "good_handle (put_vcpu0 v c) = good_handle v" "good_ptr (put_vcpu0 v c) = good_ptr v"
  using deref_put_vcpu0 [OF assms(1,3)] registered_put_vcpu0 [OF assms]
  by (simp_all add: good_ptr_def good_handle_def fun_eq_iff split: res.split)

lemma waiting_put_vcpu0 [simp]: "waiting (put_vcpu0 v c) = queue_list (irq_queue c)"
  by (simp add: waiting_def)

lemma flight_put_vcpu0:
  assumes "wf_vgic v" and "local_virqs c = local_virqs (vcpu0 v)"
  shows "flight (put_vcpu0 v c) = List.map_filter lr_irq (lr_shadow c) @ map (ptr_irq v) (queue_list (irq_queue c))"
  using ptr_irq_put_vcpu0 [OF assms] by (simp add: flight_def)

text \<open>A new interrupt enters: what has to be checked of the new vCPU context.\<close>

lemma irq_inv_enter:
  assumes inv: "irq_inv s" and irq: "has_bit irq" "\<not> pending (dist s) irq"
    and c: "wf_vcpu c" "local_virqs c = local_virqs (vcpu0 (vgic s))"
    and lrs: "\<forall>h \<in> set (lr_shadow c). virq h = VIRQ_INVALID \<or> good_handle (vgic s) h"
    and que: "\<forall>p \<in> set (queue_list (irq_queue c)). good_ptr (vgic s) p"
    and split: "flight (vgic s) = as @ bs" "flight (put_vcpu0 (vgic s) c) = as @ irq # bs"
    and full: "queue_list (irq_queue c) = [] \<or> (\<forall>h \<in> set (lr_shadow c). virq h \<noteq> VIRQ_INVALID)"
  shows "irq_inv (s\<lparr>trace := t, vgic := put_vcpu0 (vgic s) c, dist := pending_put (dist s) irq True\<rparr>)"
proof -
  note D = irq_invD [OF inv]
  have new: "irq \<notin> set (as @ bs)" using D(8) irq(2) split(1) by auto
  have "set (as @ irq # bs) = {k. pending (pending_put (dist s) irq True) k}"
    using D(8) split(1) bits_put(1) [OF D(2) irq(1)] by auto
  moreover have "distinct (as @ irq # bs)" using D(7) split(1) new by auto
  ultimately show ?thesis
    using D wf_vgic_put_vcpu0 [OF D(1) c(1)] lrs que full
    unfolding irq_inv_def
    by (simp add: registered_put_vcpu0 [OF D(1) c] split(2) good_put_vcpu0 [OF D(1) c])
qed

lemma find_slot_map: "find_slot P (map f xs) i = find_slot (\<lambda>x. P (f x)) xs i"
  by (induction xs arbitrary: i) simp_all

lemma free_lr_abs: "find_slot (\<lambda>x. x = None) (a_lrs (irq_abs_of b s)) 0 = free_lr (vgic s)"
  by (simp add: irq_abs_of_def find_slot_map free_lr_def lr_irq_def)

lemma deliverable_abs:
  "deliverable b irq s \<longleftrightarrow> a_known (irq_abs_of b s) irq \<and> a_on (irq_abs_of b s) \<and> a_enabled (irq_abs_of b s) irq"
  by (simp add: deliverable_def irq_abs_of_def)

lemma inject_list_register_refines:
  assumes inv: "irq_inv s" and del: "deliverable b irq s" and np: "\<not> pending (dist s) irq"
    and free: "free_lr (vgic s) = Some i" and K: "inject_succeeds K"
  shows "\<exists>s'. vgic_inject_irq b K VCPU_ID irq s = Ret (True, s') \<and> irq_inv s' \<and>
     irq_abs_of b s' = (irq_abs_of b s)\<lparr>a_lrs := (a_lrs (irq_abs_of b s))[i := Some irq]\<rparr>"
proof -
  note D = irq_invD [OF inv]
  from inject_into_list_register [OF assms] obtain h q where
    h: "registered (vgic s) VCPU_ID irq = Some h" and q: "wf_queue q" "queue_list q = []"
    and r: "vgic_inject_irq b K VCPU_ID irq s = Ret (True,
       s\<lparr>trace := trace s @ [Ev_InjectIRQ VM_ID irq 0 (irq_inject_group b) (int i)],
         vgic := put_vcpu0 (vgic s) ((vcpu0 (vgic s))\<lparr>irq_queue := q,
           lr_shadow := (lr_shadow (vcpu0 (vgic s)))[i := h]\<rparr>),
         dist := pending_put (dist s) irq True\<rparr>)" by blast
  let ?c = "(vcpu0 (vgic s))\<lparr>irq_queue := q, lr_shadow := (lr_shadow (vcpu0 (vgic s)))[i := h]\<rparr>"
  have hirq: "virq h = irq" "0 \<le> irq" and irq: "has_bit irq" and good: "good_handle (vgic s) h"
    using lookup_registered [OF D(1) h] D(4) [OF h] h by (auto simp: good_handle_def)
  have wait: "waiting (vgic s) = []" using D(9) free_lr_SomeD [OF D(1) free] by blast
  have wfc: "wf_vcpu ?c" using wf_vgic_vcpu0 [OF D(1)] q(1) by (simp add: wf_vcpu_def)
  have i: "i < length (lr_shadow (vcpu0 (vgic s)))" "lr_irq (lr_shadow (vcpu0 (vgic s)) ! i) = None" "lr_irq h = Some irq"
    using free_lr_SomeD [OF D(1) free] wf_vgic_vcpu0 [OF D(1)] hirq by (simp_all add: wf_vcpu_def lr_irq_def)
  from map_filter_upd [OF i] obtain as bs where
    "List.map_filter lr_irq (lr_shadow (vcpu0 (vgic s))) = as @ bs"
    "List.map_filter lr_irq ((lr_shadow (vcpu0 (vgic s)))[i := h]) = as @ irq # bs" by blast
  then have sp: "flight (vgic s) = as @ bs" "flight (put_vcpu0 (vgic s) ?c) = as @ irq # bs"
    using wait q(2) by (simp_all add: flight_def)
  have lrs: "\<forall>h' \<in> set (lr_shadow ?c). virq h' = VIRQ_INVALID \<or> good_handle (vgic s) h'"
    using D(5) good set_update_subset_insert [of "lr_shadow (vcpu0 (vgic s))" i h] by auto
  note inv' = irq_inv_enter [OF inv irq np wfc _ lrs _ sp, of "trace s @ [Ev_InjectIRQ VM_ID irq 0 (irq_inject_group b) (int i)]"]
  show ?thesis
    using inv' r q(2) i(3) wait
    by (simp add: irq_abs_of_def bits_put(3) [OF D(2) irq] registered_put_vcpu0 [OF D(1) wfc] map_update)
qed

lemma inject_queue_refines:
  assumes inv: "irq_inv s" and del: "deliverable b irq s" and np: "\<not> pending (dist s) irq"
    and busy: "free_lr (vgic s) = None" and room: "length (waiting (vgic s)) < 63"
  shows "\<exists>s'. vgic_inject_irq b K VCPU_ID irq s = Ret (True, s') \<and> irq_inv s' \<and>
     irq_abs_of b s' = (irq_abs_of b s)\<lparr>a_wait := a_wait (irq_abs_of b s) @ [irq]\<rparr>"
proof -
  note D = irq_invD [OF inv]
  from inject_into_queue [OF assms, of K] obtain p h q where
    h: "registered (vgic s) VCPU_ID irq = Some h" "deref (vgic s) p = Ret h"
    and q: "wf_queue q" "queue_list q = waiting (vgic s) @ [p]"
    and r: "vgic_inject_irq b K VCPU_ID irq s = Ret (True,
       s\<lparr>vgic := put_vcpu0 (vgic s) ((vcpu0 (vgic s))\<lparr>irq_queue := q\<rparr>), dist := pending_put (dist s) irq True\<rparr>)"
    by blast
  let ?c = "(vcpu0 (vgic s))\<lparr>irq_queue := q\<rparr>"
  have irq: "has_bit irq" and good: "good_handle (vgic s) h" and p: "ptr_irq (vgic s) p = irq"
    using lookup_registered [OF D(1) h(1)] D(4) [OF h(1)] h by (auto simp: ptr_irq_def good_handle_def)
  have wfc: "wf_vcpu ?c" using wf_vgic_vcpu0 [OF D(1)] q(1) by (simp add: wf_vcpu_def)
  have sp: "flight (vgic s) = flight (vgic s) @ []" "flight (put_vcpu0 (vgic s) ?c) = flight (vgic s) @ irq # []"
    using q(2) p flight_put_vcpu0 [OF D(1), of ?c] by (simp_all add: flight_def)
  have que: "\<forall>p' \<in> set (queue_list (irq_queue ?c)). good_ptr (vgic s) p'"
    using D(6) q(2) good h(2) by (auto simp: good_ptr_def)
  have full: "\<forall>h \<in> set (lr_shadow ?c). virq h \<noteq> VIRQ_INVALID"
    using busy by (simp add: free_lr_def find_slot_None_iff)
  note inv' = irq_inv_enter [OF inv irq np wfc _ _ que sp, of "trace s"]
  show ?thesis
    using inv' r q(2) p full D(5)
    by (simp add: irq_abs_of_def bits_put(3) [OF D(2) irq] registered_put_vcpu0 [OF D(1) wfc]
        ptr_irq_put_vcpu0 [OF D(1)])
qed

lemma inject_refines:
  assumes inv: "irq_inv s" and irq: "has_bit irq" and slot: "irq < 32 \<or> registered (vgic s) VCPU_ID irq \<noteq> None"
    and K: "inject_succeeds K" and room: "length (waiting (vgic s)) < 63"
  shows "\<exists>s'. vgic_inject_irq b K VCPU_ID irq s = Ret (fst (a_inject irq (irq_abs_of b s)), s') \<and> irq_inv s' \<and>
     irq_abs_of b s' = snd (a_inject irq (irq_abs_of b s))"
proof (cases "deliverable b irq s")
  case False
  then have "a_inject irq (irq_abs_of b s) = (False, irq_abs_of b s)"
    by (auto simp: a_inject_def deliverable_abs)
  with inject_not_deliverable [OF inv irq False slot] inv show ?thesis by simp
next
  case True
  have known: "a_known (irq_abs_of b s) irq" "a_on (irq_abs_of b s)" "a_enabled (irq_abs_of b s) irq"
    using True by (simp_all add: deliverable_abs)
  show ?thesis
  proof (cases "pending (dist s) irq")
    case True
    then have "irq \<in> set (flight (vgic s))" using irq_invD(8) [OF inv] by simp
    with known inject_already_pending [OF inv \<open>deliverable b irq s\<close> True] inv show ?thesis by (simp add: a_inject_def)
  next
    case False
    then have "irq \<notin> set (flight (vgic s))" using irq_invD(8) [OF inv] by simp
    with known inject_list_register_refines [OF inv \<open>deliverable b irq s\<close> False _ K]
      inject_queue_refines [OF inv \<open>deliverable b irq s\<close> False _ room, of K]
    show ?thesis by (cases "free_lr (vgic s)") (auto simp: a_inject_def free_lr_abs)
  qed
qed

text \<open>
  What an injection tells the kernel, from the abstract state: one call for the first empty list
  register if the interrupt is known, switched on and not in flight, otherwise nothing.
\<close>

definition inject_events :: "board \<Rightarrow> int \<Rightarrow> irq_abs \<Rightarrow> event list" where
  "inject_events b irq a =
     (if a_known a irq \<and> a_on a \<and> a_enabled a irq \<and> irq \<notin> set (in_flight a)
      then case find_slot (\<lambda>x. x = None) (a_lrs a) 0 of
             Some i \<Rightarrow> [Ev_InjectIRQ VM_ID irq 0 (irq_inject_group b) (int i)]
           | None \<Rightarrow> []
      else [])"

lemma inject_events_abs:
  assumes "irq_inv s"
  shows "inject_events b irq (irq_abs_of b s) =
     (if deliverable b irq s \<and> \<not> pending (dist s) irq
      then case free_lr (vgic s) of Some i \<Rightarrow> [Ev_InjectIRQ VM_ID irq 0 (irq_inject_group b) (int i)] | None \<Rightarrow> []
      else [])"
  using irq_invD(8) [OF assms] by (auto simp: inject_events_def free_lr_abs deliverable_abs)

lemma inject_traced:
  assumes inv: "irq_inv s" and irq: "has_bit irq" and slot: "irq < 32 \<or> registered (vgic s) VCPU_ID irq \<noteq> None"
    and K: "inject_succeeds K" and room: "length (waiting (vgic s)) < 63"
  shows "\<exists>s'. vgic_inject_irq b K VCPU_ID irq s = Ret (fst (a_inject irq (irq_abs_of b s)), s') \<and> irq_inv s' \<and>
     irq_abs_of b s' = snd (a_inject irq (irq_abs_of b s)) \<and>
     trace s' = trace s @ inject_events b irq (irq_abs_of b s)"
proof -
  from inject_refines [OF assms, of b] obtain s' where
    s': "vgic_inject_irq b K VCPU_ID irq s = Ret (fst (a_inject irq (irq_abs_of b s)), s')" "irq_inv s'"
      "irq_abs_of b s' = snd (a_inject irq (irq_abs_of b s))" by blast
  have "trace s' = trace s @ inject_events b irq (irq_abs_of b s)"
  proof (cases "deliverable b irq s \<and> \<not> pending (dist s) irq")
    case True
    then show ?thesis
      using s'(1) inject_into_list_register [OF inv _ _ _ K, of b irq] inject_into_queue [OF inv _ _ _ room, of b irq K]
      by (cases "free_lr (vgic s)") (auto simp: inject_events_abs [OF inv])
  next
    case False
    then have "\<exists>r. vgic_inject_irq b K VCPU_ID irq s = Ret (r, s)"
      using inject_not_deliverable [OF inv irq _ slot] inject_already_pending [OF inv] by blast
    with False s'(1) show ?thesis by (auto simp: inject_events_abs [OF inv])
  qed
  with s' show ?thesis by blast
qed

text \<open>With an empty list register nothing is queued.\<close>

lemma a_inject_wait: "None \<in> set (a_lrs a) \<Longrightarrow> a_wait (snd (a_inject irq a)) = a_wait a"
  by (auto simp: a_inject_def find_slot_None_iff split: option.splits)

section \<open>The queue has room\<close>

definition known_irqs :: "vgic_t \<Rightarrow> int set" where
  "known_irqs v = {k. registered v VCPU_ID k \<noteq> None}"

lemma finite_known:
  assumes "irq_inv s"
  shows "finite (known_irqs (vgic s))"
proof (rule finite_subset)
  show "known_irqs (vgic s) \<subseteq> {0..<992}"
    using irq_invD(4) [OF assms] by (auto simp: known_irqs_def has_bit_def)
qed simp

lemma flight_known:
  assumes "irq_inv s"
  shows "set (flight (vgic s)) \<subseteq> known_irqs (vgic s)"
proof -
  note D = irq_invD [OF assms]
  have "ptr_irq (vgic s) p \<in> known_irqs (vgic s)" if "p \<in> set (waiting (vgic s))" for p
    using D(6) [OF that] by (auto simp: good_ptr_def good_handle_def known_irqs_def ptr_irq_def split: res.splits)
  moreover have "virq h \<in> known_irqs (vgic s)" if "h \<in> set (lr_shadow (vcpu0 (vgic s)))" "virq h \<noteq> VIRQ_INVALID" for h
    using D(5) [OF that(1)] that(2) by (auto simp: good_handle_def known_irqs_def)
  ultimately show ?thesis by (auto simp: flight_def List.map_filter_def lr_irq_def split: if_splits)
qed

text \<open>Interrupts wait only behind four loaded ones, and all of them are registered.\<close>

lemma waiting_bound:
  assumes inv: "irq_inv s" and wait: "waiting (vgic s) \<noteq> []"
  shows "length (waiting (vgic s)) + 4 \<le> card (known_irqs (vgic s))"
proof -
  note D = irq_invD [OF inv]
  have "length (lr_shadow (vcpu0 (vgic s))) = 4" using wf_vgic_vcpu0 [OF D(1)] by (simp add: wf_vcpu_def)
  moreover have "\<forall>h \<in> set (lr_shadow (vcpu0 (vgic s))). lr_irq h \<noteq> None"
    using D(9) wait by (simp add: lr_irq_def)
  ultimately have "length (flight (vgic s)) = length (waiting (vgic s)) + 4"
    by (simp add: flight_def map_filter_length)
  also have "length (flight (vgic s)) = card (set (flight (vgic s)))" using D(7) by (simp add: distinct_card)
  finally show ?thesis using card_mono [OF finite_known [OF inv] flight_known [OF inv]] by simp
qed

lemma waiting_room: "irq_inv s \<Longrightarrow> card (known_irqs (vgic s)) \<le> 66 \<Longrightarrow> length (waiting (vgic s)) < 63"
  using waiting_bound [of s] by (cases "waiting (vgic s) = []") auto

lemma few_irqs_free_lr:
  assumes inv: "irq_inv s" and irq: "registered (vgic s) VCPU_ID irq \<noteq> None" "\<not> pending (dist s) irq"
    and few: "card (known_irqs (vgic s)) \<le> 4"
  shows "\<exists>i. free_lr (vgic s) = Some i"
proof (rule ccontr)
  note D = irq_invD [OF inv]
  assume "\<nexists>i. free_lr (vgic s) = Some i"
  then have "\<forall>h \<in> set (lr_shadow (vcpu0 (vgic s))). lr_irq h \<noteq> None"
    by (simp add: free_lr_def find_slot_None_iff lr_irq_def)
  then have "4 \<le> length (flight (vgic s))"
    using wf_vgic_vcpu0 [OF D(1)] by (simp add: flight_def map_filter_length wf_vcpu_def)
  moreover have "insert irq (set (flight (vgic s))) \<subseteq> known_irqs (vgic s)"
    using flight_known [OF inv] irq(1) by (simp add: known_irqs_def)
  then have "card (insert irq (set (flight (vgic s)))) \<le> card (known_irqs (vgic s))"
    by (intro card_mono finite_known [OF inv])
  moreover have "irq \<notin> set (flight (vgic s))" using D(8) irq(2) by simp
  ultimately show False using D(7) few by (simp add: distinct_card)
qed

section \<open>An idle controller\<close>

lemma irq_inv_idle:
  assumes "wf_vgic v" "wf_dist d" "mirrored d"
    and "\<And>k h. registered v VCPU_ID k = Some h \<Longrightarrow> has_bit k \<and> ack_fn h \<noteq> None"
    and "\<And>h. h \<in> set (lr_shadow (vcpu0 v)) \<Longrightarrow> virq h = VIRQ_INVALID"
    and "waiting v = []" and "\<And>k. \<not> pending d k"
    and "vgic s = v" "dist s = d"
  shows "irq_inv s"
proof -
  have "List.map_filter lr_irq (lr_shadow (vcpu0 v)) = []"
    using assms(5) by (auto simp: List.map_filter_def lr_irq_def filter_empty_conv)
  then have "flight v = []" using assms(6) by (simp add: flight_def)
  then show ?thesis using assms by (simp add: irq_inv_def)
qed

text \<open>A controller with the timer interrupt registered and enabled.\<close>

definition timer_handle :: virq_handle where
  "timer_handle = \<lparr>virq = 27, ack_fn = Some Vppi_event_ack, ack_data = 0\<rparr>"

definition timer_vgic :: vgic_t where
  "timer_vgic = put_vcpu0 empty_vgic ((vcpu0 empty_vgic)\<lparr>local_virqs := (replicate 32 no_virq)[27 := timer_handle]\<rparr>)"

definition timer_state :: vmm_state where
  "timer_state = \<lparr>trace = [], wzr = 0, vgic = timer_vgic, dist = enable_put (zero_dist\<lparr>ctlr := 1\<rparr>) 27 True,
     redist = zero_redist, memory = (\<lambda>_. 0)\<rparr>"

lemma wf_timer_vgic: "wf_vgic timer_vgic"
  unfolding timer_vgic_def
  by (rule wf_vgic_put_vcpu0 [OF wf_empty_vgic])
    (auto simp: wf_vcpu_def empty_vgic_def vcpu0_def wf_queue_def nth_list_update timer_handle_def)

lemma registered_timer_vgic: "registered timer_vgic VCPU_ID = [27 \<mapsto> timer_handle]"
proof
  fix k :: int
  consider "k < 0" | "0 \<le> k" "k < 32" | "32 \<le> k" by linarith
  then show "registered timer_vgic VCPU_ID k = [27 \<mapsto> timer_handle] k"
  proof cases
    case 2
    then have "nat k < 32" "nat k = 27 \<longleftrightarrow> k = 27" by auto
    then have "local_virqs (vcpu0 timer_vgic) ! nat k = (if k = 27 then timer_handle else no_virq)"
      by (simp add: timer_vgic_def nth_list_update nth_replicate)
    with 2 show ?thesis
      by (simp add: registered_local [OF wf_timer_vgic] timer_handle_def no_virq_def)
  next
    case 3
    have "find_slot (\<lambda>h. virq h \<noteq> VIRQ_INVALID \<and> virq h = k) (vspis timer_vgic) 0 = None"
      by (simp add: find_slot_None_iff timer_vgic_def empty_vgic_def)
    with 3 show ?thesis by (simp add: registered_spi [OF wf_timer_vgic])
  qed (simp add: registered_negative wf_timer_vgic)
qed

lemma timer_state_sel [simp]:
  "vgic timer_state = timer_vgic" "dist timer_state = enable_put (zero_dist\<lparr>ctlr := 1\<rparr>) 27 True" "trace timer_state = []"
  by (simp_all add: timer_state_def)

lemma timer_lrs: "lr_shadow (vcpu0 timer_vgic) = replicate 4 no_virq" "waiting timer_vgic = []"
proof -
  have "lr_shadow (vcpu0 empty_vgic) = replicate 4 no_virq" "queue_list (irq_queue (vcpu0 empty_vgic)) = []"
    by (simp_all add: empty_vgic_def vcpu0_def queue_list_def queue_len_def)
  then show "lr_shadow (vcpu0 timer_vgic) = replicate 4 no_virq" "waiting timer_vgic = []"
    by (simp_all add: timer_vgic_def)
qed

lemma irq_inv_timer_state: "irq_inv timer_state"
proof (rule irq_inv_idle [OF wf_timer_vgic])
  show "wf_dist (dist timer_state)" "mirrored (dist timer_state)"
    using zero_dist_ok by simp_all
  fix k
  show "\<not> pending (dist timer_state) k"
    using zero_dist_bits(1) zero_dist_ok by (simp add: bits_put has_bit_def)
qed (auto simp: registered_timer_vgic timer_handle_def has_bit_def timer_lrs split: if_splits)

lemma timer_deliverable: "deliverable Qemu_arm_virt_hyp 27 timer_state" "\<not> pending (dist timer_state) 27"
  "known_irqs timer_vgic = {27}"
proof -
  show "deliverable Qemu_arm_virt_hyp 27 timer_state" "\<not> pending (dist timer_state) 27"
    using zero_dist_bits(1) zero_dist_ok
    by (simp_all add: deliverable_def registered_timer_vgic bits_put has_bit_def vgic_dist_is_enabled_def
        gic_version_of_def GIC_ENABLED_def)
  show "known_irqs timer_vgic = {27}" by (auto simp: known_irqs_def registered_timer_vgic split: if_splits)
qed

section \<open>Properties\<close>

text \<open>
  C5. Injection refines the abstract controller. From a state that satisfies the invariant, with
  at most 66 interrupts registered, injecting an interrupt (a local one, or a registered shared
  one) returns; the answer is the abstract controller's: false when the interrupt is not
  registered or not enabled, true when it is already in flight or has been put into the first
  empty list register or, when there is none, at the end of the queue. The invariant holds
  afterwards: no interrupt is lost or in flight twice.
\<close>

theorem inject_refines_controller:
  assumes "irq_inv s" and "has_bit irq" and "irq < 32 \<or> registered (vgic s) VCPU_ID irq \<noteq> None"
    and "inject_succeeds K" and "card (known_irqs (vgic s)) \<le> 66"
  shows "\<exists>s'. vgic_inject_irq b K VCPU_ID irq s = Ret (fst (a_inject irq (irq_abs_of b s)), s') \<and> irq_inv s' \<and>
     irq_abs_of b s' = snd (a_inject irq (irq_abs_of b s))"
  using inject_refines [OF assms(1-4) waiting_room [OF assms(1,5)]] .

theorem inject_refines_controller_witness:
  "\<exists>s'. vgic_inject_irq Qemu_arm_virt_hyp (demo_kernel zero_ctx (\<lambda>_. 0) Other_label) VCPU_ID 27 timer_state = Ret (True, s') \<and>
     irq_inv s' \<and> a_lrs (irq_abs_of Qemu_arm_virt_hyp s') = [Some 27, None, None, None]"
proof -
  let ?a = "irq_abs_of Qemu_arm_virt_hyp timer_state"
  have lrs: "a_lrs ?a = [None, None, None, None]"
    by (simp add: irq_abs_of_def timer_lrs lr_irq_def eval_nat_numeral)
  have "a_known ?a 27" "a_on ?a" "a_enabled ?a 27"
    using timer_deliverable(1) by (simp_all add: deliverable_abs)
  moreover have "in_flight ?a = []" by (simp add: flight_def timer_lrs List.map_filter_def lr_irq_def)
  ultimately have a: "a_inject 27 ?a = (True, ?a\<lparr>a_lrs := [Some 27, None, None, None]\<rparr>)"
    by (simp add: a_inject_def lrs)
  show ?thesis
    using inject_refines_controller [OF irq_inv_timer_state, of 27 "demo_kernel zero_ctx (\<lambda>_. 0) Other_label" Qemu_arm_virt_hyp]
    unfolding a by (auto simp: has_bit_def timer_deliverable(3))
qed

text \<open>
  With at most four registered interrupts, as many as there are list registers, an enabled
  interrupt that is not yet pending is handed to the hardware at once, in the first empty list
  register; nothing ever waits in the queue.
\<close>

lemma few_irqs_injected_at_once:
  assumes "irq_inv s" and "deliverable b irq s" and "\<not> pending (dist s) irq"
    and "card (known_irqs (vgic s)) \<le> 4" and "inject_succeeds K"
  shows "\<exists>i s'. free_lr (vgic s) = Some i \<and> vgic_inject_irq b K VCPU_ID irq s = Ret (True, s') \<and>
     trace s' = trace s @ [Ev_InjectIRQ VM_ID irq 0 (irq_inject_group b) (int i)] \<and> waiting (vgic s') = []"
proof -
  have "registered (vgic s) VCPU_ID irq \<noteq> None" using assms(2) by (simp add: deliverable_def)
  from few_irqs_free_lr [OF assms(1) this assms(3,4)] obtain i where i: "free_lr (vgic s) = Some i" by blast
  from inject_into_list_register [OF assms(1-3) i assms(5)] i show ?thesis by fastforce
qed

lemma few_irqs_injected_at_once_example:
  "\<exists>i s'. vgic_inject_irq Qemu_arm_virt_hyp (demo_kernel zero_ctx (\<lambda>_. 0) Other_label) VCPU_ID 27 timer_state = Ret (True, s') \<and>
     trace s' = [Ev_InjectIRQ VM_ID 27 0 (irq_inject_group Qemu_arm_virt_hyp) (int i)]"
  using few_irqs_injected_at_once [OF irq_inv_timer_state timer_deliverable(1,2), of "demo_kernel zero_ctx (\<lambda>_. 0) Other_label"]
  by (auto simp: timer_deliverable(3))

text \<open>
  Injecting a shared interrupt that nobody registered dereferences a null pointer: the lookup
  finds no handle and the code reads through the result without a test.
\<close>

lemma inject_unregistered_spi_faults:
  assumes "wf_vgic (vgic s)" and "32 \<le> irq" and "registered (vgic s) VCPU_ID irq = None"
  shows "vgic_inject_irq b K VCPU_ID irq s = Fault Null_deref"
proof -
  have "virq_find_irq_data (vgic s) VCPU_ID irq = Ret None"
    using assms by (simp add: registered_spi virq_find_irq_data_def virq_find_spi_irq_data_def)
  then show ?thesis by (simp add: vgic_inject_irq_def vgic_dist_set_pending_irq_def deref_simps)
qed

lemma inject_unregistered_spi_faults_witness:
  "vgic_inject_irq Qemu_arm_virt_hyp (demo_kernel zero_ctx (\<lambda>_. 0) Other_label) VCPU_ID 33 timer_state = Fault Null_deref"
  using inject_unregistered_spi_faults [of timer_state 33] by (simp add: wf_timer_vgic registered_timer_vgic)

end
