(* ===== verification/Vdist.thy ===== *)
theory Vdist
  imports Pending
begin

text \<open>
  The distributor as the guest sees it (\<^verbatim>\<open>vdist.h\<close>): enabling, disabling and clearing interrupts,
  and the emulation of loads and stores on its register page.
\<close>

section \<open>Register map\<close>

abbreviation (input) GIC_DIST_CTLR :: u64 where "GIC_DIST_CTLR \<equiv> 0x000"
abbreviation (input) GIC_DIST_TYPER :: u64 where "GIC_DIST_TYPER \<equiv> 0x004"
abbreviation (input) GIC_DIST_IIDR :: u64 where "GIC_DIST_IIDR \<equiv> 0x008"
abbreviation (input) GIC_DIST_IGROUPR0 :: u64 where "GIC_DIST_IGROUPR0 \<equiv> 0x080"
abbreviation (input) GIC_DIST_IGROUPR1 :: u64 where "GIC_DIST_IGROUPR1 \<equiv> 0x084"
abbreviation (input) GIC_DIST_IGROUPRN :: u64 where "GIC_DIST_IGROUPRN \<equiv> 0x0FC"
abbreviation (input) GIC_DIST_ISENABLER0 :: u64 where "GIC_DIST_ISENABLER0 \<equiv> 0x100"
abbreviation (input) GIC_DIST_ISENABLER1 :: u64 where "GIC_DIST_ISENABLER1 \<equiv> 0x104"
abbreviation (input) GIC_DIST_ISENABLERN :: u64 where "GIC_DIST_ISENABLERN \<equiv> 0x17C"
abbreviation (input) GIC_DIST_ICENABLER0 :: u64 where "GIC_DIST_ICENABLER0 \<equiv> 0x180"
abbreviation (input) GIC_DIST_ICENABLER1 :: u64 where "GIC_DIST_ICENABLER1 \<equiv> 0x184"
abbreviation (input) GIC_DIST_ICENABLERN :: u64 where "GIC_DIST_ICENABLERN \<equiv> 0x1fC"
abbreviation (input) GIC_DIST_ISPENDR0 :: u64 where "GIC_DIST_ISPENDR0 \<equiv> 0x200"
abbreviation (input) GIC_DIST_ISPENDR1 :: u64 where "GIC_DIST_ISPENDR1 \<equiv> 0x204"
abbreviation (input) GIC_DIST_ISPENDRN :: u64 where "GIC_DIST_ISPENDRN \<equiv> 0x27C"
abbreviation (input) GIC_DIST_ICPENDR0 :: u64 where "GIC_DIST_ICPENDR0 \<equiv> 0x280"
abbreviation (input) GIC_DIST_ICPENDR1 :: u64 where "GIC_DIST_ICPENDR1 \<equiv> 0x284"
abbreviation (input) GIC_DIST_ICPENDRN :: u64 where "GIC_DIST_ICPENDRN \<equiv> 0x2FC"
abbreviation (input) GIC_DIST_ISACTIVER0 :: u64 where "GIC_DIST_ISACTIVER0 \<equiv> 0x300"
abbreviation (input) GIC_DIST_ISACTIVER1 :: u64 where "GIC_DIST_ISACTIVER1 \<equiv> 0x304"
abbreviation (input) GIC_DIST_ISACTIVERN :: u64 where "GIC_DIST_ISACTIVERN \<equiv> 0x37C"
abbreviation (input) GIC_DIST_ICACTIVER0 :: u64 where "GIC_DIST_ICACTIVER0 \<equiv> 0x380"
abbreviation (input) GIC_DIST_ICACTIVER1 :: u64 where "GIC_DIST_ICACTIVER1 \<equiv> 0x384"
abbreviation (input) GIC_DIST_ICACTIVERN :: u64 where "GIC_DIST_ICACTIVERN \<equiv> 0x3FC"
abbreviation (input) GIC_DIST_IPRIORITYR0 :: u64 where "GIC_DIST_IPRIORITYR0 \<equiv> 0x400"
abbreviation (input) GIC_DIST_IPRIORITYR7 :: u64 where "GIC_DIST_IPRIORITYR7 \<equiv> 0x41C"
abbreviation (input) GIC_DIST_IPRIORITYR8 :: u64 where "GIC_DIST_IPRIORITYR8 \<equiv> 0x420"
abbreviation (input) GIC_DIST_IPRIORITYRN :: u64 where "GIC_DIST_IPRIORITYRN \<equiv> 0x7F8"
abbreviation (input) GIC_DIST_ITARGETSR0 :: u64 where "GIC_DIST_ITARGETSR0 \<equiv> 0x800"
abbreviation (input) GIC_DIST_ITARGETSR7 :: u64 where "GIC_DIST_ITARGETSR7 \<equiv> 0x81C"
abbreviation (input) GIC_DIST_ITARGETSR8 :: u64 where "GIC_DIST_ITARGETSR8 \<equiv> 0x820"
abbreviation (input) GIC_DIST_ITARGETSRN :: u64 where "GIC_DIST_ITARGETSRN \<equiv> 0xBF8"
abbreviation (input) GIC_DIST_ICFGR0 :: u64 where "GIC_DIST_ICFGR0 \<equiv> 0xC00"
abbreviation (input) GIC_DIST_ICFGRN :: u64 where "GIC_DIST_ICFGRN \<equiv> 0xCFC"
abbreviation (input) GIC_DIST_SGIR :: u64 where "GIC_DIST_SGIR \<equiv> 0xF00"
abbreviation (input) GIC_DIST_CPENDSGIR0 :: u64 where "GIC_DIST_CPENDSGIR0 \<equiv> 0xF10"
abbreviation (input) GIC_DIST_CPENDSGIRN :: u64 where "GIC_DIST_CPENDSGIRN \<equiv> 0xF1C"
abbreviation (input) GIC_DIST_SPENDSGIR0 :: u64 where "GIC_DIST_SPENDSGIR0 \<equiv> 0xF20"
abbreviation (input) GIC_DIST_SPENDSGIRN :: u64 where "GIC_DIST_SPENDSGIRN \<equiv> 0xF2C"

definition GIC_DIST_PADDR :: "board \<Rightarrow> u64" where
  "GIC_DIST_PADDR b = (case b of Qemu_arm_virt_hyp \<Rightarrow> 0x8000000 | Odroidc2 \<Rightarrow> 0xc4301000 | Imx8mm_evk \<Rightarrow> 0x38800000)"

definition GIC_DIST_REGN :: "u64 \<Rightarrow> u64 \<Rightarrow> u64" where
  "GIC_DIST_REGN offset reg = (offset - reg) div 4"

text \<open>The case range \<^verbatim>\<open>RANGE32(a, b)\<close>.\<close>

definition RANGE32 :: "u64 \<Rightarrow> u64 \<Rightarrow> u64 \<Rightarrow> bool" where
  "RANGE32 a b x \<longleftrightarrow> a \<le> x \<and> x \<le> b + 3"

section \<open>Interrupt configuration\<close>

definition vgic_dist_enable_irq :: "board \<Rightarrow> kernel \<Rightarrow> u64 \<Rightarrow> int \<Rightarrow> vmm_state \<Rightarrow> vmm_state res" where
  "vgic_dist_enable_irq b K vcpu_id irq s =
     bind_res (set_enable (dist s) irq True (to_c_int vcpu_id)) (\<lambda>d.
     let s1 = s\<lparr>dist := d\<rparr> in
     bind_res (virq_find_irq_data (vgic s1) vcpu_id irq) (\<lambda>virq_data.
     if virq_data = None then Ret s1
     else bind_res (deref (vgic s1) virq_data) (\<lambda>h.
       if virq h \<noteq> VIRQ_INVALID
       then bind_res (is_pending (dist s1) (virq h) (to_c_int vcpu_id)) (\<lambda>pend.
         if \<not> pend then virq_ack b K vcpu_id h s1 else Ret s1)
       else Ret s1)))"

definition vgic_dist_disable_irq :: "u64 \<Rightarrow> int \<Rightarrow> vmm_state \<Rightarrow> vmm_state res" where
  "vgic_dist_disable_irq vcpu_id irq s =
     (if irq \<ge> int NUM_SGI_VIRQS
      then bind_res (set_enable (dist s) irq False (to_c_int vcpu_id)) (\<lambda>d. Ret (s\<lparr>dist := d\<rparr>))
      else Ret s)"

definition vgic_dist_clr_pending_irq :: "u64 \<Rightarrow> int \<Rightarrow> vmm_state \<Rightarrow> vmm_state res" where
  "vgic_dist_clr_pending_irq vcpu_id irq s =
     bind_res (set_pending (dist s) irq False (to_c_int vcpu_id)) (\<lambda>d. Ret (s\<lparr>dist := d\<rparr>))"

section \<open>Loads\<close>

text \<open>
  A 32-bit load at a byte offset from the start of an array of words: little endian, and it may
  straddle two words. What lies behind the given words is outside the struct.
\<close>

definition read_at :: "u32 list \<Rightarrow> u64 \<Rightarrow> u32 res" where
  "read_at ws off =
     (let i = uint (off div 4); k = 8 * unat (off mod 4) in
      bind_res (arr_get ws i) (\<lambda>lo.
      if k = 0 then Ret lo
      else bind_res (arr_get ws (i + 1)) (\<lambda>hi. Ret (drop_bit k lo OR push_bit (32 - k) hi))))"

definition words64 :: "u64 list \<Rightarrow> u32 list" where
  "words64 xs = concat (map (\<lambda>x. [ucast x, ucast (drop_bit 32 x)]) xs)"

text \<open>
  The \<^verbatim>\<open>switch\<close> of \<^verbatim>\<open>vgic_dist_reg_read\<close>: the value of the register at the offset, \<open>None\<close> for
  the \<^verbatim>\<open>default\<close> case.
\<close>

definition dist_reg_value :: "board \<Rightarrow> gic_dist_map \<Rightarrow> u64 \<Rightarrow> u64 \<Rightarrow> u32 option res" where
  "dist_reg_value b d vcpu_id offset =
     (let some = (\<lambda>r. bind_res r (\<lambda>x. Ret (Some x)));
          regn = (\<lambda>xs reg. some (arr_get xs (uint (GIC_DIST_REGN offset reg))));
          cpu = (\<lambda>xs. some (arr_get xs (uint vcpu_id)));
          cpu_regn = (\<lambda>xss reg. bind_res (arr_get xss (uint vcpu_id)) (\<lambda>xs. regn xs reg))
      in
      if RANGE32 GIC_DIST_CTLR GIC_DIST_CTLR offset then Ret (Some (ctlr d))
      else if RANGE32 GIC_DIST_TYPER GIC_DIST_TYPER offset then Ret (Some (typer d))
      else if RANGE32 GIC_DIST_IIDR GIC_DIST_IIDR offset then Ret (Some (iidr d))
      else if RANGE32 0x00C 0x01C offset then Ret (Some 0)
      else if RANGE32 0x020 0x03C offset then Ret (Some 0)
      else if RANGE32 0x040 0x07C offset then Ret (Some 0)
      else if RANGE32 GIC_DIST_IGROUPR0 GIC_DIST_IGROUPR0 offset then cpu (irq_group0 d)
      else if RANGE32 GIC_DIST_IGROUPR1 GIC_DIST_IGROUPRN offset then regn (irq_group d) GIC_DIST_IGROUPR1
      else if RANGE32 GIC_DIST_ISENABLER0 GIC_DIST_ISENABLER0 offset then cpu (enable_set0 d)
      else if RANGE32 GIC_DIST_ISENABLER1 GIC_DIST_ISENABLERN offset then regn (enable_set d) GIC_DIST_ISENABLER1
      else if RANGE32 GIC_DIST_ICENABLER0 GIC_DIST_ICENABLER0 offset then cpu (enable_clr0 d)
      else if RANGE32 GIC_DIST_ICENABLER1 GIC_DIST_ICENABLERN offset then regn (enable_clr d) GIC_DIST_ICENABLER1
      else if RANGE32 GIC_DIST_ISPENDR0 GIC_DIST_ISPENDR0 offset then cpu (pending_set0 d)
      else if RANGE32 GIC_DIST_ISPENDR1 GIC_DIST_ISPENDRN offset then regn (pending_set d) GIC_DIST_ISPENDR1
      else if RANGE32 GIC_DIST_ICPENDR0 GIC_DIST_ICPENDR0 offset then cpu (pending_clr0 d)
      else if RANGE32 GIC_DIST_ICPENDR1 GIC_DIST_ICPENDRN offset then regn (pending_clr d) GIC_DIST_ICPENDR1
      else if RANGE32 GIC_DIST_ISACTIVER0 GIC_DIST_ISACTIVER0 offset then cpu (active0 d)
      else if RANGE32 GIC_DIST_ISACTIVER1 GIC_DIST_ISACTIVERN offset then regn (active d) GIC_DIST_ISACTIVER1
      else if RANGE32 GIC_DIST_ICACTIVER0 GIC_DIST_ICACTIVER0 offset then cpu (active_clr0 d)
      else if RANGE32 GIC_DIST_ICACTIVER1 GIC_DIST_ICACTIVERN offset then regn (active_clr d) GIC_DIST_ICACTIVER1
      else if RANGE32 GIC_DIST_IPRIORITYR0 GIC_DIST_IPRIORITYR7 offset then cpu_regn (priority0 d) GIC_DIST_IPRIORITYR0
      else if RANGE32 GIC_DIST_IPRIORITYR8 GIC_DIST_IPRIORITYRN offset then regn (priority d) GIC_DIST_IPRIORITYR8
      else if RANGE32 0x7FC 0x7FC offset then Ret (Some 0)
      else if RANGE32 GIC_DIST_ITARGETSR0 GIC_DIST_ITARGETSR7 offset then cpu_regn (targets0 d) GIC_DIST_ITARGETSR0
      else if RANGE32 GIC_DIST_ITARGETSR8 GIC_DIST_ITARGETSRN offset then regn (targets d) GIC_DIST_ITARGETSR8
      else if RANGE32 0xBFC 0xBFC offset then Ret (Some 0)
      else if RANGE32 GIC_DIST_ICFGR0 GIC_DIST_ICFGRN offset then regn (config d) GIC_DIST_ICFGR0
      else if gic_version_of b = GIC_V2 \<and> RANGE32 0xD00 0xDE4 offset then
        some (let v = dist_v2 d in
              read_at (spi v @ res5 v @ [res6 v, legacy_int v] @ res7 v @ [match_d v, enable_d v] @ res8 v) (offset - 0xD00))
      else if RANGE32 0xDE8 0xEFC offset then Ret (Some 0)
      else if RANGE32 GIC_DIST_SGIR GIC_DIST_SGIR offset then Ret (Some (sgir d))
      else if RANGE32 0xF04 0xF0C offset then Ret (Some 0)
      else if RANGE32 GIC_DIST_CPENDSGIR0 GIC_DIST_CPENDSGIRN offset then cpu_regn (sgi_pending_clr d) GIC_DIST_CPENDSGIR0
      else if RANGE32 GIC_DIST_SPENDSGIR0 GIC_DIST_SPENDSGIRN offset then cpu_regn (sgi_pending_set d) GIC_DIST_SPENDSGIR0
      else if RANGE32 0xF30 0xFBC offset then Ret (Some 0)
      else if gic_version_of b = GIC_V2 \<and> RANGE32 0xFC0 0xFFB offset then
        some (read_at (periph_id (dist_v2 d) @ component_id (dist_v2 d)) (offset - 0xFC0))
      else if gic_version_of b = GIC_V3 \<and> RANGE32 0x6100 0x7F00 offset then
        some (read_at (words64 (irouter (dist_v3 d) @ res10 (dist_v3 d))) (offset - 0x6100))
      else if gic_version_of b = GIC_V3 \<and> RANGE32 0xFFD0 0xFFFC offset then
        some (read_at (pidrn (dist_v3 d) @ cidrn (dist_v3 d)) (offset - 0xFFD0))
      else Ret None)"

definition vgic_dist_reg_read ::
    "board \<Rightarrow> kernel \<Rightarrow> u64 \<Rightarrow> u64 \<Rightarrow> u64 \<Rightarrow> seL4_UserContext \<Rightarrow> vmm_state \<Rightarrow> (bool \<times> vmm_state) res" where
  "vgic_dist_reg_read b K vcpu_id offset fsr regs s =
     bind_res (dist_reg_value b (dist s) vcpu_id offset) (\<lambda>v.
     bind_res (case v of
         None \<Rightarrow> fault_advance_vcpu K regs s
       | Some reg \<Rightarrow>
           bind_res (fault_get_data_mask (GIC_DIST_PADDR b + offset) fsr) (\<lambda>m.
           let mask = (ucast m :: u32) in
           fault_advance K regs (GIC_DIST_PADDR b + offset) fsr (ucast (reg AND mask)) s)) (\<lambda>(err, s').
     Ret (\<not> err, s')))"

section \<open>Stores\<close>

text \<open>\<^verbatim>\<open>__builtin_ctz\<close> of a value that is not zero.\<close>

definition CTZ :: "u32 \<Rightarrow> nat" where
  "CTZ x = (case find_slot (bit x) [0..<32] 0 of Some i \<Rightarrow> i | None \<Rightarrow> 32)"

text \<open>The loop \<^verbatim>\<open>while (data) { irq = CTZ(data); data &= ~(1U << irq); ... }\<close>.\<close>

lemma CTZ_least:
  assumes "x \<noteq> 0"
  shows "CTZ x < 32" "bit x (CTZ x)" "i < CTZ x \<Longrightarrow> \<not> bit x i"
proof -
  obtain j where j: "bit x j" "j < 32"
    using assms bit_imp_le_length [of x] by (auto simp: bit_eq_iff)
  then obtain k where k: "find_slot (bit x) [0..<32] 0 = Some k"
    using find_slot_ex [of j "[0..<32]" "bit x" 0] by auto
  then have "CTZ x = k" by (simp add: CTZ_def)
  with find_slot_SomeD [OF k] show "CTZ x < 32" "bit x (CTZ x)" "i < CTZ x \<Longrightarrow> \<not> bit x i" by auto
qed

lemma unat_clear_bit_less:
  fixes x :: u32
  assumes "bit x i"
  shows "unat (x AND NOT (push_bit i 1)) < unat x"
proof -
  have "x AND NOT (push_bit i 1) \<le> x" by (rule word_and_le2)
  moreover have "x AND NOT (push_bit i 1) \<noteq> x"
    using assms bit_and_not_push_bit_1 [of x i i] by metis
  ultimately show ?thesis by (metis order_less_le word_less_nat_alt)
qed

function ctz_loop :: "(nat \<Rightarrow> 's \<Rightarrow> 's res) \<Rightarrow> u32 \<Rightarrow> 's \<Rightarrow> 's res" where
  "ctz_loop body data s =
     (if data = 0 then Ret s
      else let irq = CTZ data in
        bind_res (body irq s) (ctz_loop body (data AND NOT (push_bit irq 1))))"
  by pat_completeness auto
termination
  by (relation "measure (\<lambda>(body, data, s). unat data)") (simp_all add: unat_clear_bit_less CTZ_least del: push_bit_of_1)

declare ctz_loop.simps [simp del]

definition emulate_reg_write_access :: "seL4_UserContext \<Rightarrow> u64 \<Rightarrow> u64 \<Rightarrow> u32 \<Rightarrow> vmm_state \<Rightarrow> u32 res" where
  "emulate_reg_write_access regs addr fsr reg s =
     bind_res (fault_get_data regs fsr s) (\<lambda>data.
     bind_res (fault_emulate (ucast reg) addr fsr data) (\<lambda>v. Ret (ucast v)))"

text \<open>The same on an element of an array of registers.\<close>

definition emulate_arr_write :: "seL4_UserContext \<Rightarrow> u64 \<Rightarrow> u64 \<Rightarrow> u32 list \<Rightarrow> u64 \<Rightarrow> vmm_state \<Rightarrow> u32 list res" where
  "emulate_arr_write regs addr fsr a i s =
     bind_res (arr_get a (uint i)) (\<lambda>reg.
     bind_res (emulate_reg_write_access regs addr fsr reg s) (\<lambda>v.
     arr_mod a (uint i) (\<lambda>_. v)))"

text \<open>The interrupt number that a bit of a set/clear register stands for.\<close>

definition reg_irq :: "u64 \<Rightarrow> u64 \<Rightarrow> nat \<Rightarrow> int" where
  "reg_irq offset base i = to_c_int (of_nat i + (offset - base) * 8)"

text \<open>A store to the software-generated interrupt register; the target list it computes is not used.\<close>

definition sgir_write :: "board \<Rightarrow> kernel \<Rightarrow> u32 \<Rightarrow> vmm_state \<Rightarrow> vmm_state res" where
  "sgir_write b K data s =
     (let mode = drop_bit 24 (data AND push_bit 24 0x3);
          virq = uint (data AND 0xF)
      in if mode = 0 \<or> mode = 1 \<or> mode = 2
         then bind_res (vgic_inject_irq b K VCPU_ID virq s) (\<lambda>(_, s'). Ret s')
         else Ret s)"

text \<open>The \<^verbatim>\<open>switch\<close> of \<^verbatim>\<open>vgic_dist_reg_write\<close>.\<close>

definition dist_reg_store ::
    "board \<Rightarrow> kernel \<Rightarrow> u64 \<Rightarrow> u64 \<Rightarrow> u64 \<Rightarrow> u32 \<Rightarrow> seL4_UserContext \<Rightarrow> vmm_state \<Rightarrow> vmm_state res" where
  "dist_reg_store b K vcpu_id offset fsr m regs s =
     (let d = dist s; addr = GIC_DIST_PADDR b + offset;
          get = (\<lambda>f. bind_res (fault_get_data regs fsr s) (\<lambda>data. f (ucast data :: u32)));
          put = (\<lambda>f r. bind_res r (\<lambda>a. Ret (s\<lparr>dist := f a\<rparr>)));
          emu = (\<lambda>a i. emulate_arr_write regs addr fsr a i s)
      in
      if RANGE32 GIC_DIST_CTLR GIC_DIST_CTLR offset then
        get (\<lambda>data. if data = GIC_ENABLED b then Ret (s\<lparr>dist := vgic_dist_enable b d\<rparr>)
                    else if data = 0 then Ret (s\<lparr>dist := vgic_dist_disable b d\<rparr>)
                    else Ret s)
      else if RANGE32 GIC_DIST_TYPER GIC_DIST_TYPER offset then Ret s
      else if RANGE32 GIC_DIST_IIDR GIC_DIST_IIDR offset then Ret s
      else if RANGE32 0x00C 0x01C offset then Ret s
      else if RANGE32 0x020 0x03C offset then Ret s
      else if RANGE32 0x040 0x07C offset then Ret s
      else if RANGE32 GIC_DIST_IGROUPR0 GIC_DIST_IGROUPR0 offset then
        put (\<lambda>a. d\<lparr>irq_group0 := a\<rparr>) (emu (irq_group0 d) vcpu_id)
      else if RANGE32 GIC_DIST_IGROUPR1 GIC_DIST_IGROUPRN offset then
        put (\<lambda>a. d\<lparr>irq_group := a\<rparr>) (emu (irq_group d) (GIC_DIST_REGN offset GIC_DIST_IGROUPR1))
      else if RANGE32 GIC_DIST_ISENABLER0 GIC_DIST_ISENABLERN offset then
        get (\<lambda>data. ctz_loop (\<lambda>i. vgic_dist_enable_irq b K vcpu_id (reg_irq offset GIC_DIST_ISENABLER0 i)) (data AND m) s)
      else if RANGE32 GIC_DIST_ICENABLER0 GIC_DIST_ICENABLERN offset then
        get (\<lambda>data. ctz_loop (\<lambda>i. vgic_dist_disable_irq vcpu_id (reg_irq offset GIC_DIST_ICENABLER0 i)) (data AND m) s)
      else if RANGE32 GIC_DIST_ISPENDR0 GIC_DIST_ISPENDRN offset then
        get (\<lambda>data. ctz_loop (\<lambda>i s. bind_res (vgic_dist_set_pending_irq b K vcpu_id (reg_irq offset GIC_DIST_ISPENDR0 i) s)
               (\<lambda>(_, s'). Ret s')) (data AND m) s)
      else if RANGE32 GIC_DIST_ICPENDR0 GIC_DIST_ICPENDRN offset then
        get (\<lambda>data. ctz_loop (\<lambda>i. vgic_dist_clr_pending_irq vcpu_id (reg_irq offset GIC_DIST_ICPENDR0 i)) (data AND m) s)
      else if RANGE32 GIC_DIST_ISACTIVER0 GIC_DIST_ISACTIVER0 offset then
        put (\<lambda>a. d\<lparr>active0 := a\<rparr>) (emu (active0 d) vcpu_id)
      else if RANGE32 GIC_DIST_ISACTIVER1 GIC_DIST_ISACTIVERN offset then
        put (\<lambda>a. d\<lparr>active := a\<rparr>) (emu (active d) (GIC_DIST_REGN offset GIC_DIST_ISACTIVER1))
      else if RANGE32 GIC_DIST_ICACTIVER0 GIC_DIST_ICACTIVER0 offset then
        put (\<lambda>a. d\<lparr>active_clr0 := a\<rparr>) (emu (active_clr0 d) vcpu_id)
      else if RANGE32 GIC_DIST_ICACTIVER1 GIC_DIST_ICACTIVERN offset then
        put (\<lambda>a. d\<lparr>active_clr := a\<rparr>) (emu (active_clr d) (GIC_DIST_REGN offset GIC_DIST_ICACTIVER1))
      else if RANGE32 GIC_DIST_IPRIORITYR0 GIC_DIST_IPRIORITYRN offset then Ret s
      else if RANGE32 0x7FC 0x7FC offset then Ret s
      else if RANGE32 GIC_DIST_ITARGETSR0 GIC_DIST_ITARGETSRN offset then Ret s
      else if RANGE32 0xBFC 0xBFC offset then Ret s
      else if RANGE32 GIC_DIST_ICFGR0 GIC_DIST_ICFGRN offset then Ret s
      else if RANGE32 0xD00 0xDE4 offset then Ret s
      else if RANGE32 0xDE8 0xEFC offset then Ret s
      else if RANGE32 GIC_DIST_SGIR GIC_DIST_SGIR offset then get (\<lambda>data. sgir_write b K data s)
      else if RANGE32 0xF04 0xF0C offset then Ret s
      else if RANGE32 GIC_DIST_CPENDSGIR0 GIC_DIST_SPENDSGIRN offset then Fault Assert_failed
      else if RANGE32 0xF30 0xFBC offset then Ret s
      else if RANGE32 0xFC0 0xFFB offset then Ret s
      else if gic_version_of b = GIC_V3 \<and> RANGE32 0x6100 0x7F00 offset then Ret s
      else Ret s)"

definition vgic_dist_reg_write ::
    "board \<Rightarrow> kernel \<Rightarrow> u64 \<Rightarrow> u64 \<Rightarrow> u64 \<Rightarrow> seL4_UserContext \<Rightarrow> vmm_state \<Rightarrow> (bool \<times> vmm_state) res" where
  "vgic_dist_reg_write b K vcpu_id offset fsr regs s =
     bind_res (fault_get_data_mask (GIC_DIST_PADDR b + offset) fsr) (\<lambda>m.
     bind_res (dist_reg_store b K vcpu_id offset fsr (ucast m) regs s) (\<lambda>s1.
     bind_res (fault_advance_vcpu K regs s1) (\<lambda>(err, s2).
     Ret (\<not> err, s2))))"

section \<open>The bit loop\<close>

lemma filter_bits_CTZ:
  assumes "data \<noteq> 0"
  shows "filter (bit data) [0..<32] =
    CTZ data # filter (bit (data AND NOT (push_bit (CTZ data) 1))) [0..<32]" (is "?L = ?c # ?R")
proof -
  note c = CTZ_least [OF assms]
  have split: "[0..<32] = [0..<?c] @ ?c # [Suc ?c..<32]"
    using c(1) upt_add_eq_append [of 0 ?c "32 - ?c"] upt_conv_Cons [of ?c 32] by simp
  have "filter (bit data) [0..<?c] = []" "filter (bit (data AND NOT (push_bit ?c 1))) [0..<?c] = []"
    using c(3) by (auto simp: filter_empty_conv simp del: push_bit_of_1)
  moreover have "filter (bit data) [Suc ?c..<32] = filter (bit (data AND NOT (push_bit ?c 1))) [Suc ?c..<32]"
    by (rule filter_cong) (auto simp del: push_bit_of_1)
  ultimately show ?thesis unfolding split using c(2) by (simp del: push_bit_of_1)
qed

text \<open>The loop visits the set bits in ascending order.\<close>

lemma ctz_loop_eq: "ctz_loop body data s = for_each body (filter (bit data) [0..<32]) s"
proof (induction body data s rule: ctz_loop.induct)
  case (1 body data s)
  show ?case
  proof (cases "data = 0")
    case True
    then show ?thesis by (simp add: ctz_loop.simps)
  next
    case False
    have "ctz_loop body data s = bind_res (body (CTZ data) s) (ctz_loop body (data AND NOT (push_bit (CTZ data) 1)))"
      using False by (subst ctz_loop.simps) (simp add: Let_def del: push_bit_of_1)
    also have "\<dots> = bind_res (body (CTZ data) s) (for_each body (filter (bit (data AND NOT (push_bit (CTZ data) 1))) [0..<32]))"
      using 1 [OF False refl] by (auto intro: bind_res_cong)
    finally show ?thesis unfolding filter_bits_CTZ [OF False] by simp
  qed
qed

section \<open>Offsets\<close>

lemma RANGE32_nat:
  assumes "unat b < 0x10000"
  shows "RANGE32 a b x \<longleftrightarrow> unat a \<le> unat x \<and> unat x \<le> unat b + 3"
proof -
  have "unat (b + 3) = unat b + 3" using assms by (subst unat_add_lem [THEN iffD1]) auto
  then show ?thesis by (simp add: RANGE32_def word_le_nat_alt)
qed

lemma REGN_nat:
  assumes "unat reg \<le> unat x"
  shows "uint (GIC_DIST_REGN x reg) = int ((unat x - unat reg) div 4)"
proof -
  have "unat (x - reg) = unat x - unat reg" using assms by (simp add: unat_sub word_le_nat_alt)
  then have "unat (GIC_DIST_REGN x reg) = (unat x - unat reg) div 4"
    by (simp add: GIC_DIST_REGN_def unat_div_distrib)
  then show ?thesis by (metis uint_nat)
qed

lemma unat_off: "n < 0x10000 \<Longrightarrow> unat (word_of_nat n :: u64) = n"
  by (simp add: unat_of_nat take_bit_nat_eq_self)

lemma read_at_aligned:
  assumes "unat off = 4 * i" and "i < length ws"
  shows "read_at ws off = Ret (ws ! i)"
proof -
  have "unat (off div 4) = i" "off mod 4 = 0"
    using assms(1) by (simp_all add: unat_div_distrib word_unat_eq_iff unat_mod_distrib)
  then show ?thesis using assms(2) by (simp add: read_at_def)
qed


section \<open>The register page of GICv2\<close>

text \<open>
  The reference for loads: the page as the architecture has it, every register at the offset that
  the comments of \<^verbatim>\<open>vgic_v2.h\<close> give, in segments that start at the given word; reserved words, which the
  emulation answers itself, read as zero. The C struct agrees with these offsets up to \<open>0xF30\<close>; its
  \<^verbatim>\<open>res10\<close> has 40 words for a gap of 36, so that the identification registers lie four words higher in
  the struct than on the page. The emulation reads them through the fields, not at an offset.
\<close>

definition dist_segments :: "gic_dist_map \<Rightarrow> (nat \<times> u32 list) list" where
  "dist_segments d = [(0, [ctlr d]), (1, [typer d]), (2, [iidr d]),
     (3, replicate 5 0), (8, replicate 8 0), (16, replicate 16 0),
     (32, irq_group0 d), (33, irq_group d), (64, enable_set0 d), (65, enable_set d),
     (96, enable_clr0 d), (97, enable_clr d), (128, pending_set0 d), (129, pending_set d),
     (160, pending_clr0 d), (161, pending_clr d), (192, active0 d), (193, active d),
     (224, active_clr0 d), (225, active_clr d), (256, priority0 d ! 0), (264, priority d), (511, [0]),
     (512, targets0 d ! 0), (520, targets d), (767, [0]), (768, config d),
     (832, spi (dist_v2 d) @ res5 (dist_v2 d) @ [res6 (dist_v2 d), legacy_int (dist_v2 d)] @ res7 (dist_v2 d) @
        [match_d (dist_v2 d), enable_d (dist_v2 d)]),
     (890, replicate 70 0), (960, [sgir d]), (961, replicate 3 0),
     (964, sgi_pending_clr d ! 0), (968, sgi_pending_set d ! 0), (972, replicate 36 0),
     (1008, periph_id (dist_v2 d) @ component_id (dist_v2 d))]"

definition dist_page :: "gic_dist_map \<Rightarrow> u32 list" where
  "dist_page d = concat (map snd (dist_segments d))"

text \<open>Segments that follow each other without a gap, from word \<open>k\<close> on.\<close>

fun consecutive :: "nat \<Rightarrow> (nat \<times> 'a list) list \<Rightarrow> bool" where
  "consecutive k [] = True"
| "consecutive k ((n, ws) # segs) = (n = k \<and> consecutive (k + length ws) segs)"

lemma consecutive_nth:
  "consecutive k segs \<Longrightarrow> i < length (concat (map snd segs)) \<Longrightarrow>
   \<exists>(n, ws) \<in> set segs. \<exists>j < length ws. k + i = n + j \<and> concat (map snd segs) ! i = ws ! j"
proof (induction segs arbitrary: k i)
  case Nil
  then show ?case by simp
next
  case (Cons seg segs)
  obtain n ws where seg: "seg = (n, ws)" by (cases seg)
  show ?case
  proof (cases "i < length ws")
    case True
    with Cons.prems seg show ?thesis by (auto simp: nth_append)
  next
    case False
    with Cons.prems seg have "consecutive (k + length ws) segs" "i - length ws < length (concat (map snd segs))" by auto
    from Cons.IH [OF this] seg False show ?thesis by (auto simp: nth_append)
  qed
qed

lemma wf_dist_nested:
  assumes "wf_dist d"
  shows "length (priority0 d) = 1" "length (priority0 d ! 0) = 8" "length (targets0 d) = 1" "length (targets0 d ! 0) = 8"
    "length (sgi_pending_clr d) = 1" "length (sgi_pending_clr d ! 0) = 4"
    "length (sgi_pending_set d) = 1" "length (sgi_pending_set d ! 0) = 4"
  using assms by (simp_all add: wf_dist_def NUM_VCPUS_def)

lemma dist_segments_consecutive:
  assumes "wf_dist d" "wf_dist_v2 (dist_v2 d)"
  shows "consecutive 0 (dist_segments d)" "length (dist_page d) = 1024"
  using assms wf_dist_nested [OF assms(1)]
  by (simp_all add: dist_segments_def dist_page_def wf_dist_def wf_dist_v2_def NUM_VCPUS_def)

lemma RANGE32_off:
  assumes "unat x = 4 * n" and "unat b < 0x10000"
  shows "RANGE32 a b x \<longleftrightarrow> unat a \<le> 4 * n \<and> 4 * n \<le> unat b + 3"
  using RANGE32_nat [OF assms(2)] assms(1) by simp

lemma REGN_off:
  assumes "unat x = 4 * n" and "4 dvd unat reg" and "unat reg \<le> 4 * n"
  shows "uint (GIC_DIST_REGN x reg) = int (n - unat reg div 4)"
proof -
  obtain m where m: "unat reg = 4 * m" using assms(2) by (auto elim: dvdE)
  then show ?thesis using REGN_nat [of reg x] assms by (simp add: diff_mult_distrib2 [symmetric])
qed

lemma arr_get_nat [simp]: "n < length xs \<Longrightarrow> arr_get xs (int n) = Ret (xs ! n)"
  by simp

lemma dist_segment_read:
  assumes wf: "wf_dist d" "wf_dist_v2 (dist_v2 d)" and b: "gic_version_of b = GIC_V2"
    and seg: "(n, ws) \<in> set (dist_segments d)" and j: "j < length ws" and x: "unat x = 4 * (n + j)"
  shows "dist_reg_value b d VCPU_ID x = Ret (Some (ws ! j))"
proof -
  have off: "unat (x - 0xD00) = 4 * j" if "n = 832"
    using x that by (subst unat_sub) (simp_all add: word_le_nat_alt)
  have off': "unat (x - 0xFC0) = 4 * j" if "n = 1008"
    using x that by (subst unat_sub) (simp_all add: word_le_nat_alt)
  note len = wf(1) [unfolded wf_dist_def NUM_VCPUS_def] wf(2) [unfolded wf_dist_v2_def] wf_dist_nested [OF wf(1)]
  note defs = dist_reg_value_def RANGE32_off [OF x] REGN_off [OF x] b Let_def VCPU_ID_def
  show ?thesis
    using seg j unfolding dist_segments_def set_simps insert_iff prod.inject empty_iff
    by (elim disjE conjE; simp add: defs len read_at_aligned [OF off] read_at_aligned [OF off'] nth_append nth_Cons')
qed


lemma dist_load_eq:
  assumes "wf_dist d" and "wf_dist_v2 (dist_v2 d)" and "gic_version_of b = GIC_V2"
    and "unat offset = 4 * i" and "i < 1024"
  shows "dist_reg_value b d VCPU_ID offset = Ret (Some (dist_page d ! i))"
proof -
  have "i < length (concat (map snd (dist_segments d)))"
    using dist_segments_consecutive(2) [OF assms(1,2)] assms(5) by (simp add: dist_page_def)
  from consecutive_nth [OF dist_segments_consecutive(1) [OF assms(1,2)] this]
  obtain n ws j where "(n, ws) \<in> set (dist_segments d)" "j < length ws" "i = n + j" "dist_page d ! i = ws ! j"
    unfolding dist_page_def by auto
  with dist_segment_read [OF assms(1-3), of n ws j offset] assms(4) show ?thesis by simp
qed

text \<open>
  C8. On the GICv2 boards the word-aligned loads are those of the register page: the load at offset
  \<open>4 * i\<close> returns the register that the offsets of the architecture put at word \<open>i\<close> of the page, for
  every one of the 1024 words; none is missed and no array is read out of range. Loads that are not
  aligned are not covered here: \<open>Load_Outcomes\<close> says of them when they stay in the page.
\<close>

theorem dist_load_is_page_word:
  assumes "wf_dist d" and "wf_dist_v2 (dist_v2 d)" and "gic_version_of b = GIC_V2"
    and "unat offset = 4 * i" and "i < 1024"
  shows "dist_reg_value b d VCPU_ID offset = Ret (Some (dist_page d ! i))"
  by (rule dist_load_eq [OF assms])

theorem dist_load_is_page_word_witness:
  "dist_reg_value Qemu_arm_virt_hyp zero_dist VCPU_ID 0x420 = Ret (Some (dist_page zero_dist ! 264))"
  using dist_load_is_page_word [OF zero_dist_ok(1,3), of Qemu_arm_virt_hyp "0x420" 264] by (simp add: gic_version_of_def)

section \<open>Enabling and disabling\<close>

text \<open>What an operation may not touch: the registered interrupts, the enable flags and the
  controller's enable bit.\<close>

definition same_config :: "vmm_state \<Rightarrow> vmm_state \<Rightarrow> bool" where
  "same_config s s' \<longleftrightarrow> registered (vgic s') VCPU_ID = registered (vgic s) VCPU_ID \<and>
     enabled (dist s') = enabled (dist s) \<and> ctlr (dist s') = ctlr (dist s)"

lemma same_config_refl [simp]: "same_config s s"
  by (simp add: same_config_def)

lemma same_config_trans: "same_config s t \<Longrightarrow> same_config t u \<Longrightarrow> same_config s u"
  by (simp add: same_config_def)

lemma inject_same_config:
  assumes inv: "irq_inv s" and irq: "has_bit irq" and slot: "irq < 32 \<or> registered (vgic s) VCPU_ID irq \<noteq> None"
    and K: "inject_succeeds K" and few: "card (known_irqs (vgic s)) \<le> 66"
  shows "\<exists>r s'. vgic_inject_irq b K VCPU_ID irq s = Ret (r, s') \<and> irq_inv s' \<and> same_config s s'"
proof -
  note D = irq_invD [OF inv]
  obtain r s' where s': "vgic_inject_irq b K VCPU_ID irq s = Ret (r, s')" "irq_inv s'"
    using inject_refines [OF inv irq slot K waiting_room [OF inv few]] by blast
  consider "\<not> deliverable b irq s" | "deliverable b irq s" "pending (dist s) irq"
    | i where "deliverable b irq s" "\<not> pending (dist s) irq" "free_lr (vgic s) = Some i"
    | "deliverable b irq s" "\<not> pending (dist s) irq" "free_lr (vgic s) = None" by (cases "free_lr (vgic s)") auto
  then have "same_config s s'"
  proof cases
    case 1
    with inject_not_deliverable [OF inv irq 1 slot, of K] s' show ?thesis by simp
  next
    case 2
    with inject_already_pending [OF inv 2, of K] s' show ?thesis by simp
  next
    case 3
    then obtain h q where "registered (vgic s) VCPU_ID irq = Some h" "wf_queue q"
      "s' = s\<lparr>trace := trace s @ [Ev_InjectIRQ VM_ID irq 0 (irq_inject_group b) (int i)],
         vgic := put_vcpu0 (vgic s) ((vcpu0 (vgic s))\<lparr>irq_queue := q, lr_shadow := (lr_shadow (vcpu0 (vgic s)))[i := h]\<rparr>),
         dist := pending_put (dist s) irq True\<rparr>"
      using inject_into_list_register [OF inv 3 K] s'(1) by auto
    with wf_vgic_vcpu0 [OF D(1)] show ?thesis
      by (simp add: same_config_def bits_put(3) [OF D(2) irq] registered_put_vcpu0 [OF D(1)] wf_vcpu_def)
  next
    case 4
    then obtain q where "wf_queue q" "s' = s\<lparr>vgic := put_vcpu0 (vgic s) ((vcpu0 (vgic s))\<lparr>irq_queue := q\<rparr>),
        dist := pending_put (dist s) irq True\<rparr>"
      using inject_into_queue [OF inv 4 waiting_room [OF inv few], of K] s'(1) by auto
    with wf_vgic_vcpu0 [OF D(1)] show ?thesis
      by (simp add: same_config_def bits_put(3) [OF D(2) irq] registered_put_vcpu0 [OF D(1)] wf_vcpu_def)
  qed
  with s' show ?thesis by blast
qed

lemma irq_inv_trace [simp]: "irq_inv (s\<lparr>trace := t\<rparr>) = irq_inv s"
  by (simp add: irq_inv_def)

lemma irq_inv_emit [simp]: "irq_inv (emit e s) = irq_inv s"
  by (simp add: emit_def)

lemma emit_sel [simp]: "vgic (emit e s) = vgic s" "dist (emit e s) = dist s" for s :: vmm_state
  by (simp_all add: emit_def)

text \<open>Acknowledging keeps the invariant and the configuration, on every board.\<close>

lemma virq_ack_ok:
  assumes inv: "irq_inv s" and ack: "ack_fn h \<noteq> None" and K: "inject_succeeds K" "ack_succeeds K"
    and few: "card (known_irqs (vgic s)) \<le> 66"
  shows "\<exists>s'. virq_ack b K VCPU_ID h s = Ret s' \<and> irq_inv s' \<and> same_config s s'"
proof -
  obtain f where f: "ack_fn h = Some f" using ack by blast
  show ?thesis
  proof (cases f)
    case Vppi_event_ack
    with f K(2) inv show ?thesis
      by (simp add: virq_ack_def vppi_event_ack_def ack_succeeds_def same_config_def Let_def)
  next
    case Sgi_ack
    with f inv show ?thesis by (simp add: virq_ack_def sgi_ack_def)
  next
    case Serial_ack
    let ?s = "emit (Ev_IrqAck SERIAL_IRQ_CH) s"
    have "to_c_int SERIAL_IRQ_CH = 1" by (simp add: to_c_int_def SERIAL_IRQ_CH_def)
    then have "\<exists>r s'. vgic_inject_irq b K VCPU_ID (to_c_int SERIAL_IRQ_CH) ?s = Ret (r, s') \<and> irq_inv s' \<and> same_config ?s s'"
      using inject_same_config [of ?s 1 K b] inv K(1) few by (simp add: has_bit_def)
    then show ?thesis
      using f Serial_ack inv by (cases b) (auto simp: virq_ack_def serial_ack_def same_config_def)
  qed
qed

lemma irq_inv_enable_put:
  assumes "irq_inv s" and "has_bit irq"
  shows "irq_inv (s\<lparr>dist := enable_put (dist s) irq v\<rparr>)"
  using irq_invD [OF assms(1)] bits_put(4) [OF irq_invD(2) [OF assms(1)] assms(2)]
  by (simp add: irq_inv_def)

lemma lookup_ok:
  assumes wf: "wf_vgic v" and "0 \<le> irq"
  shows "\<exists>p. virq_find_irq_data v VCPU_ID irq = Ret p \<and> (p \<noteq> None \<longrightarrow> (\<exists>h. deref v p = Ret h \<and>
     (virq h \<noteq> VIRQ_INVALID \<longrightarrow> registered v VCPU_ID irq = Some h \<and> virq h = irq)))"
proof (cases "irq < 32")
  case True
  with assms wf_vgic_vcpu0 [OF wf] wf_vcpu_local [OF wf_vgic_vcpu0 [OF wf] assms(2) True] show ?thesis
    by (auto simp: virq_find_irq_data_def virq_get_sgi_ppi_def wf_vcpu_def deref_simps registered_local Let_def)
next
  case False
  show ?thesis
  proof (cases "find_slot (\<lambda>h. virq h \<noteq> VIRQ_INVALID \<and> virq h = irq) (vspis v) 0")
    case None
    with False show ?thesis by (simp add: virq_find_irq_data_def virq_find_spi_irq_data_def)
  next
    case (Some i)
    from find_slot_SomeD [OF Some] wf have "i < 200" "virq (vspis v ! i) = irq" by (auto simp: wf_vgic_def)
    with Some False wf show ?thesis
      by (simp add: virq_find_irq_data_def virq_find_spi_irq_data_def deref_simps registered_spi)
  qed
qed

lemma enable_irq_ok:
  assumes inv: "irq_inv s" and irq: "has_bit irq" and K: "inject_succeeds K" "ack_succeeds K"
    and few: "card (known_irqs (vgic s)) \<le> 66"
  shows "\<exists>s'. vgic_dist_enable_irq b K VCPU_ID irq s = Ret s' \<and> irq_inv s' \<and>
     registered (vgic s') VCPU_ID = registered (vgic s) VCPU_ID \<and> ctlr (dist s') = ctlr (dist s) \<and>
     enabled (dist s') = (enabled (dist s))(irq := True)"
proof -
  note D = irq_invD [OF inv]
  let ?s = "s\<lparr>dist := enable_put (dist s) irq True\<rparr>"
  have inv1: "irq_inv ?s" by (rule irq_inv_enable_put [OF inv irq])
  have en: "enabled (dist ?s) = (enabled (dist s))(irq := True)" using bits_put(2) [OF D(2) irq] by simp
  have "0 \<le> irq" using irq by (simp add: has_bit_def)
  from lookup_ok [OF D(1) this] obtain p where p: "virq_find_irq_data (vgic s) VCPU_ID irq = Ret p"
    "p \<noteq> None \<longrightarrow> (\<exists>h. deref (vgic s) p = Ret h \<and>
     (virq h \<noteq> VIRQ_INVALID \<longrightarrow> registered (vgic s) VCPU_ID irq = Some h \<and> virq h = irq))" by blast
  have unf: "vgic_dist_enable_irq b K VCPU_ID irq s = (if p = None then Ret ?s
     else bind_res (deref (vgic s) p) (\<lambda>h. if virq h \<noteq> VIRQ_INVALID
       then bind_res (is_pending (dist ?s) (virq h) (to_c_int VCPU_ID)) (\<lambda>pend. if \<not> pend then virq_ack b K VCPU_ID h ?s else Ret ?s)
       else Ret ?s))"
    using p(1) by (simp add: vgic_dist_enable_irq_def set_enable_eq [OF D(2) irq] Let_def)
  show ?thesis
  proof (cases "\<exists>h. p \<noteq> None \<and> deref (vgic s) p = Ret h \<and> virq h \<noteq> VIRQ_INVALID \<and> \<not> pending (dist s) irq")
    case False
    then have "vgic_dist_enable_irq b K VCPU_ID irq s = Ret ?s"
      using p(2) irq D(2) unfolding unf by (auto simp: is_pending_eq bits_put simp del: bind_res_eq_Ret)
    with inv1 en show ?thesis by simp
  next
    case True
    then obtain h where h: "p \<noteq> None" "deref (vgic s) p = Ret h" "virq h \<noteq> VIRQ_INVALID" "\<not> pending (dist s) irq" by blast
    with p(2) have r: "virq h = irq" "registered (vgic s) VCPU_ID irq = Some h" by auto
    with h have "vgic_dist_enable_irq b K VCPU_ID irq s = virq_ack b K VCPU_ID h ?s"
      unfolding unf using irq D(2) by (auto simp: is_pending_eq bits_put)
    moreover have "\<exists>s'. virq_ack b K VCPU_ID h ?s = Ret s' \<and> irq_inv s' \<and> same_config ?s s'"
      using virq_ack_ok [OF inv1 _ K] D(4) [OF r(2)] few by simp
    ultimately show ?thesis using en by (auto simp: same_config_def)
  qed
qed

lemma enable_all_ok:
  assumes K: "inject_succeeds K" "ack_succeeds K"
  shows "irq_inv s \<Longrightarrow> card (known_irqs (vgic s)) \<le> 66 \<Longrightarrow> (\<And>i. i \<in> set ks \<Longrightarrow> has_bit (f i)) \<Longrightarrow>
    \<exists>s'. for_each (\<lambda>i. vgic_dist_enable_irq b K VCPU_ID (f i)) ks s = Ret s' \<and> irq_inv s' \<and>
      registered (vgic s') VCPU_ID = registered (vgic s) VCPU_ID \<and> ctlr (dist s') = ctlr (dist s) \<and>
      enabled (dist s') = (\<lambda>k. k \<in> f ` set ks \<or> enabled (dist s) k)"
proof (induction ks arbitrary: s)
  case Nil
  then show ?case by simp
next
  case (Cons i ks)
  have "has_bit (f i)" using Cons.prems(3) by simp
  from enable_irq_ok [OF Cons.prems(1) this K Cons.prems(2), of b] obtain s1 where
    s1: "vgic_dist_enable_irq b K VCPU_ID (f i) s = Ret s1" "irq_inv s1"
      "registered (vgic s1) VCPU_ID = registered (vgic s) VCPU_ID" "ctlr (dist s1) = ctlr (dist s)"
      "enabled (dist s1) = (enabled (dist s))(f i := True)" by blast
  have "card (known_irqs (vgic s1)) \<le> 66" using Cons.prems(2) s1(3) by (simp add: known_irqs_def)
  from Cons.IH [OF s1(2) this] Cons.prems(3) s1 show ?case by (auto simp: fun_eq_iff)
qed

lemma disable_irq_ok:
  assumes inv: "irq_inv s" and irq: "has_bit irq"
  shows "vgic_dist_disable_irq VCPU_ID irq s =
     Ret (if irq < 16 then s else s\<lparr>dist := enable_put (dist s) irq False\<rparr>)"
  using irq_invD(2) [OF inv] irq by (simp add: vgic_dist_disable_irq_def set_enable_eq)

lemma disable_all_ok:
  shows "irq_inv s \<Longrightarrow> (\<And>i. i \<in> set ks \<Longrightarrow> has_bit (f i)) \<Longrightarrow>
    \<exists>s'. for_each (\<lambda>i. vgic_dist_disable_irq VCPU_ID (f i)) ks s = Ret s' \<and> irq_inv s' \<and> vgic s' = vgic s \<and>
      trace s' = trace s \<and> ctlr (dist s') = ctlr (dist s) \<and>
      enabled (dist s') = (\<lambda>k. enabled (dist s) k \<and> \<not> (16 \<le> k \<and> k \<in> f ` set ks))"
proof (induction ks arbitrary: s)
  case Nil
  then show ?case by simp
next
  case (Cons i ks)
  let ?s = "if f i < 16 then s else s\<lparr>dist := enable_put (dist s) (f i) False\<rparr>"
  have irq: "has_bit (f i)" using Cons.prems(2) by simp
  have "irq_inv ?s" using Cons.prems(1) irq_inv_enable_put [OF Cons.prems(1) irq] by simp
  from Cons.IH [OF this] Cons.prems(2) obtain s' where
    "for_each (\<lambda>i. vgic_dist_disable_irq VCPU_ID (f i)) ks ?s = Ret s'" "irq_inv s'" "vgic s' = vgic ?s"
    "trace s' = trace ?s" "ctlr (dist s') = ctlr (dist ?s)"
    "enabled (dist s') = (\<lambda>k. enabled (dist ?s) k \<and> \<not> (16 \<le> k \<and> k \<in> f ` set ks))" by auto
  moreover have "enabled (dist ?s) = (\<lambda>k. enabled (dist s) k \<and> \<not> (16 \<le> k \<and> k = f i))"
    using bits_put(2) [OF irq_invD(2) [OF Cons.prems(1)] irq] by (auto simp: fun_eq_iff)
  ultimately show ?case
    by (intro exI [of _ s']) (auto simp: disable_irq_ok [OF Cons.prems(1) irq] fun_eq_iff)
qed

section \<open>Word stores\<close>

text \<open>A valid 32-bit access, and the register operand it transfers.\<close>

definition word_access :: "u64 \<Rightarrow> bool" where
  "word_access fsr \<longleftrightarrow> bit fsr 24 \<and> syndrome_width fsr = WIDTH_WORD"

definition operand :: "seL4_UserContext \<Rightarrow> u64 \<Rightarrow> 'a fault_state_scheme \<Rightarrow> u64" where
  "operand regs fsr s =
     (let r = unat (HSR_SYNDROME_RT fsr) in if r = 31 then wzr s else xregs regs ! r)"

lemma fault_get_data_eq:
  assumes "bit fsr 24"
  shows "fault_get_data regs fsr s = Ret (operand regs fsr s)"
proof (cases "unat (HSR_SYNDROME_RT fsr) = 31")
  case True
  then show ?thesis
    by (simp add: fault_get_data_def get_rt_valid [OF assms] decode_rt_31 operand_def)
next
  case False
  have "unat (HSR_SYNDROME_RT fsr) < 32" by (simp add: unat_HSR_SYNDROME_RT)
  with False have "unat (HSR_SYNDROME_RT fsr) \<le> 30" by simp
  from decode_rt_reg [OF this] obtain p where "decode_rt (HSR_SYNDROME_RT fsr) = Ret p"
    "\<And>c (s :: 'a fault_state_scheme). ptr_read p c s = xregs c ! unat (HSR_SYNDROME_RT fsr)" by blast
  with False show ?thesis by (simp add: fault_get_data_def get_rt_valid [OF assms] operand_def)
qed

lemma word_access_mask:
  assumes "word_access fsr" and "unat addr mod 4 = 0"
  shows "fault_get_data_mask addr fsr = Ret (mask 32)"
  using assms by (simp add: fault_get_data_mask_eq word_access_def lane_aligned_def)

lemma ucast_mask_32: "(ucast (mask 32 :: u64) :: u32) = - 1"
  by (rule bit_word_eqI) (auto simp: bit_simps)

lemma PADDR_aligned: "unat off mod 4 = 0 \<Longrightarrow> unat (GIC_DIST_PADDR b + off) mod 4 = 0"
proof -
  assume off: "unat off mod 4 = 0"
  have p: "unat (GIC_DIST_PADDR b) mod 4 = 0" by (cases b) (simp_all add: GIC_DIST_PADDR_def)
  have "unat (GIC_DIST_PADDR b + off) mod 4 = (unat (GIC_DIST_PADDR b) + unat off) mod 4"
    by (simp add: unat_word_ariths mod_mod_cancel)
  then show ?thesis using off p by (simp add: mod_add_eq [symmetric])
qed

lemma dist_write_returns:
  assumes "word_access fsr" and "unat offset mod 4 = 0" and "regs_calls_succeed K"
    and "dist_reg_store b K VCPU_ID offset fsr (- 1) regs s = Ret s1"
  shows "vgic_dist_reg_write b K VCPU_ID offset fsr regs s = Ret (True, s1\<lparr>trace := trace s1 @
     [Ev_WriteRegisters VM_ID True (regs\<lparr>pc := pc regs + 4\<rparr>), Ev_Send 4 0 0]\<rparr>)"
  using assms
  by (simp add: vgic_dist_reg_write_def word_access_mask PADDR_aligned ucast_mask_32 fault_advance_vcpu_eq)

lemma reg_irq_eq:
  assumes "unat offset = unat base + 4 * r" and "r \<le> 31" and "i < 32"
  shows "reg_irq offset base i = int (32 * r + i)"
proof -
  have "unat (offset - base) = 4 * r" using assms(1) by (simp add: unat_sub word_le_nat_alt)
  then have "unat ((offset - base) * 8) = 32 * r" using assms(2) by (subst unat_mult_lem [THEN iffD1]) auto
  moreover have "unat (of_nat i :: u64) = i" using assms(3) by (simp add: unat_of_nat take_bit_nat_eq_self)
  ultimately have "unat (of_nat i + (offset - base) * 8 :: u64) = 32 * r + i"
    using assms(2,3) by (subst unat_add_lem [THEN iffD1]) auto
  then show ?thesis unfolding reg_irq_def using assms(2,3) by (subst to_c_int_small) simp_all
qed

text \<open>The interrupts that a store of \<open>data\<close> to word \<open>r\<close> of a set or clear register names.\<close>

definition named_irqs :: "nat \<Rightarrow> u32 \<Rightarrow> int set" where
  "named_irqs r data = {k. int (32 * r) \<le> k \<and> k < int (32 * r + 32) \<and> bit data (nat k - 32 * r)}"

lemma reg_irq_image:
  assumes "unat offset = unat base + 4 * r" and "r \<le> 31"
  shows "reg_irq offset base ` set (filter (bit data) [0..<32]) = named_irqs r data"
proof -
  have "reg_irq offset base ` set (filter (bit data) [0..<32]) = (\<lambda>i. int (32 * r + i)) ` set (filter (bit data) [0..<32])"
    using reg_irq_eq [OF assms] by (intro image_cong) auto
  also have "\<dots> = named_irqs r data"
  proof (intro equalityI subsetI)
    fix k assume k: "k \<in> named_irqs r data"
    then have "k = int (32 * r + (nat k - 32 * r))" "nat k - 32 * r \<in> set (filter (bit data) [0..<32])"
      by (auto simp: named_irqs_def)
    then show "k \<in> (\<lambda>i. int (32 * r + i)) ` set (filter (bit data) [0..<32])" by blast
  qed (auto simp: named_irqs_def nat_add_distrib nat_mult_distrib)
  finally show ?thesis .
qed

lemma named_has_bit: "r < 31 \<Longrightarrow> k \<in> named_irqs r data \<Longrightarrow> has_bit k"
  by (auto simp: named_irqs_def has_bit_def)

section \<open>Properties of stores\<close>

lemma isenabler_store_run:
  assumes "irq_inv s" and "card (known_irqs (vgic s)) \<le> 66"
    and "inject_succeeds K" and "ack_succeeds K" and "regs_calls_succeed K"
    and "word_access fsr" and "unat offset = 0x100 + 4 * r" and "r < 31"
  shows "\<exists>s' t. vgic_dist_reg_write b K VCPU_ID offset fsr regs s = Ret (True, s') \<and> irq_inv s' \<and>
     registered (vgic s') VCPU_ID = registered (vgic s) VCPU_ID \<and> ctlr (dist s') = ctlr (dist s) \<and>
     (\<forall>k. enabled (dist s') k \<longleftrightarrow> k \<in> named_irqs r (ucast (operand regs fsr s)) \<or> enabled (dist s) k) \<and>
     trace s' = t @ [Ev_WriteRegisters VM_ID True (regs\<lparr>pc := pc regs + 4\<rparr>), Ev_Send 4 0 0]"
proof -
  let ?data = "ucast (operand regs fsr s) :: u32"
  have off: "unat offset = unat (GIC_DIST_ISENABLER0) + 4 * r" "unat offset = 4 * (64 + r)" using assms(7) by simp_all
  have im: "reg_irq offset GIC_DIST_ISENABLER0 ` set (filter (bit ?data) [0..<32]) = named_irqs r ?data"
    using reg_irq_image [OF off(1)] assms(8) by simp
  have "has_bit (reg_irq offset GIC_DIST_ISENABLER0 i)" if "i \<in> set (filter (bit ?data) [0..<32])" for i
    using named_has_bit [OF assms(8)] im that by blast
  from enable_all_ok [where b = b and f = "reg_irq offset GIC_DIST_ISENABLER0" and ks = "filter (bit ?data) [0..<32]",
      OF assms(3,4,1,2) this] obtain s1 where
    s1: "for_each (\<lambda>i. vgic_dist_enable_irq b K VCPU_ID (reg_irq offset GIC_DIST_ISENABLER0 i)) (filter (bit ?data) [0..<32]) s = Ret s1"
      "irq_inv s1" "registered (vgic s1) VCPU_ID = registered (vgic s) VCPU_ID" "ctlr (dist s1) = ctlr (dist s)"
      "enabled (dist s1) = (\<lambda>k. k \<in> named_irqs r ?data \<or> enabled (dist s) k)" unfolding im by blast
  have "dist_reg_store b K VCPU_ID offset fsr (- 1) regs s = Ret s1"
    using assms(6,8) s1(1)
    by (simp add: dist_reg_store_def RANGE32_off [OF off(2)] Let_def fault_get_data_eq word_access_def ctz_loop_eq)
  from dist_write_returns [OF assms(6) _ assms(5) this] off(2) s1(2-5) show ?thesis by auto
qed

text \<open>
  C9. A word store to an interrupt set-enable register (registers 0 to 30) enables exactly the
  interrupts whose bits are set in the operand and leaves every other enable flag alone; it
  returns, keeps the invariant and the table of registered interrupts, moves the guest behind
  the instruction and answers the fault, on every board.
\<close>

theorem isenabler_store_enables:
  assumes "irq_inv s" and "card (known_irqs (vgic s)) \<le> 66"
    and "inject_succeeds K" and "ack_succeeds K" and "regs_calls_succeed K"
    and "word_access fsr" and "unat offset = 0x100 + 4 * r" and "r < 31"
  shows "\<exists>s' t. vgic_dist_reg_write b K VCPU_ID offset fsr regs s = Ret (True, s') \<and> irq_inv s' \<and>
     registered (vgic s') VCPU_ID = registered (vgic s) VCPU_ID \<and>
     (\<forall>k. enabled (dist s') k \<longleftrightarrow> k \<in> named_irqs r (ucast (operand regs fsr s)) \<or> enabled (dist s) k) \<and>
     trace s' = t @ [Ev_WriteRegisters VM_ID True (regs\<lparr>pc := pc regs + 4\<rparr>), Ev_Send 4 0 0]"
  using isenabler_store_run [OF assms, of b regs] by blast

text \<open>
  C10. A word store to an interrupt clear-enable register disables exactly the named interrupts
  from 16 on; software-generated interrupts stay enabled whatever the guest writes.
\<close>

theorem icenabler_store_disables:
  assumes "irq_inv s" and "regs_calls_succeed K"
    and "word_access fsr" and "unat offset = 0x180 + 4 * r" and "r < 31"
  shows "\<exists>s'. vgic_dist_reg_write b K VCPU_ID offset fsr regs s = Ret (True, s') \<and> irq_inv s' \<and> vgic s' = vgic s \<and>
     (\<forall>k. enabled (dist s') k \<longleftrightarrow>
        enabled (dist s) k \<and> \<not> (16 \<le> k \<and> k \<in> named_irqs r (ucast (operand regs fsr s)))) \<and>
     trace s' = trace s @ [Ev_WriteRegisters VM_ID True (regs\<lparr>pc := pc regs + 4\<rparr>), Ev_Send 4 0 0]"
proof -
  let ?data = "ucast (operand regs fsr s) :: u32"
  have off: "unat offset = unat (GIC_DIST_ICENABLER0) + 4 * r" "unat offset = 4 * (96 + r)" using assms(4) by simp_all
  have im: "reg_irq offset GIC_DIST_ICENABLER0 ` set (filter (bit ?data) [0..<32]) = named_irqs r ?data"
    using reg_irq_image [OF off(1)] assms(5) by simp
  have "has_bit (reg_irq offset GIC_DIST_ICENABLER0 i)" if "i \<in> set (filter (bit ?data) [0..<32])" for i
    using named_has_bit [OF assms(5)] im that by blast
  from disable_all_ok [where f = "reg_irq offset GIC_DIST_ICENABLER0" and ks = "filter (bit ?data) [0..<32]",
      OF assms(1) this] obtain s1 where
    s1: "for_each (\<lambda>i. vgic_dist_disable_irq VCPU_ID (reg_irq offset GIC_DIST_ICENABLER0 i)) (filter (bit ?data) [0..<32]) s = Ret s1"
      "irq_inv s1" "vgic s1 = vgic s" "trace s1 = trace s"
      "enabled (dist s1) = (\<lambda>k. enabled (dist s) k \<and> \<not> (16 \<le> k \<and> k \<in> named_irqs r ?data))" unfolding im by blast
  have "dist_reg_store b K VCPU_ID offset fsr (- 1) regs s = Ret s1"
    using assms(3,5) s1(1)
    by (simp add: dist_reg_store_def RANGE32_off [OF off(2)] Let_def fault_get_data_eq word_access_def ctz_loop_eq)
  from dist_write_returns [OF assms(3) _ assms(2) this] off(2) s1(2-5) show ?thesis by auto
qed

lemma timer_operand: "word_access 0x1850040" "operand (zero_ctx\<lparr>x5 := v\<rparr>) 0x1850040 s = v"
  by (simp_all add: word_access_def operand_def lane_eval xregs_def)

theorem isenabler_store_enables_witness:
  "\<exists>s'. vgic_dist_reg_write Odroidc2 (demo_kernel zero_ctx (\<lambda>_. 0) Other_label) VCPU_ID 0x104 0x1850040
      (zero_ctx\<lparr>x5 := 0x2\<rparr>) timer_state = Ret (True, s') \<and> enabled (dist s') 33 \<and> (enabled (dist s') 34 \<longleftrightarrow> enabled (dist timer_state) 34)"
proof -
  let ?K = "demo_kernel zero_ctx (\<lambda>_. 0) Other_label"
  have "33 \<in> named_irqs 1 2" "34 \<notin> named_irqs 1 2" by (simp_all add: named_irqs_def)
  with isenabler_store_enables [where K = ?K and fsr = "0x1850040" and offset = "0x104" and r = 1 and
      b = Odroidc2 and regs = "zero_ctx\<lparr>x5 := 0x2\<rparr>", OF irq_inv_timer_state]
  show ?thesis by (auto simp: timer_deliverable(3) timer_operand)
qed

theorem icenabler_store_disables_witness:
  "\<exists>s'. vgic_dist_reg_write Imx8mm_evk (demo_kernel zero_ctx (\<lambda>_. 0) Other_label) VCPU_ID 0x180 0x1850040
      (zero_ctx\<lparr>x5 := 0xffffffff\<rparr>) timer_state = Ret (True, s') \<and> \<not> enabled (dist s') 27 \<and>
      (enabled (dist s') 3 \<longleftrightarrow> enabled (dist timer_state) 3)"
proof -
  let ?K = "demo_kernel zero_ctx (\<lambda>_. 0) Other_label"
  have "27 \<in> named_irqs 0 0xffffffff" by (simp add: named_irqs_def)
  with icenabler_store_disables [where K = ?K and fsr = "0x1850040" and offset = "0x180" and r = 0 and
      b = Imx8mm_evk and regs = "zero_ctx\<lparr>x5 := 0xffffffff\<rparr>", OF irq_inv_timer_state]
  show ?thesis by (auto simp: timer_operand)
qed

text \<open>
  C26. A word load on the register page of a GICv2 board: the operand register receives the word
  of the page in its low half, the guest continues behind the instruction, the fault is answered
  once, and neither the controller nor anything else in the monitor changes.
\<close>

theorem dist_word_load:
  assumes "wf_dist (dist s)" and "wf_dist_v2 (dist_v2 (dist s))" and "gic_version_of b = GIC_V2"
    and "regs_calls_succeed K" and "word_access fsr" and "fault_is_read fsr"
    and "unat (HSR_SYNDROME_RT fsr) \<le> 30" and "unat offset = 4 * i" and "i < 1024"
  shows "\<exists>v regs'. vgic_dist_reg_read b K VCPU_ID offset fsr regs s = Ret (True, s\<lparr>trace := trace s @
        [Ev_WriteRegisters VM_ID True regs', Ev_Send 4 0 0]\<rparr>) \<and>
     xregs regs' = (xregs regs)[unat (HSR_SYNDROME_RT fsr) := v] \<and> pc regs' = pc regs + 4 \<and>
     ucast v = dist_page (dist s) ! i"
proof -
  let ?addr = "GIC_DIST_PADDR b + offset" and ?w = "dist_page (dist s) ! i"
  have al: "unat ?addr mod 4 = 0" using assms(8) by (intro PADDR_aligned) simp
  then have lane: "lane_ok ?addr fsr" "lane_shift ?addr = 0" "lane_bits fsr = 32"
    using assms(5) by (simp_all add: lane_ok_def word_access_def lane_shift_def lane_bits_def)
  from fault_advance_load_eq [OF assms(4) lane(1) assms(6,7), of regs "ucast ?w" s] obtain v regs' where
    v: "fault_advance K regs ?addr fsr (ucast ?w) s = Ret (False, s\<lparr>trace := trace s @
        [Ev_WriteRegisters VM_ID True regs', Ev_Send 4 0 0]\<rparr>)"
      "xregs regs' = (xregs regs)[unat (HSR_SYNDROME_RT fsr) := v]" "pc regs' = pc regs + 4"
      "\<And>i. bit v i \<longleftrightarrow> (if i < 32 then bit (ucast ?w :: u64) i else bit (xregs regs ! unat (HSR_SYNDROME_RT fsr)) i)"
    unfolding lane(2,3) by auto
  have "(ucast v :: u32) = ?w"
    by (rule bit_word_eqI) (auto simp: bit_simps v(4))
  moreover have "vgic_dist_reg_read b K VCPU_ID offset fsr regs s = Ret (True, s\<lparr>trace := trace s @
        [Ev_WriteRegisters VM_ID True regs', Ev_Send 4 0 0]\<rparr>)"
    using dist_load_eq [OF assms(1-3,8,9)] v(1)
    by (simp add: vgic_dist_reg_read_def word_access_mask [OF assms(5) al] ucast_mask_32)
  ultimately show ?thesis using v(2,3) by blast
qed

text \<open>
  Word stores to the identification, reserved, priority, target and configuration registers
  and to everything behind the SGI registers are ignored: only the guest moves on.
\<close>

lemma readonly_store_ignored:
  assumes "word_access fsr" and "unat offset mod 4 = 0" and "regs_calls_succeed K"
    and "4 \<le> unat offset \<and> unat offset < 0x80 \<or> 0x400 \<le> unat offset \<and> unat offset < 0xF00 \<or>
      0xF04 \<le> unat offset \<and> unat offset < 0xF10 \<or> 0xF30 \<le> unat offset"
  shows "vgic_dist_reg_write b K VCPU_ID offset fsr regs s = Ret (True, s\<lparr>trace := trace s @
     [Ev_WriteRegisters VM_ID True (regs\<lparr>pc := pc regs + 4\<rparr>), Ev_Send 4 0 0]\<rparr>)"
proof -
  have R: "RANGE32 a c offset \<longleftrightarrow> unat a \<le> unat offset \<and> unat offset \<le> unat c + 3" if "unat c < 0x10000" for a c
    by (rule RANGE32_nat [OF that])
  have "dist_reg_store b K VCPU_ID offset fsr (- 1) regs s = Ret s"
    using assms(4) by (elim disjE) (simp_all add: dist_reg_store_def R Let_def)
  from dist_write_returns [OF assms(1-3) this] show ?thesis .
qed

lemma vgic_dist_is_enabled_switch:
  "vgic_dist_is_enabled b (vgic_dist_enable b d)" "\<not> vgic_dist_is_enabled b (vgic_dist_disable b d)"
proof -
  have two: "x AND 2 = 0 \<longleftrightarrow> \<not> bit x 1" for x :: u32 using and_exp_eq_0_iff_not_bit [of x 1] by simp
  have v3: "bit (ctlr d OR 18) 1" "\<not> bit (ctlr d AND - 19) 1" by (simp_all add: bit_simps)
  show "vgic_dist_is_enabled b (vgic_dist_enable b d)" "\<not> vgic_dist_is_enabled b (vgic_dist_disable b d)"
    using v3 by (simp_all add: vgic_dist_is_enabled_def vgic_dist_enable_def vgic_dist_disable_def GIC_ENABLED_def
        two split: gic_version.split)
qed

lemma irq_inv_cong: "vgic s' = vgic s \<Longrightarrow> dist s' = dist s \<Longrightarrow> irq_inv s' = irq_inv s"
  by (simp add: irq_inv_def)

lemma irq_inv_ctlr [simp]: "irq_inv (s\<lparr>dist := dist s\<lparr>ctlr := c\<rparr>\<rparr>) = irq_inv s"
  by (simp add: irq_inv_def)

lemma irq_inv_switch:
  "irq_inv s \<Longrightarrow> irq_inv (s\<lparr>dist := vgic_dist_enable b (dist s)\<rparr>)"
  "irq_inv s \<Longrightarrow> irq_inv (s\<lparr>dist := vgic_dist_disable b (dist s)\<rparr>)"
  by (simp_all add: vgic_dist_enable_def vgic_dist_disable_def split: gic_version.split)

text \<open>
  A word store to the control register: the enable encoding of the version switches the
  controller on, zero switches it off, and any other value leaves it as it is; the interrupt
  state is untouched.
\<close>

lemma ctlr_store_switches:
  assumes "irq_inv s" and "word_access fsr" and "regs_calls_succeed K"
  shows "\<exists>s'. vgic_dist_reg_write b K VCPU_ID 0 fsr regs s = Ret (True, s') \<and> irq_inv s' \<and> vgic s' = vgic s \<and>
     (let data = ucast (operand regs fsr s) :: u32 in
      vgic_dist_is_enabled b (dist s') \<longleftrightarrow>
        data = GIC_ENABLED b \<or> data \<noteq> 0 \<and> vgic_dist_is_enabled b (dist s))"
proof -
  let ?data = "ucast (operand regs fsr s) :: u32"
  define d where "d = (if ?data = GIC_ENABLED b then vgic_dist_enable b (dist s)
    else if ?data = 0 then vgic_dist_disable b (dist s) else dist s)"
  have st: "dist_reg_store b K VCPU_ID 0 fsr (- 1) regs s = Ret (s\<lparr>dist := d\<rparr>)"
    using assms(2) by (simp add: dist_reg_store_def RANGE32_def Let_def fault_get_data_eq word_access_def d_def)
  have "irq_inv (s\<lparr>dist := d\<rparr>)" using irq_inv_switch [OF assms(1)] assms(1) by (simp add: d_def)
  then have inv: "irq_inv (s\<lparr>trace := t, dist := d\<rparr>)" for t by (rule irq_inv_cong [THEN iffD2, rotated 2]) simp_all
  have "GIC_ENABLED b \<noteq> 0" by (simp add: GIC_ENABLED_def split: gic_version.split)
  then have "vgic_dist_is_enabled b d \<longleftrightarrow> ?data = GIC_ENABLED b \<or> ?data \<noteq> 0 \<and> vgic_dist_is_enabled b (dist s)"
    by (simp add: d_def vgic_dist_is_enabled_switch)
  with inv dist_write_returns [OF assms(2) _ assms(3) st] show ?thesis by (simp add: Let_def)
qed

lemma word_store_arr:
  assumes "word_access fsr" and "fault_is_write fsr" and "unat addr mod 4 = 0" and "unat i < length a"
  shows "emulate_arr_write regs addr fsr a i s = Ret (a[unat i := ucast (operand regs fsr s)])"
proof -
  have lane: "lane_ok addr fsr" "lane_shift addr = 0" "lane_bits fsr = 32"
    using assms(1,3) by (simp_all add: lane_ok_def word_access_def lane_shift_def lane_bits_def)
  from fault_emulate_write_bits [OF lane(1) assms(2), of "ucast (a ! unat i)" "operand regs fsr s"] obtain v where
    v: "fault_emulate (ucast (a ! unat i)) addr fsr (operand regs fsr s) = Ret v"
      "\<And>k. bit v k \<longleftrightarrow> (if k < 32 then bit (operand regs fsr s) k else bit (ucast (a ! unat i) :: u64) k)"
    unfolding lane(2,3) by auto
  have "(ucast v :: u32) = ucast (operand regs fsr s)" by (rule bit_word_eqI) (auto simp: bit_simps v(2))
  with v(1) assms show ?thesis
    by (simp add: emulate_arr_write_def emulate_reg_write_access_def fault_get_data_eq word_access_def)
qed

text \<open>
  A word stored to an interrupt group register (1 to 31) reads back: the load from the same
  offset returns the stored word. Nothing else of the controller changes.
\<close>

lemma igroupr_store_load:
  assumes "wf_dist (dist s)" and "word_access fsr" and "fault_is_write fsr" and "regs_calls_succeed K"
    and "unat offset = 0x84 + 4 * r" and "r < 31"
  shows "\<exists>s'. vgic_dist_reg_write b K VCPU_ID offset fsr regs s = Ret (True, s') \<and>
     dist_reg_value b (dist s') VCPU_ID offset = Ret (Some (ucast (operand regs fsr s))) \<and>
     dist s' = (dist s)\<lparr>irq_group := (irq_group (dist s))[r := ucast (operand regs fsr s)]\<rparr> \<and> vgic s' = vgic s"
proof -
  let ?data = "ucast (operand regs fsr s) :: u32"
  have off: "unat offset = 4 * (33 + r)" using assms(5) by simp
  have len: "length (irq_group (dist s)) = 31" using assms(1) by (simp add: wf_dist_def)
  have "uint (GIC_DIST_REGN offset 0x84) = int r" using REGN_off [OF off, of "0x84"] by simp
  then have regn: "unat (GIC_DIST_REGN offset 0x84) = r" by (metis of_nat_eq_iff uint_nat)
  have al: "unat (GIC_DIST_PADDR b + offset) mod 4 = 0" using off by (intro PADDR_aligned) simp
  have st: "dist_reg_store b K VCPU_ID offset fsr (- 1) regs s =
      Ret (s\<lparr>dist := (dist s)\<lparr>irq_group := (irq_group (dist s))[r := ?data]\<rparr>\<rparr>)"
    using assms(6) len regn
    by (simp add: dist_reg_store_def RANGE32_off [OF off] Let_def word_store_arr [OF assms(2,3) al])
  have "dist_reg_value b ((dist s)\<lparr>irq_group := (irq_group (dist s))[r := ?data]\<rparr>) VCPU_ID offset = Ret (Some ?data)"
    using assms(6) len by (simp add: dist_reg_value_def RANGE32_off [OF off] REGN_off [OF off] Let_def)
  with dist_write_returns [OF assms(2) _ assms(4) st] off show ?thesis by simp
qed

text \<open>
  C27. A word store to the software-generated interrupt register, for every value stored and every state
  that satisfies the invariant, with at most 66 registered interrupts. Unless the target filter is 3, interrupt \<^verbatim>\<open>data & 0xF\<close> is injected into the guest as
  the abstract controller does it: if it is registered, enabled and not in flight, the kernel is
  called exactly once, for the first empty list register (or it waits, without a call, when there is
  none), and otherwise nothing changes. With the filter 3 the store is ignored. In both cases the
  guest is moved on and the fault is answered once.
\<close>

theorem sgir_store_injects:
  assumes "irq_inv s" and "card (known_irqs (vgic s)) \<le> 66" and "inject_succeeds K" and "regs_calls_succeed K"
    and "word_access fsr" and "(ucast (operand regs fsr s) :: u32) = data" and "uint (data AND 0xF) = irq"
  shows "\<exists>s'. vgic_dist_reg_write b K VCPU_ID 0xF00 fsr regs s = Ret (True, s') \<and> irq_inv s' \<and>
     irq_abs_of b s' = (if drop_bit 24 (data AND push_bit 24 3) = 3 then irq_abs_of b s
        else snd (a_inject irq (irq_abs_of b s))) \<and>
     trace s' = trace s @
        (if drop_bit 24 (data AND push_bit 24 3) \<noteq> 3 \<and> deliverable b irq s \<and> \<not> pending (dist s) irq
         then case free_lr (vgic s) of Some i \<Rightarrow> [Ev_InjectIRQ VM_ID irq 0 (irq_inject_group b) (int i)] | None \<Rightarrow> []
         else []) @
        [Ev_WriteRegisters VM_ID True (regs\<lparr>pc := pc regs + 4\<rparr>), Ev_Send 4 0 0]"
proof -
  let ?mode = "drop_bit 24 (data AND push_bit 24 3)"
  have "data AND 0xF = take_bit 4 data" by (simp add: take_bit_eq_mask mask_eq_exp_minus_1)
  then have irq: "0 \<le> irq" "irq < 16" using assms(7) take_bit_int_less_exp [of 4 "uint data"] by (auto simp add: unsigned_take_bit_eq)
  have "unat (data AND push_bit 24 3) \<le> unat (push_bit 24 3 :: u32)"
    using word_and_le1 [of data "push_bit 24 3"] by (simp only: word_le_nat_alt)
  then have "unat (data AND push_bit 24 3) div 2 ^ 24 \<le> unat (push_bit 24 3 :: u32) div 2 ^ 24" by (rule div_le_mono)
  then have "unat ?mode < 4" by (simp add: unat_drop_bit_eq drop_bit_eq_div unat_div_distrib)
  then have "unat ?mode = 0 \<or> unat ?mode = 1 \<or> unat ?mode = 2 \<or> unat ?mode = 3" by linarith
  then have mode: "?mode = 0 \<or> ?mode = 1 \<or> ?mode = 2 \<or> ?mode = 3" by (auto simp: word_unat_eq_iff)
  obtain r s1 where s1: "vgic_inject_irq b K VCPU_ID irq s = Ret (r, s1)" "irq_inv s1"
    "irq_abs_of b s1 = snd (a_inject irq (irq_abs_of b s))" "trace s1 = trace s @ inject_events b irq (irq_abs_of b s)"
    using inject_traced [OF assms(1) _ _ assms(3) waiting_room [OF assms(1,2)], of irq b] irq
    by (auto simp: has_bit_def)
  have st: "dist_reg_store b K VCPU_ID 0xF00 fsr (- 1) regs s = sgir_write b K data s"
    using assms(5,6) by (simp add: dist_reg_store_def RANGE32_def Let_def fault_get_data_eq word_access_def)
  have off: "unat (0xF00 :: u64) mod 4 = 0" by simp
  note ret = dist_write_returns [OF assms(5) off assms(4)]
  show ?thesis
  proof (cases "?mode = 3")
    case True
    then have "sgir_write b K data s = Ret s" by (simp add: sgir_write_def Let_def)
    from ret [OF st [unfolded this]] True assms(1) show ?thesis by (simp add: irq_abs_of_def)
  next
    case False
    then have "sgir_write b K data s = Ret s1" using mode s1(1) assms(7) by (auto simp: sgir_write_def Let_def)
    from ret [OF st [unfolded this]] False s1(2-4) show ?thesis
      by (simp add: inject_events_abs [OF assms(1)]) (simp add: irq_abs_of_def)
  qed
qed

lemma filter_single_bit:
  assumes "i < 32"
  shows "filter (bit (push_bit i 1 :: u32)) [0..<32] = [i]"
proof -
  have b: "bit (push_bit i 1 :: u32) k \<longleftrightarrow> k = i" for k using assms by (auto simp: bit_simps)
  then have "push_bit i 1 \<noteq> (0 :: u32)" using bit_0_eq by (metis bot_apply bot_bool_def)
  from filter_bits_CTZ [OF this] CTZ_least(2) [OF this] b
  show ?thesis by (simp del: push_bit_of_1)
qed

text \<open>
  C37. A guest can bring the monitor to a null-pointer access: setting the pending bit of a shared
  interrupt that nobody registered faults in the store emulation.
\<close>

theorem ispendr_store_unregistered_faults:
  assumes "wf_vgic (vgic s)" and "word_access fsr" and "unat offset = 0x200 + 4 * r" and "1 \<le> r" and "r \<le> 31"
    and "i < 32" and "(ucast (operand regs fsr s) :: u32) = push_bit i 1"
    and "registered (vgic s) VCPU_ID (int (32 * r + i)) = None"
  shows "vgic_dist_reg_write b K VCPU_ID offset fsr regs s = Fault Null_deref"
proof -
  have off: "unat offset = unat (GIC_DIST_ISPENDR0) + 4 * r" "unat offset = 4 * (128 + r)" using assms(3) by simp_all
  have irq: "reg_irq offset GIC_DIST_ISPENDR0 i = int (32 * r + i)" by (rule reg_irq_eq [OF off(1) assms(5,6)])
  have "virq_find_irq_data (vgic s) VCPU_ID (int (32 * r + i)) = Ret None"
    using assms(1,4,8) by (simp add: registered_spi virq_find_irq_data_def virq_find_spi_irq_data_def)
  then have "vgic_dist_set_pending_irq b K VCPU_ID (reg_irq offset GIC_DIST_ISPENDR0 i) s = Fault Null_deref"
    unfolding irq by (simp add: vgic_dist_set_pending_irq_def deref_simps)
  then have "dist_reg_store b K VCPU_ID offset fsr (- 1) regs s = Fault Null_deref"
    using assms(2,5) assms(7)
    by (simp add: dist_reg_store_def RANGE32_off [OF off(2)] Let_def fault_get_data_eq word_access_def ctz_loop_eq
        filter_single_bit [OF assms(6)] del: push_bit_of_1)
  then show ?thesis
    using assms(2) off(2) by (simp add: vgic_dist_reg_write_def word_access_mask PADDR_aligned ucast_mask_32)
qed

text \<open>
  A byte store to a set-enable register that does not start at the lowest byte of the
  register has no effect: the operand is masked with the shifted lane mask without being shifted
  itself, so the bits the guest meant are dropped.
\<close>

lemma byte_enable_store_lost:
  assumes "bit fsr 24" and "syndrome_width fsr = WIDTH_BYTE" and "0x100 \<le> unat offset" and "unat offset < 0x180"
    and "unat offset mod 4 \<noteq> 0" and "unat (operand regs fsr s) < 256" and "regs_calls_succeed K"
  shows "vgic_dist_reg_write b K VCPU_ID offset fsr regs s = Ret (True, s\<lparr>trace := trace s @
     [Ev_WriteRegisters VM_ID True (regs\<lparr>pc := pc regs + 4\<rparr>), Ev_Send 4 0 0]\<rparr>)"
proof -
  let ?addr = "GIC_DIST_PADDR b + offset"
  have "unat (GIC_DIST_PADDR b) mod 4 = 0" by (cases b) (simp_all add: GIC_DIST_PADDR_def)
  moreover have "unat ?addr mod 4 = (unat (GIC_DIST_PADDR b) + unat offset) mod 4"
    by (simp add: unat_word_ariths mod_mod_cancel)
  ultimately have al: "unat ?addr mod 4 \<noteq> 0" using assms(5) by presburger
  let ?m = "push_bit (8 * (unat ?addr mod 4)) (mask 8) :: u64"
  have m: "fault_get_data_mask ?addr fsr = Ret ?m"
    using assms(1,2) by (simp add: fault_get_data_mask_eq lane_aligned_def)
  have small: "\<not> bit (operand regs fsr s) n" if "8 \<le> n" for n
  proof -
    have "take_bit 8 (operand regs fsr s) = operand regs fsr s"
      using assms(6) by (simp add: word_unat_eq_iff unsigned_take_bit_eq take_bit_nat_eq_self)
    then show ?thesis using that by (metis bit_take_bit_iff not_less)
  qed
  have "(ucast (operand regs fsr s) :: u32) AND ucast ?m = 0"
  proof (rule bit_word_eqI)
    fix n
    have "\<not> (bit (operand regs fsr s) n \<and> bit ?m n)" using small [of n] al by (auto simp: bit_simps)
    then show "bit ((ucast (operand regs fsr s) :: u32) AND ucast ?m) n = bit (0 :: u32) n"
      by (auto simp: bit_simps)
  qed
  then have "dist_reg_store b K VCPU_ID offset fsr (ucast ?m) regs s = Ret s"
    using assms(1,3,4) by (simp add: dist_reg_store_def RANGE32_nat Let_def fault_get_data_eq ctz_loop.simps)
  then show ?thesis using m by (simp add: vgic_dist_reg_write_def fault_advance_vcpu_eq [OF assms(7)])
qed

text \<open>
  C36. Clearing the pending bit does not take the interrupt out of its list register. If the guest
  clears the bit of an interrupt in flight while a list register is empty, the next injection hands
  the same interrupt to the kernel again: it then sits in two list registers at once.
\<close>

theorem clear_pending_then_inject_duplicates:
  assumes "irq_inv s" and "deliverable b irq s" and "pending (dist s) irq" and "free_lr (vgic s) = Some i"
    and "inject_succeeds K"
  shows "\<exists>s1 s2 j. vgic_dist_clr_pending_irq VCPU_ID irq s = Ret s1 \<and>
     vgic_inject_irq b K VCPU_ID irq s1 = Ret (True, s2) \<and>
     trace s2 = trace s @ [Ev_InjectIRQ VM_ID irq 0 (irq_inject_group b) (int i)] \<and> i < 4 \<and> j < 4 \<and> i \<noteq> j \<and>
     virq (lr_shadow (vcpu0 (vgic s2)) ! i) = irq \<and> virq (lr_shadow (vcpu0 (vgic s2)) ! j) = irq"
proof -
  note D = irq_invD [OF assms(1)]
  obtain h where h: "registered (vgic s) VCPU_ID irq = Some h" using assms(2) by (auto simp: deliverable_def)
  then obtain p where p: "virq_find_irq_data (vgic s) VCPU_ID irq = Ret p" "deref (vgic s) p = Ret h" "virq h = irq" "0 \<le> irq"
    using lookup_registered [OF D(1)] by blast
  have irq: "has_bit irq" using D(4) [OF h] by simp
  let ?d = "pending_put (dist s) irq False" and ?v = "vgic s" and ?lrs = "lr_shadow (vcpu0 (vgic s))"
  let ?s2 = "s\<lparr>dist := pending_put ?d irq True\<rparr>"
  have clr: "vgic_dist_clr_pending_irq VCPU_ID irq s = Ret (s\<lparr>dist := ?d\<rparr>)"
    by (simp add: vgic_dist_clr_pending_irq_def set_pending_eq [OF D(2) irq])
  have inj: "vgic_inject_irq b K VCPU_ID irq (s\<lparr>dist := ?d\<rparr>) = queue_and_load b K VCPU_ID p ?s2"
    using p assms(2) D(2) irq
    by (simp add: vgic_inject_irq_def vgic_dist_set_pending_irq_def is_enabled_eq is_pending_eq set_pending_eq
        bits_put deliverable_def)
  have wait: "waiting ?v = []" using D(9) free_lr_SomeD [OF D(1) assms(4)] by blast
  obtain q where q: "queue_and_load b K VCPU_ID p ?s2 = Ret (True,
       ?s2\<lparr>trace := trace s @ [Ev_InjectIRQ VM_ID irq 0 (irq_inject_group b) (int i)],
         vgic := put_vcpu0 ?v ((vcpu0 ?v)\<lparr>irq_queue := q, lr_shadow := ?lrs[i := h]\<rparr>)\<rparr>)"
    using queue_and_load_free [of ?s2 p h i K b] D(1) p wait assms(4,5) by auto
  have len: "length ?lrs = 4" using wf_vgic_vcpu0 [OF D(1)] by (simp add: wf_vcpu_def)
  note i = free_lr_SomeD [OF D(1) assms(4)]
  have "irq \<in> set (List.map_filter lr_irq ?lrs)" using D(8) assms(3) wait by (auto simp: flight_def)
  then obtain j where "j < length ?lrs" "lr_irq (?lrs ! j) = Some irq" by (auto simp: map_filter_def in_set_conv_nth)
  then have j: "j < 4" "virq (?lrs ! j) = irq" "i \<noteq> j" using len i(2) by (auto simp: lr_irq_def split: if_splits)
  let ?s3 = "?s2\<lparr>trace := trace s @ [Ev_InjectIRQ VM_ID irq 0 (irq_inject_group b) (int i)],
      vgic := put_vcpu0 ?v ((vcpu0 ?v)\<lparr>irq_queue := q, lr_shadow := ?lrs[i := h]\<rparr>)\<rparr>"
  show ?thesis
    using clr inj q i(1) j len p(3) by (intro exI [of _ "s\<lparr>dist := ?d\<rparr>"] exI [of _ ?s3] exI [of _ j]) simp
qed

theorem dist_word_load_witness:
  "\<exists>v regs'. vgic_dist_reg_read Qemu_arm_virt_hyp (demo_kernel zero_ctx (\<lambda>_. 0) Other_label) VCPU_ID 0 0x1850000 zero_ctx timer_state =
     Ret (True, timer_state\<lparr>trace := [Ev_WriteRegisters VM_ID True regs', Ev_Send 4 0 0]\<rparr>) \<and>
     xregs regs' = (xregs zero_ctx)[5 := v] \<and> (ucast v :: u32) = dist_page (dist timer_state) ! 0"
proof -
  have "word_access 0x1850000" "fault_is_read 0x1850000" and rt: "unat (HSR_SYNDROME_RT 0x1850000) = 5"
    by (simp_all add: word_access_def lane_eval)
  moreover have "wf_dist (dist timer_state)" "wf_dist_v2 (dist_v2 (dist timer_state))"
    using zero_dist_ok by (simp_all add: enable_put_def [of "zero_dist\<lparr>ctlr := 1\<rparr>"] wf_dist_def)
  ultimately show ?thesis
    using dist_word_load [of timer_state Qemu_arm_virt_hyp "demo_kernel zero_ctx (\<lambda>_. 0) Other_label" "0x1850000" 0 0 zero_ctx] rt
    by (auto simp: gic_version_of_def)
qed

lemma readonly_store_ignored_example:
  "vgic_dist_reg_write Imx8mm_evk (demo_kernel zero_ctx (\<lambda>_. 0) Other_label) VCPU_ID 0x410 0x1850040 zero_ctx timer_state =
     Ret (True, timer_state\<lparr>trace := [Ev_WriteRegisters VM_ID True (zero_ctx\<lparr>pc := 4\<rparr>), Ev_Send 4 0 0]\<rparr>)"
  using readonly_store_ignored [OF timer_operand(1), of "0x410" "demo_kernel zero_ctx (\<lambda>_. 0) Other_label" Imx8mm_evk zero_ctx timer_state]
  by (simp add: zero_ctx_def)

lemma igroupr_store_load_witness:
  "\<exists>s'. vgic_dist_reg_write Qemu_arm_virt_hyp (demo_kernel zero_ctx (\<lambda>_. 0) Other_label) VCPU_ID 0x88 0x1850040
      (zero_ctx\<lparr>x5 := 0xABCD\<rparr>) timer_state = Ret (True, s') \<and>
     dist_reg_value Qemu_arm_virt_hyp (dist s') VCPU_ID 0x88 = Ret (Some 0xABCD)"
proof -
  have "wf_dist (dist timer_state)" using zero_dist_ok by simp
  moreover have "fault_is_write 0x1850040" by (simp add: fault_is_write_iff)
  ultimately show ?thesis
    using igroupr_store_load [of timer_state "0x1850040" "demo_kernel zero_ctx (\<lambda>_. 0) Other_label" "0x88" 1 Qemu_arm_virt_hyp "zero_ctx\<lparr>x5 := 0xABCD\<rparr>"]
    by (auto simp: timer_operand)
qed

theorem ispendr_store_unregistered_faults_witness:
  "vgic_dist_reg_write Qemu_arm_virt_hyp (demo_kernel zero_ctx (\<lambda>_. 0) Other_label) VCPU_ID 0x204 0x1850040
      (zero_ctx\<lparr>x5 := 0x2\<rparr>) timer_state = Fault Null_deref"
  using ispendr_store_unregistered_faults [of timer_state "0x1850040" "0x204" 1 1 "zero_ctx\<lparr>x5 := 0x2\<rparr>" Qemu_arm_virt_hyp
      "demo_kernel zero_ctx (\<lambda>_. 0) Other_label"]
  by (simp add: timer_operand wf_timer_vgic registered_timer_vgic)

lemma byte_enable_store_lost_witness:
  "vgic_dist_reg_write Qemu_arm_virt_hyp (demo_kernel zero_ctx (\<lambda>_. 0) Other_label) VCPU_ID 0x101 0x1050040
      (zero_ctx\<lparr>x5 := 0x1\<rparr>) timer_state =
     Ret (True, timer_state\<lparr>trace := [Ev_WriteRegisters VM_ID True (zero_ctx\<lparr>x5 := 0x1, pc := 4\<rparr>), Ev_Send 4 0 0]\<rparr>)"
proof -
  have "syndrome_width 0x1050040 = WIDTH_BYTE" "operand (zero_ctx\<lparr>x5 := 0x1\<rparr>) 0x1050040 timer_state = 1"
    by (simp_all add: operand_def lane_eval xregs_def)
  then show ?thesis
    using byte_enable_store_lost [of "0x1050040" "0x101" "zero_ctx\<lparr>x5 := 0x1\<rparr>" timer_state
        "demo_kernel zero_ctx (\<lambda>_. 0) Other_label" Qemu_arm_virt_hyp]
    by (simp add: zero_ctx_def)
qed

theorem clear_pending_then_inject_duplicates_witness:
  "\<exists>s0 s1 s2. vgic_inject_irq Qemu_arm_virt_hyp (demo_kernel zero_ctx (\<lambda>_. 0) Other_label) VCPU_ID 27 timer_state = Ret (True, s0) \<and>
     vgic_dist_clr_pending_irq VCPU_ID 27 s0 = Ret s1 \<and>
     vgic_inject_irq Qemu_arm_virt_hyp (demo_kernel zero_ctx (\<lambda>_. 0) Other_label) VCPU_ID 27 s1 = Ret (True, s2) \<and>
     trace s2 = trace s0 @ [Ev_InjectIRQ VM_ID 27 0 (irq_inject_group Qemu_arm_virt_hyp) 1] \<and>
     (\<exists>j. j < 4 \<and> j \<noteq> 1 \<and> virq (lr_shadow (vcpu0 (vgic s2)) ! 1) = 27 \<and> virq (lr_shadow (vcpu0 (vgic s2)) ! j) = 27)"
proof -
  let ?K = "demo_kernel zero_ctx (\<lambda>_. 0) Other_label" and ?b = Qemu_arm_virt_hyp
  let ?a = "irq_abs_of ?b timer_state"
  have lrs: "a_lrs ?a = [None, None, None, None]" "a_wait ?a = []"
    by (simp_all add: irq_abs_of_def timer_lrs lr_irq_def eval_nat_numeral)
  have "free_lr (vgic timer_state) = Some 0" using free_lr_abs [of ?b timer_state] lrs by simp
  from inject_list_register_refines [OF irq_inv_timer_state timer_deliverable(1,2) this, of ?K] obtain s0 where
    s0: "vgic_inject_irq ?b ?K VCPU_ID 27 timer_state = Ret (True, s0)" "irq_inv s0"
      "irq_abs_of ?b s0 = ?a\<lparr>a_lrs := [Some 27, None, None, None]\<rparr>" using lrs by auto
  have "flight (vgic s0) = [27]"
    using in_flight_irq_abs_of [of ?b s0] s0(3) lrs by (simp add: in_flight_def List.map_filter_simps)
  then have "pending (dist s0) 27" using irq_invD(8) [OF s0(2)] by auto
  moreover have "deliverable ?b 27 s0" using timer_deliverable(1) s0(3) by (simp add: deliverable_abs)
  moreover have "free_lr (vgic s0) = Some 1" using free_lr_abs [of ?b s0] s0(3) by simp
  moreover have "inject_succeeds ?K" by simp
  ultimately obtain s1 s2 j where
    s2: "vgic_dist_clr_pending_irq VCPU_ID 27 s0 = Ret s1" "vgic_inject_irq ?b ?K VCPU_ID 27 s1 = Ret (True, s2)"
    "trace s2 = trace s0 @ [Ev_InjectIRQ VM_ID 27 0 (irq_inject_group ?b) (int 1)]" "j < 4" "1 \<noteq> j"
    "virq (lr_shadow (vcpu0 (vgic s2)) ! 1) = 27" "virq (lr_shadow (vcpu0 (vgic s2)) ! j) = 27"
    using clear_pending_then_inject_duplicates [OF s0(2), of ?b 27 1 ?K] by blast
  with s0(1) show ?thesis by fastforce
qed

end
