(* ===== verification/Vgic.thy ===== *)
theory Vgic
  imports Vdist
begin

text \<open>
  \<^verbatim>\<open>vgic.c\<close>: the maintenance interrupt, the registration of interrupts and the entry point for
  faults on the distributor page.
\<close>

section \<open>Handlers\<close>

text \<open>
  The local variable \<^verbatim>\<open>err\<close> of \<^verbatim>\<open>handle_vgic_maintenance\<close> is not initialised; \<open>err0\<close> is
  the value it happens to have. The result of \<^verbatim>\<open>vgic_vcpu_load_list_reg\<close>, a \<^verbatim>\<open>bool\<close>, is
  assigned to it.
\<close>

definition handle_vgic_maintenance :: "board \<Rightarrow> kernel \<Rightarrow> int \<Rightarrow> vmm_state \<Rightarrow> (bool \<times> vmm_state) res" where
  "handle_vgic_maintenance b K err0 s =
     (let idx = to_c_int (k_mr_get K (trace s) seL4_VGICMaintenance_IDX) in
      c_assert (idx \<ge> 0)
       (bind_res (get_vgic_vcpu (vgic s) (to_c_int VCPU_ID)) (\<lambda>vc.
        c_assert (idx \<ge> 0 \<and> idx < int (length (lr_shadow vc)))
         (let lr_virq = lr_shadow vc ! nat idx in
          c_assert (virq lr_virq \<noteq> VIRQ_INVALID)
           (let s1 = s\<lparr>vgic := put_vgic_vcpu (vgic s) (to_c_int VCPU_ID) (vc\<lparr>lr_shadow := (lr_shadow vc)[nat idx :=
                  \<lparr>virq = VIRQ_INVALID, ack_fn = None, ack_data = 0\<rparr>]\<rparr>)\<rparr> in
            bind_res (set_pending (dist s1) (virq lr_virq) False (to_c_int VCPU_ID)) (\<lambda>d.
            bind_res (virq_ack b K VCPU_ID lr_virq (s1\<lparr>dist := d\<rparr>)) (\<lambda>s2.
            bind_res (vgic_irq_dequeue (vgic s2) VCPU_ID) (\<lambda>(virq', v).
            let s3 = s2\<lparr>vgic := v\<rparr> in
            bind_res (if virq' = None then Ret (err0, s3)
                      else bind_res (vgic_vcpu_load_list_reg K VCPU_ID idx (irq_inject_group b) virq' s3)
                             (\<lambda>(ok, s4). Ret (if ok then 1 else 0, s4))) (\<lambda>(err, s5).
            if err = 0 then Ret (True, reply_to_fault s5) else Fault Assert_failed)))))))))"

definition vgic_register_irq ::
    "u64 \<Rightarrow> int \<Rightarrow> irq_ack_fn option \<Rightarrow> u64 \<Rightarrow> vmm_state \<Rightarrow> (bool \<times> vmm_state) res" where
  "vgic_register_irq vcpu_id virq_num fn data s =
     c_assert (virq_num \<ge> 0 \<and> virq_num \<noteq> VIRQ_INVALID)
       (bind_res (virq_add vcpu_id (vgic s) \<lparr>virq = virq_num, ack_fn = fn, ack_data = data\<rparr>) (\<lambda>(ok, v).
        Ret (ok, s\<lparr>vgic := v\<rparr>)))"

definition handle_vgic_dist_fault ::
    "board \<Rightarrow> kernel \<Rightarrow> u64 \<Rightarrow> u64 \<Rightarrow> u64 \<Rightarrow> seL4_UserContext \<Rightarrow> vmm_state \<Rightarrow> (bool \<times> vmm_state) res" where
  "handle_vgic_dist_fault b K vcpu_id fault_addr fsr regs s =
     c_assert (fault_addr \<ge> GIC_DIST_PADDR b)
       (let offset = fault_addr - GIC_DIST_PADDR b in
        if fault_is_read fsr then vgic_dist_reg_read b K vcpu_id offset fsr regs s
        else vgic_dist_reg_write b K vcpu_id offset fsr regs s)"

section \<open>The maintenance interrupt\<close>

text \<open>The list register that the message names, and the handle it holds.\<close>

definition maintained :: "kernel \<Rightarrow> vmm_state \<Rightarrow> nat" where
  "maintained K s = unat (k_mr_get K (trace s) seL4_VGICMaintenance_IDX)"

definition cleared :: "nat \<Rightarrow> vmm_state \<Rightarrow> vmm_state" where
  "cleared i s = s\<lparr>vgic := put_vcpu0 (vgic s) ((vcpu0 (vgic s))\<lparr>lr_shadow := (lr_shadow (vcpu0 (vgic s)))[i := no_virq]\<rparr>),
     dist := pending_put (dist s) (virq (lr_shadow (vcpu0 (vgic s)) ! i)) False\<rparr>"

lemma cleared_sel [simp]:
  "trace (cleared i s) = trace s" "waiting (vgic (cleared i s)) = waiting (vgic s)"
  by (simp_all add: cleared_def waiting_def)

lemma wf_cleared: "wf_vgic (vgic s) \<Longrightarrow> wf_vgic (vgic (cleared i s))"
  unfolding cleared_def using wf_vgic_vcpu0 [of "vgic s"]
  by (simp add: wf_vgic_put_vcpu0 wf_vcpu_def)

text \<open>The handler up to the acknowledgement.\<close>

lemma maintenance_unfold:
  assumes inv: "irq_inv s" and i: "maintained K s < 4"
    and occ: "virq (lr_shadow (vcpu0 (vgic s)) ! maintained K s) \<noteq> VIRQ_INVALID"
  shows "handle_vgic_maintenance b K err0 s =
     bind_res (virq_ack b K VCPU_ID (lr_shadow (vcpu0 (vgic s)) ! maintained K s) (cleared (maintained K s) s)) (\<lambda>s2.
     bind_res (vgic_irq_dequeue (vgic s2) VCPU_ID) (\<lambda>(virq', v).
     let s3 = s2\<lparr>vgic := v\<rparr> in
     bind_res (if virq' = None then Ret (err0, s3)
               else bind_res (vgic_vcpu_load_list_reg K VCPU_ID (int (maintained K s)) (irq_inject_group b) virq' s3)
                      (\<lambda>(ok, s4). Ret (if ok then 1 else 0, s4))) (\<lambda>(err, s5).
     if err = 0 then Ret (True, reply_to_fault s5) else Fault Assert_failed)))"
proof -
  note D = irq_invD [OF inv]
  let ?i = "maintained K s" and ?c = "vcpu0 (vgic s)"
  have idx: "to_c_int (k_mr_get K (trace s) seL4_VGICMaintenance_IDX) = int ?i"
    unfolding maintained_def using i by (intro to_c_int_small) (simp add: maintained_def)
  have len: "length (lr_shadow ?c) = 4" using wf_vgic_vcpu0 [OF D(1)] by (simp add: wf_vcpu_def)
  then have "lr_shadow ?c ! ?i \<in> set (lr_shadow ?c)" using i by simp
  with D(5) occ have "good_handle (vgic s) (lr_shadow ?c ! ?i)" by blast
  then have "has_bit (virq (lr_shadow ?c ! ?i))" using D(4) unfolding good_handle_def by blast
  with i len occ D(1,2) show ?thesis
    unfolding handle_vgic_maintenance_def idx
    by (simp add: set_pending_eq cleared_def no_virq_def Let_def)
qed

lemma irq_inv_cleared:
  assumes inv: "irq_inv s" and i: "i < 4" and occ: "virq (lr_shadow (vcpu0 (vgic s)) ! i) \<noteq> VIRQ_INVALID"
    and wait: "waiting (vgic s) = []"
  shows "irq_inv (cleared i s)"
proof -
  note D = irq_invD [OF inv]
  let ?c = "vcpu0 (vgic s)" and ?h = "lr_shadow (vcpu0 (vgic s)) ! i"
  let ?c' = "?c\<lparr>lr_shadow := (lr_shadow ?c)[i := no_virq]\<rparr>"
  have len: "length (lr_shadow ?c) = 4" using wf_vgic_vcpu0 [OF D(1)] by (simp add: wf_vcpu_def)
  have wfc: "wf_vcpu ?c'" using wf_vgic_vcpu0 [OF D(1)] by (simp add: wf_vcpu_def)
  have "?h \<in> set (lr_shadow ?c)" using i len by simp
  then have irq: "has_bit (virq ?h)" using D(4,5) occ by (auto simp: good_handle_def)
  from map_filter_clear [of i "lr_shadow ?c" lr_irq "virq ?h" no_virq] i len occ obtain as bs where
    ab: "List.map_filter lr_irq (lr_shadow ?c) = as @ virq ?h # bs"
      "List.map_filter lr_irq ((lr_shadow ?c)[i := no_virq]) = as @ bs" by (auto simp: lr_irq_def)
  have f: "flight (vgic s) = as @ virq ?h # bs" "flight (put_vcpu0 (vgic s) ?c') = as @ bs"
    using ab wait by (simp_all add: flight_def waiting_def)
  have "set (as @ bs) = {k. pending (pending_put (dist s) (virq ?h) False) k}"
    using D(7,8) f(1) bits_put(1) [OF D(2) irq] by auto
  moreover have "distinct (as @ bs)" using D(7) f(1) by simp
  moreover have "\<forall>h \<in> set ((lr_shadow ?c)[i := no_virq]). virq h = VIRQ_INVALID \<or> good_handle (vgic s) h"
    using D(5) set_update_subset_insert [of "lr_shadow ?c" i no_virq] by (metis insertE subsetD virq_no_virq)
  ultimately show ?thesis
    using D wf_vgic_put_vcpu0 [OF D(1) wfc] wait
    unfolding irq_inv_def cleared_def
    by (simp add: registered_put_vcpu0 [OF D(1) wfc] f(2) good_put_vcpu0 [OF D(1) wfc] waiting_def)
qed

text \<open>
  What acknowledging an interrupt tells the kernel and does to the controller. The function of the
  serial device acknowledges its channel on two boards and on \<open>Odroidc2\<close> injects interrupt 1 as well.
\<close>

definition ack_events :: "board \<Rightarrow> virq_handle \<Rightarrow> irq_abs \<Rightarrow> event list" where
  "ack_events b h a =
     (case ack_fn h of
        Some Vppi_event_ack \<Rightarrow> [Ev_AckVPPI VM_ID (of_int (virq h))]
      | Some Serial_ack \<Rightarrow>
          (case b of
             Qemu_arm_virt_hyp \<Rightarrow> [Ev_IrqAck SERIAL_IRQ_CH]
           | Odroidc2 \<Rightarrow> Ev_IrqAck SERIAL_IRQ_CH # inject_events b 1 a
           | Imx8mm_evk \<Rightarrow> [])
      | _ \<Rightarrow> [])"

definition ack_abs :: "board \<Rightarrow> virq_handle \<Rightarrow> irq_abs \<Rightarrow> irq_abs" where
  "ack_abs b h a = (if b = Odroidc2 \<and> ack_fn h = Some Serial_ack then snd (a_inject 1 a) else a)"

lemma virq_ack_eq:
  assumes "b \<noteq> Odroidc2" and "ack_fn h \<noteq> None" and "ack_succeeds K"
  shows "virq_ack b K VCPU_ID h s = Ret (s\<lparr>trace := trace s @ ack_events b h a\<rparr>)"
proof -
  obtain f where f: "ack_fn h = Some f" using assms(2) by blast
  have K: "k_ack_vppi K t k = seL4_NoError" for t k using assms(3) by (simp add: ack_succeeds_def)
  show ?thesis
    using assms(1) f by (cases f; cases b)
      (simp_all add: virq_ack_def ack_events_def vppi_event_ack_def sgi_ack_def serial_ack_def K emit_def Let_def)
qed

lemma virq_ack_run:
  assumes inv: "irq_inv s" and lr: "None \<in> set (a_lrs (irq_abs_of b s))" and h: "ack_fn h \<noteq> None"
    and K: "ack_succeeds K" "inject_succeeds K"
  shows "\<exists>s'. virq_ack b K VCPU_ID h s = Ret s' \<and> irq_inv s' \<and> waiting (vgic s') = [] \<and>
     irq_abs_of b s' = ack_abs b h (irq_abs_of b s) \<and> trace s' = trace s @ ack_events b h (irq_abs_of b s)"
proof -
  obtain f where f: "ack_fn h = Some f" using h by blast
  have Ka: "k_ack_vppi K t k = seL4_NoError" for t k using K(1) by (simp add: ack_succeeds_def)
  have "\<exists>x \<in> set (lr_shadow (vcpu0 (vgic s))). virq x = VIRQ_INVALID"
    using lr by (auto simp: irq_abs_of_def lr_irq_def split: if_splits)
  then have w: "waiting (vgic s) = []" using irq_invD(9) [OF inv] by blast
  show ?thesis
  proof (cases "b = Odroidc2 \<and> f = Serial_ack")
    case False
    then show ?thesis
      using f inv w by (cases f; cases b)
        (simp_all add: virq_ack_def ack_events_def ack_abs_def vppi_event_ack_def sgi_ack_def serial_ack_def Ka emit_def Let_def
          irq_abs_of_def irq_inv_def)
  next
    case True
    let ?e = "emit (Ev_IrqAck SERIAL_IRQ_CH) s"
    have e: "irq_inv ?e" "irq_abs_of b ?e = irq_abs_of b s" "vgic ?e = vgic s" "trace ?e = trace s @ [Ev_IrqAck SERIAL_IRQ_CH]"
      using inv by (simp_all add: emit_def irq_inv_def irq_abs_of_def)
    have one: "to_c_int SERIAL_IRQ_CH = 1" by (simp add: SERIAL_IRQ_CH_def to_c_int_small)
    have "has_bit 1" "length (waiting (vgic ?e)) < 63" using w e(3) by (simp_all add: has_bit_def)
    from inject_traced [OF e(1) this(1) _ K(2) this(2), of b] obtain s' where
      s': "vgic_inject_irq b K VCPU_ID 1 ?e = Ret (fst (a_inject 1 (irq_abs_of b s)), s')" "irq_inv s'"
        "irq_abs_of b s' = snd (a_inject 1 (irq_abs_of b s))"
        "trace s' = trace s @ Ev_IrqAck SERIAL_IRQ_CH # inject_events b 1 (irq_abs_of b s)"
      unfolding e(2,4) by auto
    have "a_wait (irq_abs_of b s') = []" using a_inject_wait [OF lr, of 1] w unfolding s'(3) by (simp add: irq_abs_of_def)
    then have "waiting (vgic s') = []" by (simp add: irq_abs_of_def)
    with s' True f one show ?thesis by (simp add: virq_ack_def serial_ack_def ack_events_def ack_abs_def)
  qed
qed

section \<open>Properties\<close>

lemma maintained_handle:
  assumes "irq_inv s" and "i < 4" and "virq (lr_shadow (vcpu0 (vgic s)) ! i) \<noteq> VIRQ_INVALID"
  shows "ack_fn (lr_shadow (vcpu0 (vgic s)) ! i) \<noteq> None"
proof -
  note D = irq_invD [OF assms(1)]
  have "lr_shadow (vcpu0 (vgic s)) ! i \<in> set (lr_shadow (vcpu0 (vgic s)))"
    using wf_vgic_vcpu0 [OF D(1)] assms(2) by (simp add: wf_vcpu_def)
  with D(4,5) assms(3) show ?thesis unfolding good_handle_def by blast
qed

lemma irq_abs_of_cleared:
  assumes inv: "irq_inv s" and i: "i < 4" and occ: "virq (lr_shadow (vcpu0 (vgic s)) ! i) \<noteq> VIRQ_INVALID"
  shows "irq_abs_of b (cleared i s) = (irq_abs_of b s)\<lparr>a_lrs := (a_lrs (irq_abs_of b s))[i := None]\<rparr>"
proof -
  note D = irq_invD [OF inv]
  let ?c = "vcpu0 (vgic s)" and ?h = "lr_shadow (vcpu0 (vgic s)) ! i"
  let ?c' = "?c\<lparr>lr_shadow := (lr_shadow ?c)[i := no_virq]\<rparr>"
  have wfc: "wf_vcpu ?c'" using wf_vgic_vcpu0 [OF D(1)] by (simp add: wf_vcpu_def)
  have "?h \<in> set (lr_shadow ?c)" using wf_vgic_vcpu0 [OF D(1)] i by (simp add: wf_vcpu_def)
  then have irq: "has_bit (virq ?h)" using D(4,5) occ by (auto simp: good_handle_def)
  show ?thesis
    by (simp add: irq_abs_of_def cleared_def bits_put(3) [OF D(2) irq] registered_put_vcpu0 [OF D(1) wfc]
        ptr_irq_put_vcpu0 [OF D(1)] map_update lr_irq_def waiting_def)
qed

lemma maintenance_run:
  assumes "irq_inv s" and "maintained K s < 4"
    and "virq (lr_shadow (vcpu0 (vgic s)) ! maintained K s) \<noteq> VIRQ_INVALID"
    and "waiting (vgic s) = []" and "ack_succeeds K" and "inject_succeeds K"
    and h: "lr_shadow (vcpu0 (vgic s)) ! maintained K s = h"
    and a: "(irq_abs_of b s)\<lparr>a_lrs := (a_lrs (irq_abs_of b s))[maintained K s := None]\<rparr> = a"
  shows "if err0 = 0
     then \<exists>s'. handle_vgic_maintenance b K err0 s = Ret (True, s') \<and> irq_inv s' \<and> irq_abs_of b s' = ack_abs b h a \<and>
       trace s' = trace s @ ack_events b h a @ [Ev_Send 4 0 0]
     else handle_vgic_maintenance b K err0 s = Fault Assert_failed"
proof -
  note D = irq_invD [OF assms(1)]
  let ?i = "maintained K s" and ?s1 = "cleared (maintained K s) s"
  have inv: "irq_inv ?s1" by (rule irq_inv_cleared [OF assms(1-4)])
  have a': "irq_abs_of b ?s1 = a" using irq_abs_of_cleared [OF assms(1-3)] a by simp
  have "?i < length (a_lrs (irq_abs_of b s))" using wf_vgic_vcpu0 [OF D(1)] assms(2) by (simp add: irq_abs_of_def wf_vcpu_def)
  then have "None \<in> set (a_lrs (irq_abs_of b ?s1))" unfolding a' a [symmetric] by (simp add: set_update_memI)
  from virq_ack_run [OF inv this _ assms(5,6), of h] maintained_handle [OF assms(1-3)] h obtain s2 where
    s2: "virq_ack b K VCPU_ID h ?s1 = Ret s2" "irq_inv s2" "waiting (vgic s2) = []" "irq_abs_of b s2 = ack_abs b h a"
      "trace s2 = trace s @ ack_events b h a" unfolding a' by auto
  have "vgic_irq_dequeue (vgic s2) VCPU_ID = Ret (None, vgic s2)"
    by (rule vgic_irq_dequeue_empty [OF irq_invD(1) [OF s2(2)] s2(3)])
  then have m: "handle_vgic_maintenance b K err0 s = (if err0 = 0 then Ret (True, reply_to_fault s2) else Fault Assert_failed)"
    using s2(1) h by (simp add: maintenance_unfold [OF assms(1-3)])
  have "irq_inv (reply_to_fault s2)" "irq_abs_of b (reply_to_fault s2) = irq_abs_of b s2"
    "trace (reply_to_fault s2) = trace s2 @ [Ev_Send 4 0 0]"
    using s2(2) by (simp_all add: reply_to_fault_def emit_def irq_abs_of_def irq_inv_def)
  with m s2(4,5) show ?thesis by (cases "err0 = 0") simp_all
qed

text \<open>
  C13. A maintenance interrupt for an occupied list register while no interrupt waits, from a state that
  satisfies the invariant and on a kernel whose calls succeed. If the
  uninitialised local happens to be zero, the register is emptied, exactly its interrupt stops being
  pending, it is acknowledged by the function of its handle and then the fault is answered, once;
  the invariant holds afterwards. On \<open>Odroidc2\<close> the acknowledgement of the serial interrupt also
  injects interrupt 1, as the abstract controller would; every other acknowledgement leaves the
  controller alone. If the local is not zero, the handler stops in \<^verbatim>\<open>assert(0)\<close>, although nothing went
  wrong.
\<close>

theorem maintenance_completes:
  assumes "irq_inv s" and "maintained K s < 4"
    and "virq (lr_shadow (vcpu0 (vgic s)) ! maintained K s) \<noteq> VIRQ_INVALID"
    and "waiting (vgic s) = []" and "ack_succeeds K" and "inject_succeeds K"
    and "lr_shadow (vcpu0 (vgic s)) ! maintained K s = h"
    and "(irq_abs_of b s)\<lparr>a_lrs := (a_lrs (irq_abs_of b s))[maintained K s := None]\<rparr> = a"
  shows "if err0 = 0
     then \<exists>s'. handle_vgic_maintenance b K err0 s = Ret (True, s') \<and> irq_inv s' \<and> irq_abs_of b s' = ack_abs b h a \<and>
       trace s' = trace s @ ack_events b h a @ [Ev_Send 4 0 0]
     else handle_vgic_maintenance b K err0 s = Fault Assert_failed"
  by (rule maintenance_run [OF assms])

text \<open>
  C35. A maintenance interrupt while another interrupt waits, on the boards other than \<open>Odroidc2\<close>: the
  waiting interrupt is loaded into the freed list register, but the success flag is taken for an
  error code, so the handler stops in \<^verbatim>\<open>assert(0)\<close> and the fault is never answered, whatever the
  uninitialised local holds.
\<close>

theorem maintenance_with_waiting_stops:
  assumes "irq_inv s" and "maintained K s < 4"
    and "virq (lr_shadow (vcpu0 (vgic s)) ! maintained K s) \<noteq> VIRQ_INVALID"
    and "waiting (vgic s) \<noteq> []" and "b \<noteq> Odroidc2" and "ack_succeeds K" and "inject_succeeds K"
  shows "handle_vgic_maintenance b K err0 s = Fault Assert_failed"
proof -
  note D = irq_invD [OF assms(1)]
  let ?i = "maintained K s"
  let ?h = "lr_shadow (vcpu0 (vgic s)) ! ?i" and ?s1 = "cleared ?i s"
  let ?s2 = "?s1\<lparr>trace := trace ?s1 @ ack_events b ?h (irq_abs_of b ?s1)\<rparr>"
  have ack: "virq_ack b K VCPU_ID ?h ?s1 = Ret ?s2"
    by (rule virq_ack_eq [OF assms(5) maintained_handle [OF assms(1-3)] assms(6)])
  have wf: "wf_vgic (vgic ?s1)" by (rule wf_cleared [OF D(1)])
  obtain p ps where p: "waiting (vgic s) = p # ps" using assms(4) by (cases "waiting (vgic s)") auto
  then have w: "waiting (vgic ?s1) = p # ps" by simp
  from vgic_irq_dequeue_cons [OF wf w] obtain q where
    q: "vgic_irq_dequeue (vgic ?s1) VCPU_ID = Ret (p, put_vcpu0 (vgic ?s1) ((vcpu0 (vgic ?s1))\<lparr>irq_queue := q\<rparr>))"
      "wf_queue q" by blast
  let ?v = "put_vcpu0 (vgic ?s1) ((vcpu0 (vgic ?s1))\<lparr>irq_queue := q\<rparr>)"
  have "good_ptr (vgic s) p" using D(6) p by simp
  then obtain h where h: "deref (vgic s) p = Ret h" by (auto simp: good_ptr_def split: res.splits)
  have "deref ?v p = deref (vgic ?s1) p" by (rule deref_put_vcpu0 [OF wf]) simp
  also have "deref (vgic ?s1) p = deref (vgic s) p" unfolding cleared_def by (simp add: deref_put_vcpu0 [OF D(1)])
  finally have dv: "deref ?v p = Ret h" using h by simp
  then obtain y where y: "p = Some y" by (cases p) (simp_all add: deref_simps)
  from ack q dv assms(2,7) wf_vgic_put_queue [OF wf q(2)] show ?thesis
    unfolding y by (simp add: maintenance_unfold [OF assms(1-3)] load_list_reg_eq [where h = h] Let_def)
qed

section \<open>A busy controller\<close>

text \<open>Five software-generated interrupts in flight: four in list registers, one waiting.\<close>

definition sgi_handle :: "nat \<Rightarrow> virq_handle" where
  "sgi_handle i = \<lparr>virq = int i, ack_fn = Some Sgi_ack, ack_data = 0\<rparr>"

definition busy_vgic :: vgic_t where
  "busy_vgic = \<lparr>vspis = replicate 200 no_virq,
     vgic_vcpu = [\<lparr>lr_shadow = map sgi_handle [0..<4],
       irq_queue = \<lparr>irqs = (replicate 64 None)[0 := Some (Local_virq 0 4)], head = 0, tail = 1\<rparr>,
       local_virqs = map (\<lambda>i. if i < 5 then sgi_handle i else no_virq) [0..<32]\<rparr>]\<rparr>"

definition busy_state :: vmm_state where
  "busy_state = \<lparr>trace = [], wzr = 0, vgic = busy_vgic, dist = zero_dist\<lparr>pending_set0 := [0x1f], pending_clr0 := [0x1f]\<rparr>,
     redist = zero_redist, memory = (\<lambda>_. 0)\<rparr>"

lemma wf_busy_vgic: "wf_vgic busy_vgic"
  by (auto simp: busy_vgic_def wf_vgic_def wf_vcpu_def wf_queue_def NUM_VCPUS_def sgi_handle_def)

lemma busy_vcpu0: "lr_shadow (vcpu0 busy_vgic) = map sgi_handle [0..<4]" "waiting busy_vgic = [Some (Local_virq 0 4)]"
  "local_virqs (vcpu0 busy_vgic) = map (\<lambda>i. if i < 5 then sgi_handle i else no_virq) [0..<32]"
  "vspis busy_vgic = replicate 200 no_virq"
  by (simp_all add: busy_vgic_def vcpu0_def waiting_def queue_list_def queue_len_def)

lemma registered_busy_vgic:
  "registered busy_vgic VCPU_ID k = (if 0 \<le> k \<and> k < 5 then Some (sgi_handle (nat k)) else None)"
proof -
  consider "k < 0" | "0 \<le> k" "k < 32" | "32 \<le> k" by linarith
  then show ?thesis
  proof cases
    case 2
    then have n: "nat k < 32" "nat k < 5 \<longleftrightarrow> k < 5" by auto
    have "local_virqs (vcpu0 busy_vgic) ! nat k = (if nat k < 5 then sgi_handle (nat k) else no_virq)"
      unfolding busy_vcpu0(3) using n(1) by (subst nth_map) simp_all
    with 2 n show ?thesis by (simp add: registered_local [OF wf_busy_vgic] sgi_handle_def Let_def)
  next
    case 3
    have "find_slot (\<lambda>h. virq h \<noteq> VIRQ_INVALID \<and> virq h = k) (vspis busy_vgic) 0 = None"
      by (simp add: find_slot_None_iff busy_vcpu0(4))
    with 3 show ?thesis by (simp add: registered_spi [OF wf_busy_vgic])
  qed (simp add: registered_negative wf_busy_vgic)
qed

lemma busy_pending: "pending (dist busy_state) k \<longleftrightarrow> 0 \<le> k \<and> k < 5"
  using bank_mask [of 5 k] by (simp add: busy_state_def zero_dist_def mask_eq_exp_minus_1)

lemma irq_inv_busy_state: "irq_inv busy_state"
proof -
  have d: "deref busy_vgic (Some (Local_virq 0 4)) = Ret (sgi_handle 4)"
    using deref_simps(1) [OF wf_busy_vgic, of 4] by (simp add: busy_vcpu0)
  then have f: "flight busy_vgic = [0, 1, 2, 3, 4]"
    by (simp add: flight_def busy_vcpu0 ptr_irq_def List.map_filter_def lr_irq_def sgi_handle_def upt_conv_Cons)
  have "k \<in> set [0, 1, 2, 3, 4] \<longleftrightarrow> 0 \<le> k \<and> k < 5" for k :: int by auto
  then have "set (flight busy_vgic) = {k. pending (dist busy_state) k}" unfolding f busy_pending by blast
  moreover have "wf_dist (dist busy_state)" "mirrored (dist busy_state)"
    using zero_dist_ok by (simp_all add: busy_state_def wf_dist_def mirrored_def NUM_VCPUS_def)
  moreover have "vgic busy_state = busy_vgic" by (simp add: busy_state_def)
  ultimately show ?thesis
    using wf_busy_vgic f d unfolding irq_inv_def
    by (auto simp: registered_busy_vgic busy_vcpu0 good_ptr_def good_handle_def sgi_handle_def has_bit_def split: if_splits)
qed

theorem maintenance_with_waiting_stops_witness:
  "handle_vgic_maintenance Qemu_arm_virt_hyp (demo_kernel zero_ctx (\<lambda>_. 0) Other_label) 0 busy_state = Fault Assert_failed"
proof -
  have "vgic busy_state = busy_vgic" by (simp add: busy_state_def)
  then show ?thesis
    using maintenance_with_waiting_stops [OF irq_inv_busy_state, of "demo_kernel zero_ctx (\<lambda>_. 0) Other_label" Qemu_arm_virt_hyp 0]
    by (simp add: maintained_def busy_vcpu0 sgi_handle_def)
qed

text \<open>The timer interrupt in the first list register.\<close>

lemma timer_in_flight:
  obtains s0 where "vgic_inject_irq Qemu_arm_virt_hyp (demo_kernel zero_ctx (\<lambda>_. 0) Other_label) VCPU_ID 27 timer_state = Ret (True, s0)"
    "irq_inv s0" "lr_shadow (vcpu0 (vgic s0)) ! 0 = timer_handle" "waiting (vgic s0) = []"
proof -
  let ?K = "demo_kernel zero_ctx (\<lambda>_. 0) Other_label" and ?b = Qemu_arm_virt_hyp
  have "free_lr (vgic timer_state) = Some 0"
    by (simp add: free_lr_def timer_lrs eval_nat_numeral)
  from inject_into_list_register [OF irq_inv_timer_state timer_deliverable(1,2) this, of ?K]
    inject_list_register_refines [OF irq_inv_timer_state timer_deliverable(1,2) this, of ?K]
  obtain h q s0 where "registered (vgic timer_state) VCPU_ID 27 = Some h" "queue_list q = []"
    "vgic_inject_irq ?b ?K VCPU_ID 27 timer_state = Ret (True, s0)" "irq_inv s0"
    "vgic s0 = put_vcpu0 (vgic timer_state) ((vcpu0 (vgic timer_state))\<lparr>irq_queue := q,
           lr_shadow := (lr_shadow (vcpu0 (vgic timer_state)))[0 := h]\<rparr>)" by auto
  with that [of s0] show thesis
    by (auto simp: registered_timer_vgic timer_handle_def timer_lrs)
qed

theorem maintenance_completes_witness:
  "\<exists>s0 s'. vgic_inject_irq Qemu_arm_virt_hyp (demo_kernel zero_ctx (\<lambda>_. 0) Other_label) VCPU_ID 27 timer_state = Ret (True, s0) \<and>
     handle_vgic_maintenance Qemu_arm_virt_hyp (demo_kernel zero_ctx (\<lambda>_. 0) Other_label) 0 s0 = Ret (True, s') \<and> irq_inv s' \<and>
     trace s' = trace s0 @ [Ev_AckVPPI VM_ID 27, Ev_Send 4 0 0] \<and>
     handle_vgic_maintenance Qemu_arm_virt_hyp (demo_kernel zero_ctx (\<lambda>_. 0) Other_label) 7 s0 = Fault Assert_failed"
proof (rule timer_in_flight)
  let ?K = "demo_kernel zero_ctx (\<lambda>_. 0) Other_label" and ?b = Qemu_arm_virt_hyp
  fix s0
  assume s0: "vgic_inject_irq ?b ?K VCPU_ID 27 timer_state = Ret (True, s0)" "irq_inv s0"
    "lr_shadow (vcpu0 (vgic s0)) ! 0 = timer_handle" "waiting (vgic s0) = []"
  have m: "maintained ?K s0 = 0" by (simp add: maintained_def)
  have h: "virq timer_handle \<noteq> VIRQ_INVALID" by (simp add: timer_handle_def)
  have c: "if err0 = 0
     then \<exists>s'. handle_vgic_maintenance ?b ?K err0 s0 = Ret (True, s') \<and> irq_inv s' \<and>
       trace s' = trace s0 @ [Ev_AckVPPI VM_ID 27, Ev_Send 4 0 0]
     else handle_vgic_maintenance ?b ?K err0 s0 = Fault Assert_failed" for err0
    using maintenance_completes [OF s0(2), of ?K timer_handle ?b _ err0] s0(3,4) h
    by (auto simp: m ack_events_def timer_handle_def split: if_splits)
  show ?thesis using c [of 0] c [of 7] s0(1) by auto
qed

end
