(* ===== verification/Vgic_V2.thy ===== *)
theory Vgic_V2
  imports Vgic
begin

text \<open>
  \<^verbatim>\<open>vgic_v2.c\<close>: the reset values of the GICv2 distributor and the initialisation of the virtual
  interrupt controller.
\<close>

section \<open>Loops over arrays\<close>

text \<open>The loop \<^verbatim>\<open>for (i = 0; i < n; i++) a[i] = f(a[i])\<close>.\<close>

definition arr_loop :: "nat \<Rightarrow> ('a \<Rightarrow> 'a) \<Rightarrow> 'a list \<Rightarrow> 'a list res" where
  "arr_loop n f a = for_each (\<lambda>i a. arr_mod a (int i) f) [0..<n] a"

text \<open>A sequence of assignments \<^verbatim>\<open>a[i] = v\<close> to constant indices.\<close>

definition arr_assign :: "(nat \<times> 'a) list \<Rightarrow> 'a list \<Rightarrow> 'a list res" where
  "arr_assign ws a = for_each (\<lambda>(i, v) a. arr_mod a (int i) (\<lambda>_. v)) ws a"

lemma arr_loop_in:
  "n \<le> length a \<Longrightarrow> arr_loop n f a = Ret (map f (take n a) @ drop n a)"
proof (induction n)
  case 0
  then show ?case by (simp add: arr_loop_def)
next
  case (Suc n)
  then have "(map f (take n a) @ drop n a) ! n = a ! n" by (simp add: nth_append)
  moreover have "(map f (take n a) @ drop n a)[n := f (a ! n)] = map f (take (Suc n) a) @ drop (Suc n) a"
    using Suc.prems by (simp add: list_update_append take_Suc_conv_app_nth Cons_nth_drop_Suc [symmetric])
  ultimately show ?case using Suc by (simp add: arr_loop_def for_each_append)
qed

lemma arr_loop_all: "arr_loop (length a) f a = Ret (map f a)"
  by (simp add: arr_loop_in)

lemma arr_loop_over:
  assumes "length a < n"
  shows "arr_loop n f a = Fault Out_of_bounds"
proof -
  have "[0..<n] = [0..<length a] @ length a # [Suc (length a)..<n]"
    using assms upt_add_eq_append [of 0 "length a" "n - length a"] upt_conv_Cons [of "length a" n] by simp
  moreover have "for_each (\<lambda>i a. arr_mod a (int i) f) [0..<length a] a = Ret (map f a)"
    using arr_loop_all [of a f] by (simp add: arr_loop_def)
  ultimately show ?thesis by (simp add: arr_loop_def for_each_append arr_mod_out)
qed

lemma arr_assign_simps [simp]:
  "arr_assign [] a = Ret a"
  "arr_assign ((i, v) # ws) a = (if i < length a then arr_assign ws (a[i := v]) else Fault Out_of_bounds)"
  by (simp_all add: arr_assign_def arr_mod_def)

section \<open>Reset\<close>

text \<open>
  \<open>nodes\<close> is \<^verbatim>\<open>CONFIG_MAX_NUM_NODES\<close>, a constant of the seL4 kernel configuration.
\<close>

definition v2_config :: "(nat \<times> u32) list" where
  "v2_config = (0, 0xaaaaaaaa) # (1, 0x55540000) # map (\<lambda>i. (i, 0x55555555)) [2..<16]"

definition v2_dist_reset :: "nat \<Rightarrow> gic_dist_map \<Rightarrow> gic_dist_map res" where
  "v2_dist_reset nodes d =
     bind_res (arr_loop nodes (\<lambda>_. 0x0000ffff) (enable_set0 d)) (\<lambda>es.
     bind_res (arr_loop nodes (\<lambda>_. 0x0000ffff) (enable_clr0 d)) (\<lambda>ec.
     bind_res (arr_assign v2_config (config d)) (\<lambda>cfg.
     bind_res (for_each (\<lambda>i t. bind_res (arr_get t (int i)) (\<lambda>row.
         bind_res (arr_loop 8 (\<lambda>w. fold (\<lambda>irq w. w OR push_bit (irq * 8) (push_bit i 1)) [0..<4] w) row) (\<lambda>row'.
         arr_mod t (int i) (\<lambda>_. row')))) [0..<nodes] (targets0 d)) (\<lambda>t0.
     bind_res (arr_loop 247 (\<lambda>_. 0x1010101) (targets d)) (\<lambda>t.
     bind_res (arr_assign [(4, 0x00000004), (8, 0x00000090), (9, 0x000000b4), (10, 0x0000002b)] (periph_id (dist_v2 d))) (\<lambda>pid.
     bind_res (arr_assign [(0, 0x0000000d), (1, 0x000000f0), (2, 0x00000005), (3, 0x000000b1)] (component_id (dist_v2 d))) (\<lambda>cid.
     Ret (d\<lparr>typer := 0x0000fce7, iidr := 0x0200043b, enable_set0 := es, enable_clr0 := ec, config := cfg,
       targets0 := t0, targets := t, dist_v2 := (dist_v2 d)\<lparr>periph_id := pid, component_id := cid\<rparr>\<rparr>))))))))"

section \<open>Initialisation\<close>

text \<open>The loops that mark all handles as unused, the same in both versions.\<close>

definition vgic_clear_handles :: "vgic_t \<Rightarrow> vgic_t res" where
  "vgic_clear_handles v =
     bind_res (arr_loop 200 (\<lambda>h. h\<lparr>virq := VIRQ_INVALID\<rparr>) (vspis v)) (\<lambda>sp.
     bind_res (arr_get (vgic_vcpu v) (uint VCPU_ID)) (\<lambda>vc.
     bind_res (arr_loop 32 (\<lambda>h. h\<lparr>virq := VIRQ_INVALID\<rparr>) (local_virqs vc)) (\<lambda>lv.
     bind_res (arr_loop 4 (\<lambda>h. h\<lparr>virq := VIRQ_INVALID\<rparr>) (lr_shadow vc)) (\<lambda>lr.
     bind_res (arr_mod (vgic_vcpu v) (uint VCPU_ID) (\<lambda>_. vc\<lparr>local_virqs := lv, lr_shadow := lr\<rparr>)) (\<lambda>vcs.
     Ret (v\<lparr>vspis := sp, vgic_vcpu := vcs\<rparr>))))))"

definition v2_vgic_init :: "nat \<Rightarrow> vmm_state \<Rightarrow> vmm_state res" where
  "v2_vgic_init nodes s =
     bind_res (vgic_clear_handles (vgic s)) (\<lambda>v.
     bind_res (v2_dist_reset nodes (dist s)) (\<lambda>d.
     Ret (s\<lparr>vgic := v, dist := d\<rparr>)))"

section \<open>The state the loader leaves\<close>

definition zero_vgic :: vgic_t where
  "zero_vgic = \<lparr>vspis = replicate 200 \<lparr>virq = 0, ack_fn = None, ack_data = 0\<rparr>,
     vgic_vcpu = [\<lparr>lr_shadow = replicate 4 \<lparr>virq = 0, ack_fn = None, ack_data = 0\<rparr>,
       irq_queue = \<lparr>irqs = replicate 64 None, head = 0, tail = 0\<rparr>,
       local_virqs = replicate 32 \<lparr>virq = 0, ack_fn = None, ack_data = 0\<rparr>\<rparr>]\<rparr>"

definition zero_state :: "(u64 \<Rightarrow> u8) \<Rightarrow> vmm_state" where
  "zero_state m = \<lparr>trace = [], wzr = 0, vgic = zero_vgic, dist = zero_dist, redist = zero_redist, memory = m\<rparr>"

lemma clear_handles_zero: "vgic_clear_handles zero_vgic = Ret empty_vgic"
proof -
  have "arr_loop n f (replicate n x) = Ret (replicate n (f x))" for n f and x :: virq_handle
    using arr_loop_all [of "replicate n x" f] by simp
  then show ?thesis
    by (simp add: vgic_clear_handles_def zero_vgic_def empty_vgic_def no_virq_def VCPU_ID_def)
qed

lemma clear_handles_keeps_queue:
  assumes "vgic_vcpu v = [c]" "length (vspis v) = 200" "length (local_virqs c) = 32" "length (lr_shadow c) = 4"
  shows "vgic_clear_handles v = Ret (v\<lparr>vspis := map (\<lambda>h. h\<lparr>virq := VIRQ_INVALID\<rparr>) (vspis v),
     vgic_vcpu := [c\<lparr>local_virqs := map (\<lambda>h. h\<lparr>virq := VIRQ_INVALID\<rparr>) (local_virqs c),
       lr_shadow := map (\<lambda>h. h\<lparr>virq := VIRQ_INVALID\<rparr>) (lr_shadow c)\<rparr>]\<rparr>)"
  using assms by (simp add: vgic_clear_handles_def arr_loop_in VCPU_ID_def)

text \<open>The distributor after reset, field by field.\<close>

definition v2_dist_boot :: gic_dist_map where
  "v2_dist_boot = zero_dist\<lparr>typer := 0xfce7, iidr := 0x200043b, enable_set0 := [0xffff], enable_clr0 := [0xffff],
     config := [0xaaaaaaaa, 0x55540000] @ replicate 14 0x55555555 @ replicate 48 0,
     targets0 := [replicate 8 0x1010101], targets := replicate 247 0x1010101,
     dist_v2 := (dist_v2 zero_dist)\<lparr>periph_id := [0, 0, 0, 0, 4, 0, 0, 0, 0x90, 0xb4, 0x2b, 0],
       component_id := [0x0d, 0xf0, 0x05, 0xb1]\<rparr>\<rparr>"

lemma replicate_64: "(replicate 64 0 :: u32 list) = replicate 16 0 @ replicate 48 0"
  by (simp add: replicate_add [symmetric])

lemma v2_config_assign: "arr_assign v2_config (replicate 64 0) = Ret ([0xaaaaaaaa, 0x55540000] @ replicate 14 0x55555555 @ replicate 48 0)"
  by (simp add: v2_config_def replicate_64 upt_conv_Cons eval_nat_numeral del: replicate_add)

lemma v2_dist_reset_zero: "v2_dist_reset 1 zero_dist = Ret v2_dist_boot"
proof -
  have all: "arr_loop n f (replicate n x) = Ret (replicate n (f x))" for n f and x :: u32
    using arr_loop_all [of "replicate n x" f] by simp
  have tgt: "for_each (\<lambda>i t. bind_res (arr_get t (int i)) (\<lambda>row.
         bind_res (arr_loop 8 (\<lambda>w. fold (\<lambda>irq w. w OR push_bit (irq * 8) (push_bit i 1)) [0..<4] w) row) (\<lambda>row'.
         arr_mod t (int i) (\<lambda>_. row')))) [0..<1] [replicate 8 (0 :: u32)] = Ret [replicate 8 0x1010101]"
    by (simp add: all upt_conv_Cons)
  have pid: "arr_assign [(4, 4), (8, 0x90), (9, 0xb4), (10, 0x2b)] (replicate 12 (0 :: u32)) =
      Ret [0, 0, 0, 0, 4, 0, 0, 0, 0x90, 0xb4, 0x2b, 0]"
    by (simp add: eval_nat_numeral)
  have cid: "arr_assign [(0, 0x0d), (1, 0xf0), (2, 5), (3, 0xb1)] (replicate 4 (0 :: u32)) = Ret [0x0d, 0xf0, 0x05, 0xb1]"
    by (simp add: eval_nat_numeral)
  have sel: "enable_set0 zero_dist = replicate 1 0" "enable_clr0 zero_dist = replicate 1 0" "config zero_dist = replicate 64 0"
    "targets0 zero_dist = [replicate 8 0]" "targets zero_dist = replicate 247 0"
    "periph_id (dist_v2 zero_dist) = replicate 12 0" "component_id (dist_v2 zero_dist) = replicate 4 0"
    by (simp_all add: zero_dist_def NUM_VCPUS_def)
  have one: "arr_loop 1 (\<lambda>_. 0xffff) (replicate 1 (0 :: u32)) = Ret [0xffff]"
    using all [of 1 "\<lambda>_. 0xffff" 0] by simp
  show ?thesis
    unfolding v2_dist_reset_def sel one bind_res.simps v2_config_assign tgt all pid cid
    by (simp add: v2_dist_boot_def)
qed

section \<open>Properties\<close>

lemma v2_dist_boot_ok:
  "wf_dist v2_dist_boot" "mirrored v2_dist_boot" "wf_dist_v2 (dist_v2 v2_dist_boot)" "\<not> pending v2_dist_boot k"
  "enabled v2_dist_boot k \<longleftrightarrow> 0 \<le> k \<and> k < 16" "ctlr v2_dist_boot = 0"
proof -
  show "enabled v2_dist_boot k \<longleftrightarrow> 0 \<le> k \<and> k < 16"
    using bank_mask [of 16 k] by (simp add: v2_dist_boot_def zero_dist_def mask_eq_exp_minus_1)
  show "\<not> pending v2_dist_boot k" using zero_dist_bits(1) [of k] by (simp add: v2_dist_boot_def)
  show "wf_dist v2_dist_boot" "mirrored v2_dist_boot" "wf_dist_v2 (dist_v2 v2_dist_boot)" "ctlr v2_dist_boot = 0"
    using zero_dist_ok
    by (simp_all add: v2_dist_boot_def wf_dist_def mirrored_def wf_dist_v2_def NUM_VCPUS_def zero_dist_def)
qed

lemma irq_inv_empty:
  assumes "vgic s = empty_vgic" "wf_dist (dist s)" "mirrored (dist s)" "\<And>k. \<not> pending (dist s) k"
  shows "irq_inv s"
proof (rule irq_inv_idle [OF wf_empty_vgic assms(2,3)])
  show "waiting empty_vgic = []" "\<And>h. h \<in> set (lr_shadow (vcpu0 empty_vgic)) \<Longrightarrow> virq h = VIRQ_INVALID"
    by (simp_all add: empty_vgic_def waiting_def vcpu0_def queue_list_def queue_len_def)
qed (use assms registered_empty_vgic in simp_all)

text \<open>
  C29. Initialising the GICv2 controller on a single-node kernel from zeroed memory: it returns
  with no interrupt registered, none pending, exactly the 16 software-generated interrupts
  enabled and the controller off; the invariant of the interrupt state holds.
\<close>

theorem v2_init_state:
  "\<exists>s'. v2_vgic_init 1 (zero_state m) = Ret s' \<and> irq_inv s' \<and> memory s' = m \<and>
     (\<forall>k. enabled (dist s') k \<longleftrightarrow> 0 \<le> k \<and> k < 16) \<and> \<not> vgic_dist_is_enabled Qemu_arm_virt_hyp (dist s') \<and>
     known_irqs (vgic s') = {} \<and> dist_reg_value Qemu_arm_virt_hyp (dist s') VCPU_ID 8 = Ret (Some 0x200043b)"
proof -
  let ?s = "(zero_state m)\<lparr>vgic := empty_vgic, dist := v2_dist_boot\<rparr>"
  have "v2_vgic_init 1 (zero_state m) = Ret ?s"
    by (simp add: v2_vgic_init_def zero_state_def clear_handles_zero v2_dist_reset_zero [unfolded One_nat_def])
  moreover have "irq_inv ?s" by (rule irq_inv_empty) (simp_all add: v2_dist_boot_ok)
  moreover have "dist_reg_value Qemu_arm_virt_hyp v2_dist_boot VCPU_ID 8 = Ret (Some 0x200043b)"
    by (simp add: dist_reg_value_def RANGE32_def v2_dist_boot_def)
  ultimately show ?thesis
    by (simp add: v2_dist_boot_ok vgic_dist_is_enabled_def gic_version_of_def GIC_ENABLED_def known_irqs_def
        registered_empty_vgic zero_state_def)
qed

text \<open>
  The reset loops run to \<^verbatim>\<open>CONFIG_MAX_NUM_NODES\<close> of the kernel, the per-CPU arrays have
  \<^verbatim>\<open>NUM_VCPUS\<close> elements: on a kernel configured for more than one node the initialisation writes
  outside \<^verbatim>\<open>enable_set0\<close>.
\<close>

lemma v2_init_multi_node_overflows:
  assumes "2 \<le> nodes"
  shows "v2_vgic_init nodes (zero_state m) = Fault Out_of_bounds"
proof -
  have "arr_loop nodes (\<lambda>_. 0xffff) (enable_set0 zero_dist) = Fault Out_of_bounds"
    using assms by (intro arr_loop_over) (simp add: zero_dist_def NUM_VCPUS_def)
  then show ?thesis by (simp add: v2_vgic_init_def zero_state_def clear_handles_zero v2_dist_reset_def)
qed

lemma v2_init_multi_node_overflows_witness: "v2_vgic_init 4 (zero_state (\<lambda>_. 0)) = Fault Out_of_bounds"
  by (rule v2_init_multi_node_overflows) simp

end
