(* ===== verification/Vgic_V3.thy ===== *)
theory Vgic_V3
  imports Vgic_V2
begin

text \<open>
  \<^verbatim>\<open>vgic_v3.c\<close>: the emulation of the redistributor, the reset values of the GICv3 registers and the
  initialisation. Only the board \<^verbatim>\<open>imx8mm_evk\<close> has a GICv3.
\<close>

section \<open>The redistributor\<close>

abbreviation (input) GICR_CTLR :: u64 where "GICR_CTLR \<equiv> 0x000"
abbreviation (input) GICR_IIDR :: u64 where "GICR_IIDR \<equiv> 0x004"
abbreviation (input) GICR_TYPER :: u64 where "GICR_TYPER \<equiv> 0x008"
abbreviation (input) GICR_WAKER :: u64 where "GICR_WAKER \<equiv> 0x014"
abbreviation (input) GICR_IGROUPR0 :: u64 where "GICR_IGROUPR0 \<equiv> 0x10080"
abbreviation (input) GICR_ISENABLER0 :: u64 where "GICR_ISENABLER0 \<equiv> 0x10100"
abbreviation (input) GICR_ICENABLER0 :: u64 where "GICR_ICENABLER0 \<equiv> 0x10180"
abbreviation (input) GICR_ICACTIVER0 :: u64 where "GICR_ICACTIVER0 \<equiv> 0x10380"
abbreviation (input) GICR_IPRIORITYR0 :: u64 where "GICR_IPRIORITYR0 \<equiv> 0x10400"
abbreviation (input) GICR_IPRIORITYRN :: u64 where "GICR_IPRIORITYRN \<equiv> 0x1041C"
abbreviation (input) GICR_ICFGR1 :: u64 where "GICR_ICFGR1 \<equiv> 0x10c04"

definition GIC_REDIST_PADDR :: u64 where "GIC_REDIST_PADDR = 0x38880000"
definition GIC_REDIST_SIZE :: u64 where "GIC_REDIST_SIZE = 0xc0000"

text \<open>The \<^verbatim>\<open>switch\<close> of \<^verbatim>\<open>handle_vgic_redist_read_fault\<close>; \<open>None\<close> is the \<^verbatim>\<open>default\<close> case.\<close>

definition redist_reg_value :: "gic_dist_map \<Rightarrow> gic_redist_map \<Rightarrow> u64 \<Rightarrow> u64 \<Rightarrow> u32 option res" where
  "redist_reg_value d r vcpu_id offset =
     (let some = (\<lambda>x. bind_res x (\<lambda>v. Ret (Some v))) in
      if RANGE32 GICR_CTLR GICR_CTLR offset then Ret (Some (r_ctlr r))
      else if RANGE32 GICR_IIDR GICR_IIDR offset then Ret (Some (r_iidr r))
      else if RANGE32 GICR_TYPER GICR_TYPER offset then Ret (Some (ucast (r_typer r)))
      else if RANGE32 GICR_WAKER GICR_WAKER offset then Ret (Some (r_waker r))
      else if RANGE32 0xFFD0 0xFFFC offset then
        some (read_at [pidr4 r, pidr5 r, pidr6 r, pidr7 r, pidr0 r, pidr1 r, pidr2 r, pidr3 r,
                       cidr0 r, cidr1 r, cidr2 r, cidr3 r] (offset - 0xFFD0))
      else if RANGE32 GICR_IGROUPR0 GICR_IGROUPR0 offset then
        some (read_at (irq_group0 d @ irq_group d) (4 * vcpu_id + (offset - GICR_IGROUPR0)))
      else if RANGE32 GICR_ICFGR1 GICR_ICFGR1 offset then
        some (read_at (config d) (4 + (offset - GICR_ICFGR1)))
      else Ret None)"

definition handle_vgic_redist_read_fault ::
    "kernel \<Rightarrow> u64 \<Rightarrow> u64 \<Rightarrow> u64 \<Rightarrow> seL4_UserContext \<Rightarrow> vmm_state \<Rightarrow> (bool \<times> vmm_state) res" where
  "handle_vgic_redist_read_fault K vcpu_id offset fsr regs s =
     bind_res (redist_reg_value (dist s) (redist s) vcpu_id offset) (\<lambda>v.
     bind_res (case v of
         None \<Rightarrow> fault_advance_vcpu K regs s
       | Some reg \<Rightarrow>
           bind_res (fault_get_data_mask (GIC_REDIST_PADDR + offset) fsr) (\<lambda>m.
           let mask = (ucast m :: u32) in
           fault_advance K regs (GIC_REDIST_PADDR + offset) fsr (ucast (reg AND mask)) s)) (\<lambda>(err, s').
     Ret (\<not> err, s')))"

text \<open>The \<^verbatim>\<open>switch\<close> of \<^verbatim>\<open>handle_vgic_redist_write_fault\<close>. The message of the \<^verbatim>\<open>default\<close>
  case reads the operand.\<close>

definition redist_reg_store ::
    "kernel \<Rightarrow> u64 \<Rightarrow> u64 \<Rightarrow> u64 \<Rightarrow> u32 \<Rightarrow> seL4_UserContext \<Rightarrow> vmm_state \<Rightarrow> vmm_state res" where
  "redist_reg_store K vcpu_id offset fsr m regs s =
     (let d = dist s; addr = GIC_REDIST_PADDR + offset;
          get = (\<lambda>f. bind_res (fault_get_data regs fsr s) (\<lambda>data. f (ucast data :: u32)));
          put = (\<lambda>f r. bind_res r (\<lambda>a. Ret (s\<lparr>dist := f a\<rparr>)));
          emu = (\<lambda>a i. emulate_arr_write regs addr fsr a i s)
      in
      if RANGE32 GICR_WAKER GICR_WAKER offset then Ret s
      else if RANGE32 GICR_IGROUPR0 GICR_IGROUPR0 offset then
        put (\<lambda>a. d\<lparr>irq_group0 := a\<rparr>) (emu (irq_group0 d) vcpu_id)
      else if RANGE32 GICR_ISENABLER0 GICR_ISENABLER0 offset then
        get (\<lambda>data. ctz_loop (\<lambda>i. vgic_dist_enable_irq Imx8mm_evk K vcpu_id (int i)) (data AND m) s)
      else if RANGE32 GICR_ICENABLER0 GICR_ICENABLER0 offset then
        get (\<lambda>data. ctz_loop (\<lambda>i s. bind_res (set_enable (dist s) (int i) False (to_c_int vcpu_id))
               (\<lambda>d. Ret (s\<lparr>dist := d\<rparr>))) (data AND m) s)
      else if RANGE32 GICR_ICACTIVER0 GICR_ICACTIVER0 offset then
        put (\<lambda>a. d\<lparr>active0 := a\<rparr>) (emu (active0 d) vcpu_id)
      else if RANGE32 GICR_IPRIORITYR0 GICR_IPRIORITYRN offset then Ret s
      else get (\<lambda>_. Ret s))"

definition handle_vgic_redist_write_fault ::
    "kernel \<Rightarrow> u64 \<Rightarrow> u64 \<Rightarrow> u64 \<Rightarrow> seL4_UserContext \<Rightarrow> vmm_state \<Rightarrow> (bool \<times> vmm_state) res" where
  "handle_vgic_redist_write_fault K vcpu_id offset fsr regs s =
     bind_res (fault_get_data_mask (GIC_REDIST_PADDR + offset) fsr) (\<lambda>m.
     bind_res (redist_reg_store K vcpu_id offset fsr (ucast m) regs s) (\<lambda>s1.
     bind_res (fault_advance_vcpu K regs s1) (\<lambda>(err, s2).
     c_assert (\<not> err) (Ret (\<not> err, s2)))))"

definition handle_vgic_redist_fault ::
    "kernel \<Rightarrow> u64 \<Rightarrow> u64 \<Rightarrow> u64 \<Rightarrow> seL4_UserContext \<Rightarrow> vmm_state \<Rightarrow> (bool \<times> vmm_state) res" where
  "handle_vgic_redist_fault K vcpu_id fault_addr fsr regs s =
     c_assert (fault_addr \<ge> GIC_REDIST_PADDR)
       (let offset = fault_addr - GIC_REDIST_PADDR in
        c_assert (offset < GIC_REDIST_SIZE)
          (if fault_is_read fsr then handle_vgic_redist_read_fault K vcpu_id offset fsr regs s
           else handle_vgic_redist_write_fault K vcpu_id offset fsr regs s))"

section \<open>Reset and initialisation\<close>

definition v3_dist_reset :: "gic_dist_map \<Rightarrow> gic_dist_map res" where
  "v3_dist_reset d =
     bind_res (arr_assign [(0, 0x0000ffff)] (enable_set d)) (\<lambda>es.
     bind_res (arr_assign [(0, 0x0000ffff)] (enable_clr d)) (\<lambda>ec.
     bind_res (arr_assign [(0, 0xaaaaaaaa)] (config d)) (\<lambda>cfg.
     bind_res (arr_assign [(0, 0x44), (4, 0x92), (5, 0xB4), (6, 0x3B)] (pidrn (dist_v3 d))) (\<lambda>pid.
     bind_res (arr_assign [(0, 0x0D), (1, 0xF0), (2, 0x05), (3, 0xB1)] (cidrn (dist_v3 d))) (\<lambda>cid.
     Ret (d\<lparr>typer := 0x7B04B0, iidr := 0x1043B, enable_set := es, enable_clr := ec, config := cfg,
       dist_v3 := (dist_v3 d)\<lparr>pidrn := pid, cidrn := cid\<rparr>\<rparr>))))))"

definition vgic_redist_reset :: "gic_redist_map \<Rightarrow> gic_redist_map" where
  "vgic_redist_reset r = r\<lparr>r_typer := 0x11, r_iidr := 0x1143B, pidr0 := 0x93, pidr1 := 0xB4, pidr2 := 0x3B,
     pidr4 := 0x44, cidr0 := 0x0D, cidr1 := 0xF0, cidr2 := 0x05, cidr3 := 0xB1\<rparr>"

definition v3_vgic_init :: "vmm_state \<Rightarrow> vmm_state res" where
  "v3_vgic_init s =
     bind_res (vgic_clear_handles (vgic s)) (\<lambda>v.
     bind_res (v3_dist_reset (dist s)) (\<lambda>d.
     Ret (s\<lparr>vgic := v, dist := d, redist := vgic_redist_reset (redist s)\<rparr>)))"

definition vgic_init :: "board \<Rightarrow> nat \<Rightarrow> vmm_state \<Rightarrow> vmm_state res" where
  "vgic_init b nodes s = (case gic_version_of b of GIC_V2 \<Rightarrow> v2_vgic_init nodes s | GIC_V3 \<Rightarrow> v3_vgic_init s)"

section \<open>Stores to the enable registers\<close>

lemma for_each_dist:
  "for_each (\<lambda>i s. bind_res (f i (dist s)) (\<lambda>d. Ret (s\<lparr>dist := d\<rparr>))) ks s =
     bind_res (for_each f ks (dist s)) (\<lambda>d. Ret (s\<lparr>dist := d\<rparr>))" for s :: vmm_state
proof (induction ks arbitrary: s)
  case (Cons k ks)
  then show ?case by (cases "f k (dist s)") simp_all
qed simp

lemma for_each_map: "for_each f (map g ks) s = for_each (\<lambda>i. f (g i)) ks s"
proof (induction ks arbitrary: s)
  case (Cons k ks)
  then show ?case by (cases "f (g k) s") simp_all
qed simp

lemma REDIST_aligned: "unat (GIC_REDIST_PADDR + 0x10100) mod 4 = 0" "unat (GIC_REDIST_PADDR + 0x10180) mod 4 = 0"
  by (simp_all add: GIC_REDIST_PADDR_def)

lemma image_int_bits: "int ` set (filter (bit (data :: u32)) [0..<32]) = named_irqs 0 data"
proof (intro equalityI subsetI)
  fix k assume "k \<in> named_irqs 0 data"
  then have "k = int (nat k)" "nat k \<in> set (filter (bit data) [0..<32])" by (auto simp: named_irqs_def)
  then show "k \<in> int ` set (filter (bit data) [0..<32])" by blast
qed (auto simp: named_irqs_def)

lemma redist_write_returns:
  assumes "word_access fsr" and "unat (GIC_REDIST_PADDR + offset) mod 4 = 0" and "regs_calls_succeed K"
    and "redist_reg_store K VCPU_ID offset fsr (- 1) regs s = Ret s1"
  shows "handle_vgic_redist_write_fault K VCPU_ID offset fsr regs s = Ret (True, s1\<lparr>trace := trace s1 @
     [Ev_WriteRegisters VM_ID True (regs\<lparr>pc := pc regs + 4\<rparr>), Ev_Send 4 0 0]\<rparr>)"
  using assms
  by (simp add: handle_vgic_redist_write_fault_def word_access_mask ucast_mask_32 fault_advance_vcpu_eq)

text \<open>
  C28. A word store to the redistributor's set-enable register enables exactly the local interrupts
  whose bits are set and keeps the invariant; the guest moves on and the fault is answered.
\<close>

theorem redist_isenabler_store_enables:
  assumes "irq_inv s" and "card (known_irqs (vgic s)) \<le> 66"
    and "inject_succeeds K" and "ack_succeeds K" and "regs_calls_succeed K" and "word_access fsr"
  shows "\<exists>s' t. handle_vgic_redist_write_fault K VCPU_ID 0x10100 fsr regs s = Ret (True, s') \<and> irq_inv s' \<and>
     (\<forall>k. enabled (dist s') k \<longleftrightarrow> k \<in> named_irqs 0 (ucast (operand regs fsr s)) \<or> enabled (dist s) k) \<and>
     trace s' = t @ [Ev_WriteRegisters VM_ID True (regs\<lparr>pc := pc regs + 4\<rparr>), Ev_Send 4 0 0]"
proof -
  let ?data = "ucast (operand regs fsr s) :: u32"
  have "has_bit (int i)" if "i \<in> set (filter (bit ?data) [0..<32])" for i using that by (auto simp: has_bit_def)
  from enable_all_ok [where b = Imx8mm_evk and f = int and ks = "filter (bit ?data) [0..<32]", OF assms(3,4,1,2) this]
  obtain s1 where s1: "for_each (\<lambda>i. vgic_dist_enable_irq Imx8mm_evk K VCPU_ID (int i)) (filter (bit ?data) [0..<32]) s = Ret s1"
    "irq_inv s1" "enabled (dist s1) = (\<lambda>k. k \<in> named_irqs 0 ?data \<or> enabled (dist s) k)"
    unfolding image_int_bits by blast
  have "redist_reg_store K VCPU_ID 0x10100 fsr (- 1) regs s = Ret s1"
    using assms(6) s1(1)
    by (simp add: redist_reg_store_def RANGE32_def Let_def fault_get_data_eq word_access_def ctz_loop_eq)
  from redist_write_returns [OF assms(6) REDIST_aligned(1) assms(5) this] s1(2,3) show ?thesis by auto
qed

text \<open>
  A word store to the redistributor's clear-enable register disables exactly the local
  interrupts whose bits are set, software-generated ones included, unlike the clear-enable
  registers of the distributor.
\<close>

lemma redist_icenabler_store_disables:
  assumes "irq_inv s" and "regs_calls_succeed K" and "word_access fsr"
  shows "\<exists>s'. handle_vgic_redist_write_fault K VCPU_ID 0x10180 fsr regs s = Ret (True, s') \<and> vgic s' = vgic s \<and>
     wf_dist (dist s') \<and> mirrored (dist s') \<and>
     (\<forall>k. enabled (dist s') k \<longleftrightarrow> enabled (dist s) k \<and> k \<notin> named_irqs 0 (ucast (operand regs fsr s)))"
proof -
  let ?data = "ucast (operand regs fsr s) :: u32"
  let ?ks = "filter (bit ?data) [0..<32]"
  have "has_bit irq" if "irq \<in> set (map int ?ks)" for irq using that by (auto simp: has_bit_def)
  from enable_bits.set_all [where v = False and ks = "map int ?ks", OF _ this, of "dist s"] irq_invD(2,3) [OF assms(1)]
  obtain d where d: "for_each (\<lambda>i d. set_enable d (int i) False 0) ?ks (dist s) = Ret d" "wf_dist d" "mirrored d"
    "enabled d = (\<lambda>k. if k \<in> named_irqs 0 ?data then False else enabled (dist s) k)"
    unfolding for_each_map set_map image_int_bits by auto
  have "for_each (\<lambda>i s. bind_res (set_enable (dist s) (int i) False 0) (\<lambda>d. Ret (s\<lparr>dist := d\<rparr>))) ?ks s = Ret (s\<lparr>dist := d\<rparr>)"
    using for_each_dist [of "\<lambda>i d. set_enable d (int i) False 0" ?ks s] d(1) by simp
  then have "redist_reg_store K VCPU_ID 0x10180 fsr (- 1) regs s = Ret (s\<lparr>dist := d\<rparr>)"
    using assms(3)
    by (simp add: redist_reg_store_def RANGE32_def Let_def fault_get_data_eq word_access_def ctz_loop_eq)
  from redist_write_returns [OF assms(3) REDIST_aligned(2) assms(2) this] d(2-4) show ?thesis by auto
qed

section \<open>The state after initialisation\<close>

definition v3_dist_boot :: gic_dist_map where
  "v3_dist_boot = zero_dist\<lparr>typer := 0x7B04B0, iidr := 0x1043B,
     enable_set := 0xffff # replicate 30 0, enable_clr := 0xffff # replicate 30 0,
     config := 0xaaaaaaaa # replicate 63 0,
     dist_v3 := (dist_v3 zero_dist)\<lparr>pidrn := [0x44, 0, 0, 0, 0x92, 0xB4, 0x3B, 0], cidrn := [0x0D, 0xF0, 0x05, 0xB1]\<rparr>\<rparr>"

lemma v3_dist_reset_zero: "v3_dist_reset zero_dist = Ret v3_dist_boot"
proof -
  have hd: "arr_assign [(0, x)] (replicate (Suc n) 0) = Ret (x # replicate n (0 :: u32))" for x n by simp
  have pid: "arr_assign [(0, 0x44), (4, 0x92), (5, 0xB4), (6, 0x3B)] (replicate 8 (0 :: u32)) =
      Ret [0x44, 0, 0, 0, 0x92, 0xB4, 0x3B, 0]" by (simp add: eval_nat_numeral)
  have cid: "arr_assign [(0, 0x0D), (1, 0xF0), (2, 0x05), (3, 0xB1)] (replicate 4 (0 :: u32)) = Ret [0x0D, 0xF0, 0x05, 0xB1]"
    by (simp add: eval_nat_numeral)
  have sel: "enable_set zero_dist = replicate (Suc 30) 0" "enable_clr zero_dist = replicate (Suc 30) 0"
    "config zero_dist = replicate (Suc 63) 0" "pidrn (dist_v3 zero_dist) = replicate 8 0" "cidrn (dist_v3 zero_dist) = replicate 4 0"
    by (simp_all add: zero_dist_def)
  show ?thesis
    unfolding v3_dist_reset_def sel hd bind_res.simps pid cid by (simp add: v3_dist_boot_def)
qed

lemma v3_dist_boot_ok: "wf_dist v3_dist_boot" "mirrored v3_dist_boot" "\<not> pending v3_dist_boot k" "\<not> enabled v3_dist_boot k"
  "ctlr v3_dist_boot = 0"
proof -
  show "\<not> enabled v3_dist_boot k"
  proof
    assume e: "enabled v3_dist_boot k"
    then have k: "has_bit k" by (simp add: bank_def)
    show False
    proof (cases "k < 32")
      case True
      with e show False by (simp add: bank_def v3_dist_boot_def zero_dist_def NUM_VCPUS_def)
    next
      case False
      then have "1 \<le> k div 32" using zdiv_mono1 [of 32 k 32] by simp
      then obtain j where j: "nat (k div 32) = Suc j" "j < 30"
        using shared_index [OF k] by (cases "nat (k div 32)") auto
      with e False show False by (simp add: bank_def v3_dist_boot_def nth_replicate)
    qed
  qed
  show "\<not> pending v3_dist_boot k" using zero_dist_bits(1) [of k] by (simp add: v3_dist_boot_def)
  show "wf_dist v3_dist_boot" "mirrored v3_dist_boot" "ctlr v3_dist_boot = 0"
    using zero_dist_ok by (simp_all add: v3_dist_boot_def wf_dist_def mirrored_def zero_dist_def)
qed

text \<open>
  C30. Initialising the GICv3 controller from zeroed memory returns with nothing registered, pending
  or enabled: the reset value meant for the software-generated interrupts goes into
  \<^verbatim>\<open>enable_set[0]\<close> instead of \<^verbatim>\<open>enable_set0\<close>, so they are not enabled, while a load of
  \<^verbatim>\<open>ISENABLER1\<close> shows interrupts 32 to 47 as enabled.
\<close>

theorem v3_init_state:
  "\<exists>s'. v3_vgic_init (zero_state m) = Ret s' \<and> irq_inv s' \<and> memory s' = m \<and> known_irqs (vgic s') = {} \<and>
     (\<forall>k. \<not> enabled (dist s') k) \<and>
     dist_reg_value Imx8mm_evk (dist s') VCPU_ID 0x104 = Ret (Some 0xffff) \<and>
     redist_reg_value (dist s') (redist s') VCPU_ID 0x8 = Ret (Some 0x11)"
proof -
  let ?s = "(zero_state m)\<lparr>vgic := empty_vgic, dist := v3_dist_boot, redist := vgic_redist_reset zero_redist\<rparr>"
  have "v3_vgic_init (zero_state m) = Ret ?s"
    by (simp add: v3_vgic_init_def zero_state_def clear_handles_zero v3_dist_reset_zero)
  moreover have "irq_inv ?s" by (rule irq_inv_empty) (simp_all add: v3_dist_boot_ok)
  moreover have "dist_reg_value Imx8mm_evk v3_dist_boot VCPU_ID 0x104 = Ret (Some 0xffff)"
    by (simp add: dist_reg_value_def RANGE32_def GIC_DIST_REGN_def v3_dist_boot_def)
  moreover have "redist_reg_value v3_dist_boot (vgic_redist_reset zero_redist) VCPU_ID 0x8 = Ret (Some 0x11)"
    by (simp add: redist_reg_value_def RANGE32_def vgic_redist_reset_def)
  ultimately show ?thesis by (simp add: v3_dist_boot_ok known_irqs_def registered_empty_vgic zero_state_def)
qed

theorem redist_isenabler_store_enables_witness:
  "\<exists>s'. handle_vgic_redist_write_fault (demo_kernel zero_ctx (\<lambda>_. 0) Other_label) VCPU_ID 0x10100 0x1850040
      (zero_ctx\<lparr>x5 := 0x80000000\<rparr>) timer_state = Ret (True, s') \<and> enabled (dist s') 31"
proof -
  have "31 \<in> named_irqs 0 0x80000000" by (simp add: named_irqs_def)
  with redist_isenabler_store_enables [where K = "demo_kernel zero_ctx (\<lambda>_. 0) Other_label" and fsr = "0x1850040" and
      regs = "zero_ctx\<lparr>x5 := 0x80000000\<rparr>", OF irq_inv_timer_state]
  show ?thesis by (auto simp: timer_deliverable(3) timer_operand)
qed

lemma redist_icenabler_store_disables_witness:
  "\<exists>s'. handle_vgic_redist_write_fault (demo_kernel zero_ctx (\<lambda>_. 0) Other_label) VCPU_ID 0x10180 0x1850040
      (zero_ctx\<lparr>x5 := 1\<rparr>) timer_state = Ret (True, s') \<and> \<not> enabled (dist s') 0"
proof -
  have "0 \<in> named_irqs 0 1" by (simp add: named_irqs_def)
  with redist_icenabler_store_disables [where K = "demo_kernel zero_ctx (\<lambda>_. 0) Other_label" and fsr = "0x1850040" and
      regs = "zero_ctx\<lparr>x5 := 1\<rparr>", OF irq_inv_timer_state]
  show ?thesis by (auto simp: timer_operand)
qed

end
