(* ===== verification/Smc.thy ===== *)
theory Smc
  imports Faults
begin

text \<open>
  \<^verbatim>\<open>smc.c\<close> and \<^verbatim>\<open>psci.c\<close>: the decoding of secure monitor calls and the power-state interface that
  the monitor answers for the guest.
\<close>

section \<open>Call identifiers\<close>

datatype smc_call_id_t =
    SMC_CALL_ARM_ARCH | SMC_CALL_CPU_SERVICE | SMC_CALL_SIP_SERVICE | SMC_CALL_OEM_SERVICE
  | SMC_CALL_STD_SERVICE | SMC_CALL_STD_HYP_SERVICE | SMC_CALL_VENDOR_HYP_SERVICE
  | SMC_CALL_TRUSTED_APP | SMC_CALL_TRUSTED_OS | SMC_CALL_RESERVED

text \<open>The enumerator with the given value; the code returns the number itself.\<close>

definition smc_call_of :: "u64 \<Rightarrow> smc_call_id_t" where
  "smc_call_of v =
     (if v = 0 then SMC_CALL_ARM_ARCH else if v = 1 then SMC_CALL_CPU_SERVICE
      else if v = 2 then SMC_CALL_SIP_SERVICE else if v = 3 then SMC_CALL_OEM_SERVICE
      else if v = 4 then SMC_CALL_STD_SERVICE else if v = 5 then SMC_CALL_STD_HYP_SERVICE
      else SMC_CALL_VENDOR_HYP_SERVICE)"

definition smc_get_call :: "u64 \<Rightarrow> smc_call_id_t res" where
  "smc_get_call func_id =
     (let service = drop_bit 24 func_id AND 0x3F in
      c_assert (service \<ge> 0 \<and> service \<le> 0xFFFF)
       (if service \<le> 6 then Ret (smc_call_of service)
        else if service < 48 then Ret SMC_CALL_RESERVED
        else if service < 50 then Ret SMC_CALL_TRUSTED_APP
        else if service < 64 then Ret SMC_CALL_TRUSTED_OS
        else Ret SMC_CALL_RESERVED))"

definition smc_get_function_number :: "seL4_UserContext \<Rightarrow> u64" where
  "smc_get_function_number regs = x0 regs AND 0xFFFF"

definition smc_set_return_value :: "seL4_UserContext \<Rightarrow> u64 \<Rightarrow> seL4_UserContext" where
  "smc_set_return_value u val = u\<lparr>x0 := val\<rparr>"

definition smc_get_arg :: "seL4_UserContext \<Rightarrow> u64 \<Rightarrow> u64" where
  "smc_get_arg u arg =
     (if arg = 1 then x1 u else if arg = 2 then x2 u else if arg = 3 then x3 u
      else if arg = 4 then x4 u else if arg = 5 then x5 u else if arg = 6 then x6 u else 0)"

definition smc_set_arg :: "seL4_UserContext \<Rightarrow> u64 \<Rightarrow> u64 \<Rightarrow> seL4_UserContext" where
  "smc_set_arg u arg val =
     (if arg = 1 then u\<lparr>x1 := val\<rparr> else if arg = 2 then u\<lparr>x2 := val\<rparr> else if arg = 3 then u\<lparr>x3 := val\<rparr>
      else if arg = 4 then u\<lparr>x4 := val\<rparr> else if arg = 5 then u\<lparr>x5 := val\<rparr>
      else if arg = 6 then u\<lparr>x6 := val\<rparr> else u)"

section \<open>The power-state interface\<close>

text \<open>The return codes, as the 64-bit values the register receives.\<close>

abbreviation (input) PSCI_SUCCESS :: u64 where "PSCI_SUCCESS \<equiv> 0"
abbreviation (input) PSCI_NOT_SUPPORTED :: u64 where "PSCI_NOT_SUPPORTED \<equiv> -1"
abbreviation (input) PSCI_ALREADY_ON :: u64 where "PSCI_ALREADY_ON \<equiv> -4"
abbreviation (input) PSCI_INTERNAL_FAILURE :: u64 where "PSCI_INTERNAL_FAILURE \<equiv> -6"

abbreviation (input) PSCI_VERSION :: u64 where "PSCI_VERSION \<equiv> 0x0"
abbreviation (input) PSCI_CPU_ON :: u64 where "PSCI_CPU_ON \<equiv> 0x3"
abbreviation (input) PSCI_MIGRATE_INFO_TYPE :: u64 where "PSCI_MIGRATE_INFO_TYPE \<equiv> 0x6"
abbreviation (input) PSCI_SYSTEM_RESET :: u64 where "PSCI_SYSTEM_RESET \<equiv> 0x9"
abbreviation (input) PSCI_FEATURES :: u64 where "PSCI_FEATURES \<equiv> 0xa"
abbreviation (input) PSCI_MAX :: u64 where "PSCI_MAX \<equiv> 0x1f"

definition handle_psci ::
    "kernel \<Rightarrow> u64 \<Rightarrow> seL4_UserContext \<Rightarrow> u64 \<Rightarrow> u32 \<Rightarrow> 'a world_scheme \<Rightarrow> (bool \<times> 'a world_scheme) res" where
  "handle_psci K vcpu_id regs fn_number hsr s =
     (let finish = (\<lambda>val.
          bind_res (fault_advance_vcpu K (smc_set_return_value regs val) s) (\<lambda>(err, s').
          c_assert (\<not> err) (Ret (err, s'))))
      in
      if fn_number = PSCI_VERSION then finish 0x00010000
      else if fn_number = PSCI_CPU_ON then
        (let target_cpu = smc_get_arg regs 1 in
         if target_cpu = VCPU_ID then finish PSCI_ALREADY_ON else finish PSCI_INTERNAL_FAILURE)
      else if fn_number = PSCI_MIGRATE_INFO_TYPE then finish 2
      else if fn_number = PSCI_FEATURES then finish PSCI_NOT_SUPPORTED
      else if fn_number = PSCI_SYSTEM_RESET then finish PSCI_SUCCESS
      else Ret (False, s))"

definition handle_smc :: "kernel \<Rightarrow> u32 \<Rightarrow> 'a world_scheme \<Rightarrow> (bool \<times> 'a world_scheme) res" where
  "handle_smc K hsr s =
     (case k_read_registers K (trace s) of (err, regs) \<Rightarrow>
      c_assert (err = seL4_NoError)
       (let fn_number = smc_get_function_number regs in
        bind_res (smc_get_call (x0 regs)) (\<lambda>service.
        case service of
          SMC_CALL_STD_SERVICE \<Rightarrow>
            if fn_number < PSCI_MAX then handle_psci K VCPU_ID regs fn_number hsr s else Ret (False, s)
        | _ \<Rightarrow> Ret (False, s))))"

section \<open>Decoding\<close>

lemma service_bound: "drop_bit 24 x AND 0x3F \<le> (0x3F :: u64)"
  by (rule word_and_le1)

text \<open>The reference: the service ranges of the calling convention.\<close>

definition smc_service :: "nat \<Rightarrow> smc_call_id_t" where
  "smc_service n =
     (if n \<le> 6 then [SMC_CALL_ARM_ARCH, SMC_CALL_CPU_SERVICE, SMC_CALL_SIP_SERVICE, SMC_CALL_OEM_SERVICE,
        SMC_CALL_STD_SERVICE, SMC_CALL_STD_HYP_SERVICE, SMC_CALL_VENDOR_HYP_SERVICE] ! n
      else if 48 \<le> n \<and> n \<le> 49 then SMC_CALL_TRUSTED_APP
      else if 50 \<le> n \<and> n \<le> 63 then SMC_CALL_TRUSTED_OS
      else SMC_CALL_RESERVED)"

lemma smc_get_call_eq: "smc_get_call func_id = Ret (smc_service (unat func_id div 2 ^ 24 mod 64))"
proof -
  let ?s = "drop_bit 24 func_id AND 0x3F :: u64"
  have "?s = take_bit 6 (drop_bit 24 func_id)" by (simp add: take_bit_eq_mask mask_eq_exp_minus_1)
  then have n: "unat ?s = unat func_id div 2 ^ 24 mod 64"
    by (simp add: unat_drop_bit_eq drop_bit_eq_div take_bit_eq_mod unat_mod_distrib unat_div_distrib)
  then have lt: "unat ?s < 64" by simp
  have call: "smc_call_of ?s = smc_service (unat ?s)" if "unat ?s \<le> 6"
  proof -
    from that have "unat ?s = 0 \<or> unat ?s = 1 \<or> unat ?s = 2 \<or> unat ?s = 3 \<or> unat ?s = 4 \<or> unat ?s = 5 \<or> unat ?s = 6" by linarith
    then show ?thesis by (elim disjE) (simp_all add: smc_call_of_def smc_service_def word_unat_eq_iff)
  qed
  show ?thesis
    unfolding n [symmetric] smc_get_call_def Let_def
    using lt call by (auto simp: word_le_nat_alt word_less_nat_alt smc_service_def)
qed

text \<open>
  Decoding the service of a secure monitor call never stops at its assertion: for every function
  identifier it returns the service range that bits 24 to 29 select.
\<close>

lemma smc_get_call_total: "smc_get_call func_id = Ret (smc_service (unat func_id div 2 ^ 24 mod 64))"
  by (rule smc_get_call_eq)

text \<open>
  Setting an argument register of a secure monitor call and reading the arguments back gives
  the new value for that register and the old value for every other argument number; numbers
  outside 1 to 6 are not stored.
\<close>

lemma smc_arg_roundtrip:
  "smc_get_arg (smc_set_arg u i v) j = (if j = i \<and> i \<in> {1, 2, 3, 4, 5, 6} then v else smc_get_arg u j)"
proof (cases "i \<in> {1, 2, 3, 4, 5, 6}")
  case True
  then show ?thesis by (elim insertE) (simp_all add: smc_get_arg_def smc_set_arg_def)
next
  case False
  then have "smc_set_arg u i v = u" by (simp add: smc_set_arg_def)
  with False show ?thesis by simp
qed

section \<open>Power-state calls\<close>

text \<open>The answers, by function number; \<open>None\<close> for the functions the monitor does not know.\<close>

definition psci_value :: "seL4_UserContext \<Rightarrow> nat \<Rightarrow> u64 option" where
  "psci_value regs fn =
     (if fn = 0 then Some 0x10000
      else if fn = 3 then Some (if x1 regs = 0 then - 4 else - 6)
      else if fn = 6 then Some 2
      else if fn = 9 then Some 0
      else if fn = 10 then Some (- 1)
      else None)"

lemma handle_psci_eq:
  assumes "regs_calls_succeed K"
  shows "handle_psci K VCPU_ID regs fn hsr s =
     (case psci_value regs (unat fn) of
        None \<Rightarrow> Ret (False, s)
      | Some v \<Rightarrow> Ret (False, s\<lparr>trace := trace s @
          [Ev_WriteRegisters VM_ID True (regs\<lparr>x0 := v, pc := pc regs + 4\<rparr>), Ev_Send 4 0 0]\<rparr>))"
proof -
  have fn: "fn = 0 \<longleftrightarrow> unat fn = 0" "fn = 3 \<longleftrightarrow> unat fn = 3" "fn = 6 \<longleftrightarrow> unat fn = 6" "fn = 9 \<longleftrightarrow> unat fn = 9"
    "fn = 0xa \<longleftrightarrow> unat fn = 10" by (simp_all add: word_unat_eq_iff)
  show ?thesis
    unfolding handle_psci_def Let_def fn
    by (simp add: psci_value_def fault_advance_vcpu_eq [OF assms] smc_set_return_value_def smc_get_arg_def VCPU_ID_def)
qed

lemma unat_function_number: "unat (smc_get_function_number regs) = unat (x0 regs) mod 65536"
proof -
  have "smc_get_function_number regs = take_bit 16 (x0 regs)"
    by (simp add: smc_get_function_number_def take_bit_eq_mask mask_eq_exp_minus_1)
  then show ?thesis by (simp add: take_bit_eq_mod unat_mod_distrib)
qed

lemma handle_smc_std:
  assumes "regs_calls_succeed K" and "snd (k_read_registers K (trace s)) = regs"
    and "smc_service (unat (x0 regs) div 2 ^ 24 mod 64) = SMC_CALL_STD_SERVICE"
  shows "handle_smc K hsr s =
     (if unat (x0 regs) mod 65536 < 31 then handle_psci K VCPU_ID regs (smc_get_function_number regs) hsr s else Ret (False, s))"
proof -
  have "k_read_registers K (trace s) = (seL4_NoError, regs)"
    using regs_calls_succeedD(1) [OF assms(1), of "trace s"] assms(2) by (metis prod.collapse)
  then show ?thesis
    using assms(3) by (simp add: handle_smc_def smc_get_call_eq word_less_nat_alt unat_function_number Let_def)
qed

text \<open>
  C32. A power-state call of a known function is answered: the guest receives the value of the
  specification in register \<^verbatim>\<open>x0\<close> with its other registers as they were, resumes behind the call
  and the fault is answered once. The handler returns false in this case, the value with which
  it also reports a failure.
\<close>

theorem smc_psci_answered:
  assumes "regs_calls_succeed K" and "snd (k_read_registers K (trace s)) = regs"
    and "unat (x0 regs) div 2 ^ 24 mod 64 = 4" and "psci_value regs (unat (x0 regs) mod 65536) = Some v"
  shows "handle_smc K hsr s = Ret (False, s\<lparr>trace := trace s @
     [Ev_WriteRegisters VM_ID True (regs\<lparr>x0 := v, pc := pc regs + 4\<rparr>), Ev_Send 4 0 0]\<rparr>)"
proof -
  have "unat (x0 regs) mod 65536 < 31" using assms(4) by (auto simp: psci_value_def split: if_splits)
  with assms show ?thesis
    by (simp add: handle_smc_std smc_service_def handle_psci_eq unat_function_number)
qed

theorem smc_psci_answered_witness:
  "handle_smc (demo_kernel (zero_ctx\<lparr>x0 := 0x84000000\<rparr>) (\<lambda>_. 0) Other_label) 0 \<lparr>trace = []\<rparr> = Ret (False, \<lparr>trace =
     [Ev_WriteRegisters VM_ID True (zero_ctx\<lparr>x0 := 0x10000, pc := 4\<rparr>), Ev_Send 4 0 0]\<rparr>)"
  using smc_psci_answered [of "demo_kernel (zero_ctx\<lparr>x0 := 0x84000000\<rparr>) (\<lambda>_. 0) Other_label" "\<lparr>trace = []\<rparr>" _ "0x10000" 0, OF _ refl]
  by (simp add: psci_value_def zero_ctx_def)

text \<open>
  Every other secure monitor call is dropped: nothing is written to the guest and the fault is
  never answered, so the guest's thread stays blocked at the call.
\<close>

lemma smc_unhandled_blocks:
  assumes "regs_calls_succeed K" and "snd (k_read_registers K (trace s)) = regs"
    and "unat (x0 regs) div 2 ^ 24 mod 64 \<noteq> 4 \<or> psci_value regs (unat (x0 regs) mod 65536) = None"
  shows "handle_smc K hsr s = Ret (False, s)"
proof (cases "unat (x0 regs) div 2 ^ 24 mod 64 = 4")
  case True
  with assms(3) have "psci_value regs (unat (x0 regs) mod 65536) = None" by simp
  with True assms(1,2) show ?thesis
    by (simp add: handle_smc_std smc_service_def handle_psci_eq unat_function_number)
next
  case False
  have "smc_service n \<noteq> SMC_CALL_STD_SERVICE" if "n \<noteq> 4" for n
  proof (cases "n \<le> 6")
    case True
    then have "n = 0 \<or> n = 1 \<or> n = 2 \<or> n = 3 \<or> n = 5 \<or> n = 6" using that by linarith
    then show ?thesis by (elim disjE) (simp_all add: smc_service_def)
  qed (simp add: smc_service_def)
  from this [OF False] have ne: "smc_service (unat (x0 regs) div 2 ^ 24 mod 64) \<noteq> SMC_CALL_STD_SERVICE" .
  have "k_read_registers K (trace s) = (seL4_NoError, regs)"
    using regs_calls_succeedD(1) [OF assms(1), of "trace s"] assms(2) by (metis prod.collapse)
  with ne show ?thesis
    by (simp add: handle_smc_def smc_get_call_eq Let_def split: smc_call_id_t.split)
qed

end
