(* ===== verification/Vmm.thy ===== *)
theory Vmm
  imports Vgic_V3 Smc
begin

text \<open>
  \<^verbatim>\<open>vmm.c\<close>: placing the guest's images and starting it, and the dispatch of notifications and of the
  faults that the kernel reports for the guest.
\<close>

section \<open>Fault handlers\<close>

definition GIC_DIST_SIZE :: "board \<Rightarrow> u64" where
  "GIC_DIST_SIZE b = (case b of Imx8mm_evk \<Rightarrow> 0x10000 | _ \<Rightarrow> 0x1000)"

abbreviation (input) SYSCALL_PA_TO_IPA :: u64 where "SYSCALL_PA_TO_IPA \<equiv> 65"
abbreviation (input) SYSCALL_NOP :: u64 where "SYSCALL_NOP \<equiv> 67"

definition HSR_EXCEPTION_CLASS :: "u64 \<Rightarrow> u64" where
  "HSR_EXCEPTION_CLASS hsr = drop_bit 26 (hsr AND scast (push_bit 26 0x3f :: u32))"

definition handle_unknown_syscall :: "kernel \<Rightarrow> vmm_state \<Rightarrow> (bool \<times> vmm_state) res" where
  "handle_unknown_syscall K s =
     (let syscall = k_mr_get K (trace s) seL4_UnknownSyscall_Syscall in
      case k_read_registers K (trace s) of (err, regs) \<Rightarrow>
      c_assert (err = 0)
       (let regs' = regs\<lparr>pc := pc regs + 4\<rparr> in
        if syscall = SYSCALL_PA_TO_IPA \<or> syscall = SYSCALL_NOP then
          (let err' = k_write_registers K (trace s) False regs';
               s1 = emit (Ev_WriteRegisters VM_ID False regs') s
           in c_assert (err' = 0) (Ret (True, s1)))
        else Ret (False, s)))"

definition handle_vppi_event :: "board \<Rightarrow> kernel \<Rightarrow> vmm_state \<Rightarrow> (bool \<times> vmm_state) res" where
  "handle_vppi_event b K s =
     (let ppi_irq = k_mr_get K (trace s) seL4_VPPIEvent_IRQ in
      bind_res (vgic_inject_irq b K VCPU_ID (to_c_int ppi_irq) s) (\<lambda>(success, s1).
      if \<not> success then
        (let ack_err = k_ack_vppi K (trace s1) ppi_irq;
             s2 = emit (Ev_AckVPPI VM_ID ppi_irq) s1
         in c_assert (ack_err = seL4_NoError) (Ret (True, reply_to_fault s2)))
      else Ret (True, reply_to_fault s1)))"

definition handle_vcpu_fault :: "kernel \<Rightarrow> vmm_state \<Rightarrow> (bool \<times> vmm_state) res" where
  "handle_vcpu_fault K s =
     (let hsr = k_mr_get K (trace s) seL4_VCPUFault_HSR;
          hsr_ec_class = HSR_EXCEPTION_CLASS hsr
      in if hsr_ec_class = 0x17 then handle_smc K (ucast hsr) s
         else if hsr_ec_class = 0x1 then Ret (True, reply_to_fault s)
         else Ret (False, s))"

definition handle_user_exception :: "kernel \<Rightarrow> vmm_state \<Rightarrow> (bool \<times> vmm_state) res" where
  "handle_user_exception K s =
     (case k_read_registers K (trace s) of (ret, regs) \<Rightarrow>
      if ret \<noteq> seL4_NoError then Ret (False, s) else Ret (True, s))"

definition handle_vm_fault :: "board \<Rightarrow> kernel \<Rightarrow> vmm_state \<Rightarrow> (bool \<times> vmm_state) res" where
  "handle_vm_fault b K s =
     (let addr = k_mr_get K (trace s) seL4_VMFault_Addr;
          fsr = k_mr_get K (trace s) seL4_VMFault_FSR
      in case k_read_registers K (trace s) of (err, regs) \<Rightarrow>
      c_assert (err = seL4_NoError)
       (let page = addr AND NOT (0x1000 - 1) in
        if GIC_DIST_PADDR b \<le> page \<and> page \<le> GIC_DIST_PADDR b + GIC_DIST_SIZE b
        then handle_vgic_dist_fault b K VCPU_ID addr fsr regs s
        else if gic_version_of b = GIC_V3 \<and> GIC_REDIST_PADDR \<le> page \<and> page \<le> GIC_REDIST_PADDR + GIC_REDIST_SIZE
        then handle_vgic_redist_fault K VCPU_ID addr fsr regs s
        else Fault Assert_failed))"

section \<open>Entry points\<close>

definition notified :: "board \<Rightarrow> kernel \<Rightarrow> u64 \<Rightarrow> vmm_state \<Rightarrow> vmm_state res" where
  "notified b K ch s =
     (if ch = SERIAL_IRQ_CH
      then bind_res (vgic_inject_irq b K VCPU_ID (SERIAL_IRQ b) s) (\<lambda>(_, s1). Ret s1)
      else Ret s)"

text \<open>The results of the handlers are not looked at; \<open>err0\<close> is the uninitialised local of the
  maintenance handler.\<close>

definition fault :: "board \<Rightarrow> kernel \<Rightarrow> int \<Rightarrow> u64 \<Rightarrow> u64 \<Rightarrow> vmm_state \<Rightarrow> vmm_state res" where
  "fault b K err0 vm msginfo s =
     (let done = (\<lambda>r. bind_res r (\<lambda>(_, s'). Ret s')) in
      case k_msginfo_label K msginfo of
        seL4_Fault_VMFault \<Rightarrow> done (handle_vm_fault b K s)
      | seL4_Fault_UnknownSyscall \<Rightarrow> done (handle_unknown_syscall K s)
      | seL4_Fault_UserException \<Rightarrow> done (handle_user_exception K s)
      | seL4_Fault_VGICMaintenance \<Rightarrow> done (handle_vgic_maintenance b K err0 s)
      | seL4_Fault_VCPUFault \<Rightarrow> done (handle_vcpu_fault K s)
      | seL4_Fault_VPPIEvent \<Rightarrow> done (handle_vppi_event b K s)
      | Other_label l \<Rightarrow> Ret (emit (Ev_VmStop vm) s))"

section \<open>Starting the guest\<close>

text \<open>The loop of \<^verbatim>\<open>memcpy\<close>, on the bytes of the monitor's address space.\<close>

fun memcpy :: "(u64 \<Rightarrow> u8) \<Rightarrow> u64 \<Rightarrow> u64 \<Rightarrow> nat \<Rightarrow> (u64 \<Rightarrow> u8)" where
  "memcpy mem d s 0 = mem"
| "memcpy mem d s (Suc n) = memcpy (mem(d := mem s)) (d + 1) (s + 1) n"

text \<open>
  The symbols the linker and the Core Platform provide: where the images lie in the monitor and
  where the guest's RAM is mapped. The macro \<^verbatim>\<open>GUEST_INIT_RAM_DISK_VADDR\<close> is defined for
  one board only, \<^verbatim>\<open>0x4d700000\<close> for \<^verbatim>\<open>qemu_arm_virt_hyp\<close>, and is a field here.
\<close>

record guest_layout =
  guest_kernel_image :: u64
  guest_kernel_image_end :: u64
  guest_dtb_image :: u64
  guest_dtb_image_end :: u64
  guest_initrd_image :: u64
  guest_initrd_image_end :: u64
  guest_ram_vaddr :: u64
  GUEST_INIT_RAM_DISK_VADDR :: u64

definition GUEST_DTB_VADDR :: "board \<Rightarrow> u64" where
  "GUEST_DTB_VADDR b = (case b of Odroidc2 \<Rightarrow> 0x2f000000 | _ \<Rightarrow> 0x4f000000)"

definition copy_images :: "board \<Rightarrow> guest_layout \<Rightarrow> (u64 \<Rightarrow> u8) \<Rightarrow> (u64 \<Rightarrow> u8)" where
  "copy_images b L mem =
     (let kernel_image_size = guest_kernel_image_end L - guest_kernel_image L;
          mem1 = memcpy mem (guest_ram_vaddr L + 0x80000) (guest_kernel_image L) (unat kernel_image_size);
          dtb_image_size = guest_dtb_image_end L - guest_dtb_image L;
          mem2 = memcpy mem1 (GUEST_DTB_VADDR b) (guest_dtb_image L) (unat dtb_image_size);
          initrd_image_size = guest_initrd_image_end L - guest_initrd_image L
      in memcpy mem2 (GUEST_INIT_RAM_DISK_VADDR L) (guest_initrd_image L) (unat initrd_image_size))"

abbreviation (input) SGI_RESCHEDULE_IRQ :: int where "SGI_RESCHEDULE_IRQ \<equiv> 0"
abbreviation (input) SGI_FUNC_CALL :: int where "SGI_FUNC_CALL \<equiv> 1"
abbreviation (input) PPI_VTIMER_IRQ :: int where "PPI_VTIMER_IRQ \<equiv> 27"

definition start_guest :: "board \<Rightarrow> kernel \<Rightarrow> guest_layout \<Rightarrow> vmm_state \<Rightarrow> vmm_state res" where
  "start_guest b K L s =
     (let s1 = emit (Ev_IrqAck SERIAL_IRQ_CH) s;
          regs = zero_ctx\<lparr>x0 := GUEST_DTB_VADDR b, spsr := 5, pc := guest_ram_vaddr L + 0x80000\<rparr>;
          err = (k_write_registers K (trace s1) False regs \<noteq> 0);
          s2 = emit (Ev_WriteRegisters VM_ID False regs) s1
      in c_assert (\<not> err) (Ret (emit (Ev_VmRestart VM_ID (pc regs)) s2)))"

definition init :: "board \<Rightarrow> nat \<Rightarrow> kernel \<Rightarrow> guest_layout \<Rightarrow> vmm_state \<Rightarrow> vmm_state res" where
  "init b nodes K L s =
     bind_res (vgic_init b nodes (s\<lparr>memory := copy_images b L (memory s)\<rparr>)) (\<lambda>s1.
     bind_res (vgic_register_irq VCPU_ID PPI_VTIMER_IRQ (Some Vppi_event_ack) 0 s1) (\<lambda>(ok, s2).
     if \<not> ok then Ret s2
     else bind_res (vgic_register_irq VCPU_ID SGI_RESCHEDULE_IRQ (Some Sgi_ack) 0 s2) (\<lambda>(ok, s3).
     if \<not> ok then Ret s3
     else bind_res (vgic_register_irq VCPU_ID SGI_FUNC_CALL (Some Sgi_ack) 0 s3) (\<lambda>(ok, s4).
     if \<not> ok then Ret s4
     else bind_res (vgic_register_irq VCPU_ID (SERIAL_IRQ b) (Some Serial_ack) 0 s4) (\<lambda>(_, s5).
     start_guest b K L s5)))))"

section \<open>Copying\<close>

text \<open>\<open>n\<close> bytes from \<open>a\<close> on.\<close>

definition region :: "u64 \<Rightarrow> nat \<Rightarrow> u64 set" where
  "region a n = (\<lambda>i. a + of_nat i) ` {..<n}"

lemma region_Suc: "region a (Suc n) = insert a (region (a + 1) n)"
proof -
  have "region a (Suc n) = insert a ((\<lambda>i. a + of_nat (Suc i)) ` {..<n})"
    unfolding region_def lessThan_Suc_eq_insert_0 by (auto simp: image_iff)
  then show ?thesis by (simp add: region_def add.assoc)
qed

lemma memcpy_eq:
  "n \<le> 2 ^ 64 \<Longrightarrow> region d n \<inter> region s n = {} \<Longrightarrow>
   memcpy mem d s n = (\<lambda>a. if a \<in> region d n then mem (s + (a - d)) else mem a)"
proof (induction n arbitrary: mem d s)
  case 0
  then show ?case by (simp add: region_def)
next
  case (Suc n)
  have dis: "region (d + 1) n \<inter> region (s + 1) n = {}" "d \<notin> region s (Suc n)" "d \<noteq> s"
    using Suc.prems(2) unfolding region_Suc by auto
  have new: "d \<notin> region (d + 1) n"
  proof
    assume "d \<in> region (d + 1) n"
    then obtain i where i: "i < n" "(of_nat (Suc i) :: u64) = 0" by (auto simp: region_def add.assoc)
    then have "(2 :: nat) ^ 64 dvd Suc i" using word_of_nat_eq_0_iff [of "Suc i", where 'a = 64] by simp
    then have "2 ^ 64 \<le> Suc i" by (rule dvd_imp_le) simp
    with i(1) Suc.prems(1) show False by simp
  qed
  have "memcpy mem d s (Suc n) = (\<lambda>a. if a \<in> region (d + 1) n then (mem(d := mem s)) (s + 1 + (a - (d + 1))) else (mem(d := mem s)) a)"
    unfolding memcpy.simps using Suc.prems(1) by (intro Suc.IH dis(1)) simp
  also have "\<dots> = (\<lambda>a. if a \<in> region d (Suc n) then mem (s + (a - d)) else mem a)"
  proof
    fix a
    have "s + (a - d) \<noteq> d" if "a \<in> region (d + 1) n"
    proof -
      from that obtain i where "i < n" "a = d + 1 + of_nat i" by (auto simp: region_def)
      then have "s + (a - d) = s + of_nat (Suc i)" "s + of_nat (Suc i) \<in> region s (Suc n)"
        unfolding region_def by (simp, intro imageI) simp
      with dis(2) show ?thesis by metis
    qed
    then show "(if a \<in> region (d + 1) n then (mem(d := mem s)) (s + 1 + (a - (d + 1))) else (mem(d := mem s)) a) =
        (if a \<in> region d (Suc n) then mem (s + (a - d)) else mem a)"
      using new unfolding region_Suc by auto
  qed
  finally show ?case .
qed


section \<open>Registering interrupts\<close>

text \<open>A handle that is in use stays where it is.\<close>

lemma virq_add_keeps:
  assumes wf: "wf_vgic v" and irq: "0 \<le> virq h" and add: "virq_add VCPU_ID v h = Ret (True, v')"
  shows "lr_shadow (vcpu0 v') = lr_shadow (vcpu0 v)" "waiting v' = waiting v"
    "deref v p = Ret g \<Longrightarrow> virq g \<noteq> VIRQ_INVALID \<Longrightarrow> deref v' p = Ret g"
proof -
  obtain c where c: "vgic_vcpu v = [c]"
    using wf by (cases "vgic_vcpu v") (auto simp: wf_vgic_def NUM_VCPUS_def)
  have "lr_shadow (vcpu0 v') = lr_shadow (vcpu0 v) \<and> waiting v' = waiting v \<and>
    (deref v p = Ret g \<and> virq g \<noteq> VIRQ_INVALID \<longrightarrow> deref v' p = Ret g)"
  proof (cases "virq h < 32")
    case True
    with add irq wf c have "virq (local_virqs c ! nat (virq h)) = VIRQ_INVALID"
      "v' = v\<lparr>vgic_vcpu := [c\<lparr>local_virqs := (local_virqs c)[nat (virq h) := h]\<rparr>]\<rparr>"
      by (auto simp: virq_add_def virq_sgi_ppi_add_def vcpu0_def put_vcpu0_def Let_def split: if_splits)
    moreover have "(local_virqs c)[nat (virq h) := h] ! i = local_virqs c ! i"
      if "virq (local_virqs c ! nat (virq h)) = VIRQ_INVALID" "virq (local_virqs c ! i) \<noteq> VIRQ_INVALID" for i
      using that by (cases "i = nat (virq h)") auto
    ultimately show ?thesis
      using c by (auto simp: vcpu0_def waiting_def deref_def arr_get_eq_Ret split: option.splits handle_slot.splits)
  next
    case False
    with add obtain i where "find_slot (\<lambda>h. virq h = VIRQ_INVALID) (vspis v) 0 = Some i" "v' = v\<lparr>vspis := (vspis v)[i := h]\<rparr>"
      by (auto simp: virq_add_def virq_spi_add_def split: option.splits)
    then show ?thesis
      by (auto simp: vcpu0_def waiting_def deref_def arr_get_eq_Ret nth_list_update dest: find_slot_SomeD
          split: option.splits handle_slot.splits)
  qed
  then show "lr_shadow (vcpu0 v') = lr_shadow (vcpu0 v)" "waiting v' = waiting v"
    "deref v p = Ret g \<Longrightarrow> virq g \<noteq> VIRQ_INVALID \<Longrightarrow> deref v' p = Ret g" by simp_all
qed

lemma irq_inv_add:
  assumes inv: "irq_inv s" and irq: "has_bit (virq h)" "ack_fn h \<noteq> None" and add: "virq_add VCPU_ID (vgic s) h = Ret (True, v')"
    and new: "wf_vgic v'" "registered (vgic s) VCPU_ID (virq h) = None" "registered v' VCPU_ID = (registered (vgic s) VCPU_ID)(virq h \<mapsto> h)"
  shows "irq_inv (s\<lparr>vgic := v'\<rparr>)"
proof -
  note D = irq_invD [OF inv]
  have "0 \<le> virq h" using irq(1) by (simp add: has_bit_def)
  note keep = virq_add_keeps [OF D(1) this add]
  have good: "good_handle v' g" if "good_handle (vgic s) g" for g
    using that new(2,3) by (auto simp: good_handle_def)
  have p: "good_ptr v' p \<and> ptr_irq v' p = ptr_irq (vgic s) p" if "p \<in> set (waiting (vgic s))" for p
  proof -
    from D(6) [OF that] obtain g where g: "deref (vgic s) p = Ret g" "good_handle (vgic s) g"
      by (auto simp: good_ptr_def split: res.splits)
    then have "virq g \<noteq> VIRQ_INVALID" using registered_virq [OF D(1)] unfolding good_handle_def by fastforce
    with keep(3) [OF g(1)] g good show ?thesis by (simp add: good_ptr_def ptr_irq_def)
  qed
  then have "flight v' = flight (vgic s)" by (simp add: flight_def keep(1,2))
  moreover have "virq g = VIRQ_INVALID \<or> good_handle v' g" if "g \<in> set (lr_shadow (vcpu0 v'))" for g
    using D(5) that good keep(1) by metis
  ultimately show ?thesis using D(2-4,7-9) new irq p keep(1,2) by (auto simp: irq_inv_def)
qed

lemma register_fresh:
  assumes inv: "irq_inv s" and irq: "has_bit irq" "registered (vgic s) VCPU_ID irq = None" and room: "spi_free (vgic s) \<noteq> 0"
  shows "\<exists>v. vgic_register_irq VCPU_ID irq (Some f) x s = Ret (True, s\<lparr>vgic := v\<rparr>) \<and> irq_inv (s\<lparr>vgic := v\<rparr>) \<and>
     registered v VCPU_ID = (registered (vgic s) VCPU_ID)(irq \<mapsto> \<lparr>virq = irq, ack_fn = Some f, ack_data = x\<rparr>) \<and>
     waiting v = waiting (vgic s) \<and> spi_free (vgic s) \<le> Suc (spi_free v)"
proof -
  let ?h = "\<lparr>virq = irq, ack_fn = Some f, ack_data = x\<rparr>"
  note wf = irq_invD(1) [OF inv]
  have nn: "0 \<le> virq ?h" using irq(1) by (simp add: has_bit_def)
  from virq_table.add_fresh [OF wf nn _ room] irq(2) obtain v where
    v: "virq_add VCPU_ID (vgic s) ?h = Ret (True, v)" "wf_vgic v"
      "registered v VCPU_ID = (registered (vgic s) VCPU_ID)(virq ?h \<mapsto> ?h)" "spi_free (vgic s) \<le> Suc (spi_free v)" by auto
  have "irq_inv (s\<lparr>vgic := v\<rparr>)" by (rule irq_inv_add [OF inv _ _ v(1,2) _ v(3)]) (use irq in simp_all)
  with v nn virq_add_keeps(2) [OF wf nn v(1)] show ?thesis by (auto simp: vgic_register_irq_def)
qed

section \<open>Booting\<close>

text \<open>The interrupts that \<^verbatim>\<open>init\<close> registers.\<close>

definition boot_table :: "board \<Rightarrow> int \<rightharpoonup> virq_handle" where
  "boot_table b = [27 \<mapsto> \<lparr>virq = 27, ack_fn = Some Vppi_event_ack, ack_data = 0\<rparr>,
     0 \<mapsto> \<lparr>virq = 0, ack_fn = Some Sgi_ack, ack_data = 0\<rparr>, 1 \<mapsto> \<lparr>virq = 1, ack_fn = Some Sgi_ack, ack_data = 0\<rparr>,
     SERIAL_IRQ b \<mapsto> \<lparr>virq = SERIAL_IRQ b, ack_fn = Some Serial_ack, ack_data = 0\<rparr>]"

lemma SERIAL_IRQ_bounds: "32 < SERIAL_IRQ b" "SERIAL_IRQ b < 992"
  by (cases b; simp add: SERIAL_IRQ_def)+

lemma dom_boot_table: "dom (boot_table b) = {27, 0, 1, SERIAL_IRQ b}"
  by (auto simp: boot_table_def)

lemma vgic_init_zero:
  "\<exists>d r. vgic_init b 1 (zero_state m) = Ret ((zero_state m)\<lparr>vgic := empty_vgic, dist := d, redist := r\<rparr>) \<and>
     wf_dist d \<and> mirrored d \<and> (\<forall>k. \<not> pending d k)"
proof (cases "gic_version_of b")
  case GIC_V2
  then have "vgic_init b 1 (zero_state m) =
      Ret ((zero_state m)\<lparr>vgic := empty_vgic, dist := v2_dist_boot, redist := zero_redist\<rparr>)"
    by (simp add: vgic_init_def v2_vgic_init_def zero_state_def clear_handles_zero v2_dist_reset_zero [unfolded One_nat_def])
  then show ?thesis using v2_dist_boot_ok by blast
next
  case GIC_V3
  then have "vgic_init b 1 (zero_state m) =
      Ret ((zero_state m)\<lparr>vgic := empty_vgic, dist := v3_dist_boot, redist := vgic_redist_reset zero_redist\<rparr>)"
    by (simp add: vgic_init_def v3_vgic_init_def zero_state_def clear_handles_zero v3_dist_reset_zero)
  then show ?thesis using v3_dist_boot_ok by blast
qed

lemma zero_state_memory: "(zero_state m)\<lparr>memory := m'\<rparr> = zero_state m'" "memory (zero_state m) = m"
  by (simp_all add: zero_state_def)

lemma init_registers:
  "\<exists>s. init b 1 K L (zero_state m) = start_guest b K L s \<and> irq_inv s \<and> registered (vgic s) VCPU_ID = boot_table b \<and>
     waiting (vgic s) = [] \<and> trace s = [] \<and> memory s = copy_images b L m"
proof -
  let ?m = "copy_images b L m"
  from vgic_init_zero [of b ?m] obtain d r where
    i: "vgic_init b 1 (zero_state ?m) = Ret ((zero_state ?m)\<lparr>vgic := empty_vgic, dist := d, redist := r\<rparr>)"
      "wf_dist d" "mirrored d" "\<And>k. \<not> pending d k" by blast
  let ?s = "(zero_state ?m)\<lparr>vgic := empty_vgic, dist := d, redist := r\<rparr>"
  have inv: "irq_inv ?s" by (rule irq_inv_empty) (simp_all add: i)
  have w: "waiting empty_vgic = []" by (simp add: empty_vgic_def waiting_def vcpu0_def queue_list_def queue_len_def)
  note n = registered_empty_vgic spi_free_empty_vgic has_bit_def
  from register_fresh [OF inv, of 27 Vppi_event_ack 0] obtain v1 where
    v1: "vgic_register_irq VCPU_ID 27 (Some Vppi_event_ack) 0 ?s = Ret (True, ?s\<lparr>vgic := v1\<rparr>)" "irq_inv (?s\<lparr>vgic := v1\<rparr>)"
      "registered v1 VCPU_ID = (registered empty_vgic VCPU_ID)(27 \<mapsto> \<lparr>virq = 27, ack_fn = Some Vppi_event_ack, ack_data = 0\<rparr>)"
      "waiting v1 = []" "199 \<le> spi_free v1" by (auto simp: n w)
  from register_fresh [OF v1(2), of 0 Sgi_ack 0] v1(3-5) obtain v2 where
    v2: "vgic_register_irq VCPU_ID 0 (Some Sgi_ack) 0 (?s\<lparr>vgic := v1\<rparr>) = Ret (True, ?s\<lparr>vgic := v2\<rparr>)" "irq_inv (?s\<lparr>vgic := v2\<rparr>)"
      "registered v2 VCPU_ID = (registered v1 VCPU_ID)(0 \<mapsto> \<lparr>virq = 0, ack_fn = Some Sgi_ack, ack_data = 0\<rparr>)"
      "waiting v2 = []" "198 \<le> spi_free v2" by (auto simp: n)
  from register_fresh [OF v2(2), of 1 Sgi_ack 0] v1(3) v2(3-5) obtain v3 where
    v3: "vgic_register_irq VCPU_ID 1 (Some Sgi_ack) 0 (?s\<lparr>vgic := v2\<rparr>) = Ret (True, ?s\<lparr>vgic := v3\<rparr>)" "irq_inv (?s\<lparr>vgic := v3\<rparr>)"
      "registered v3 VCPU_ID = (registered v2 VCPU_ID)(1 \<mapsto> \<lparr>virq = 1, ack_fn = Some Sgi_ack, ack_data = 0\<rparr>)"
      "waiting v3 = []" "197 \<le> spi_free v3" by (auto simp: n)
  from register_fresh [OF v3(2), of "SERIAL_IRQ b" Serial_ack 0] v1(3) v2(3) v3(3-5) SERIAL_IRQ_bounds [of b] obtain v4 where
    v4: "vgic_register_irq VCPU_ID (SERIAL_IRQ b) (Some Serial_ack) 0 (?s\<lparr>vgic := v3\<rparr>) = Ret (True, ?s\<lparr>vgic := v4\<rparr>)"
      "irq_inv (?s\<lparr>vgic := v4\<rparr>)"
      "registered v4 VCPU_ID = (registered v3 VCPU_ID)(SERIAL_IRQ b \<mapsto> \<lparr>virq = SERIAL_IRQ b, ack_fn = Some Serial_ack, ack_data = 0\<rparr>)"
      "waiting v4 = []" by (auto simp: n)
  have "registered v4 VCPU_ID = boot_table b"
    using v1(3) v2(3) v3(3) v4(3) registered_empty_vgic by (auto simp: boot_table_def fun_eq_iff)
  moreover have "init b 1 K L (zero_state m) = start_guest b K L (?s\<lparr>vgic := v4\<rparr>)"
    unfolding init_def zero_state_memory i(1) bind_res.simps v1(1) v2(1) v3(1) v4(1) prod.case by simp
  ultimately show ?thesis
    using v4(2,4) by (intro exI [of _ "?s\<lparr>vgic := v4\<rparr>"]) (simp add: zero_state_def)
qed

lemma start_guest_eq:
  assumes "regs_calls_succeed K"
  shows "start_guest b K L s = Ret (s\<lparr>trace := trace s @ [Ev_IrqAck SERIAL_IRQ_CH,
      Ev_WriteRegisters VM_ID False (zero_ctx\<lparr>x0 := GUEST_DTB_VADDR b, spsr := 5, pc := guest_ram_vaddr L + 0x80000\<rparr>),
      Ev_VmRestart VM_ID (guest_ram_vaddr L + 0x80000)]\<rparr>)"
  using regs_calls_succeedD(2) [OF assms] by (simp add: start_guest_def seL4_NoError_def emit_def Let_def)

text \<open>
  C7. The monitor boots from zeroed memory on a single-node kernel: \<^verbatim>\<open>init\<close> returns with exactly
  the virtual timer, two software-generated interrupts and the serial line registered, each with
  its acknowledge function, the invariant of the interrupt state established, the images copied,
  and the guest started once, after its registers are set to the kernel entry point, the device
  tree in \<^verbatim>\<open>x0\<close> and the mode EL1h.
\<close>

theorem init_boots_guest:
  assumes "regs_calls_succeed K"
  shows "\<exists>s. init b 1 K L (zero_state m) = Ret s \<and> irq_inv s \<and> registered (vgic s) VCPU_ID = boot_table b \<and>
     memory s = copy_images b L m \<and>
     trace s = [Ev_IrqAck SERIAL_IRQ_CH,
       Ev_WriteRegisters VM_ID False (zero_ctx\<lparr>x0 := GUEST_DTB_VADDR b, spsr := 5, pc := guest_ram_vaddr L + 0x80000\<rparr>),
       Ev_VmRestart VM_ID (guest_ram_vaddr L + 0x80000)]"
proof -
  from init_registers [of b K L m] obtain s where
    "init b 1 K L (zero_state m) = start_guest b K L s" "irq_inv s" "registered (vgic s) VCPU_ID = boot_table b"
    "trace s = []" "memory s = copy_images b L m" by blast
  then show ?thesis by (simp add: start_guest_eq [OF assms])
qed

definition demo_layout :: guest_layout where
  "demo_layout = \<lparr>guest_kernel_image = 0x1000, guest_kernel_image_end = 0x1002, guest_dtb_image = 0x2000,
     guest_dtb_image_end = 0x2001, guest_initrd_image = 0x3000, guest_initrd_image_end = 0x3001,
     guest_ram_vaddr = 0x40000000, GUEST_INIT_RAM_DISK_VADDR = 0x4d700000\<rparr>"

theorem init_boots_guest_witness:
  "\<exists>s. init Qemu_arm_virt_hyp 1 (demo_kernel zero_ctx (\<lambda>_. 0) Other_label) demo_layout (zero_state (\<lambda>_. 0)) = Ret s \<and>
     last (trace s) = Ev_VmRestart 1 0x40080000"
  using init_boots_guest [of "demo_kernel zero_ctx (\<lambda>_. 0) Other_label" Qemu_arm_virt_hyp demo_layout "\<lambda>_. 0"]
  by (auto simp: demo_layout_def VM_ID_def)

section \<open>Where the images lie\<close>

abbreviation kernel_size :: "guest_layout \<Rightarrow> nat" where
  "kernel_size L \<equiv> unat (guest_kernel_image_end L - guest_kernel_image L)"

abbreviation dtb_size :: "guest_layout \<Rightarrow> nat" where
  "dtb_size L \<equiv> unat (guest_dtb_image_end L - guest_dtb_image L)"

abbreviation initrd_size :: "guest_layout \<Rightarrow> nat" where
  "initrd_size L \<equiv> unat (guest_initrd_image_end L - guest_initrd_image L)"

text \<open>The copies do not overlap each other or the images they are made from.\<close>

definition layout_ok :: "board \<Rightarrow> guest_layout \<Rightarrow> bool" where
  "layout_ok b L \<longleftrightarrow>
     (let k = region (guest_ram_vaddr L + 0x80000) (kernel_size L); t = region (GUEST_DTB_VADDR b) (dtb_size L);
          r = region (GUEST_INIT_RAM_DISK_VADDR L) (initrd_size L);
          images = region (guest_kernel_image L) (kernel_size L) \<union> region (guest_dtb_image L) (dtb_size L) \<union>
            region (guest_initrd_image L) (initrd_size L)
      in k \<inter> t = {} \<and> k \<inter> r = {} \<and> t \<inter> r = {} \<and> (k \<union> t \<union> r) \<inter> images = {})"

lemma region_mem: "i < n \<Longrightarrow> a + of_nat i \<in> region a n"
  by (auto simp: region_def)

lemma region_small: "region a (Suc 0) = {a}" "region a 2 = {a, a + 1}"
  by (auto simp: region_def numeral_2_eq_2 lessThan_Suc)

lemma memcpy_at:
  fixes n :: u64
  assumes "region d (unat n) \<inter> region s (unat n) = {}"
  shows "i < unat n \<Longrightarrow> memcpy mem d s (unat n) (d + of_nat i) = mem (s + of_nat i)"
    "a \<notin> region d (unat n) \<Longrightarrow> memcpy mem d s (unat n) a = mem a"
proof -
  have "unat n < 2 ^ LENGTH(64)" by (rule unsigned_less)
  then have "unat n \<le> 2 ^ 64" by simp
  note eq = memcpy_eq [OF this assms]
  show "i < unat n \<Longrightarrow> memcpy mem d s (unat n) (d + of_nat i) = mem (s + of_nat i)" by (simp add: eq region_mem)
  show "a \<notin> region d (unat n) \<Longrightarrow> memcpy mem d s (unat n) a = mem a" by (simp add: eq)
qed

text \<open>
  C31. The images are placed: when the copies overlap neither each other nor the images, the kernel,
  the device tree and the initial RAM disk lie byte for byte at their destinations, and no other
  byte of the address space has changed.
\<close>

theorem images_placed:
  assumes "layout_ok b L"
  shows "(i < kernel_size L \<longrightarrow>
       copy_images b L m (guest_ram_vaddr L + 0x80000 + of_nat i) = m (guest_kernel_image L + of_nat i)) \<and>
     (i < dtb_size L \<longrightarrow> copy_images b L m (GUEST_DTB_VADDR b + of_nat i) = m (guest_dtb_image L + of_nat i)) \<and>
     (i < initrd_size L \<longrightarrow>
       copy_images b L m (GUEST_INIT_RAM_DISK_VADDR L + of_nat i) = m (guest_initrd_image L + of_nat i)) \<and>
     (a \<notin> region (guest_ram_vaddr L + 0x80000) (kernel_size L) \<longrightarrow> a \<notin> region (GUEST_DTB_VADDR b) (dtb_size L) \<longrightarrow>
       a \<notin> region (GUEST_INIT_RAM_DISK_VADDR L) (initrd_size L) \<longrightarrow> copy_images b L m a = m a)"
proof -
  have dis: "region (guest_ram_vaddr L + 0x80000) (kernel_size L) \<inter> region (guest_kernel_image L) (kernel_size L) = {}"
    "region (GUEST_DTB_VADDR b) (dtb_size L) \<inter> region (guest_dtb_image L) (dtb_size L) = {}"
    "region (GUEST_INIT_RAM_DISK_VADDR L) (initrd_size L) \<inter> region (guest_initrd_image L) (initrd_size L) = {}"
    using assms by (auto simp: layout_ok_def Let_def)
  note at = memcpy_at [OF dis(1)] memcpy_at [OF dis(2)] memcpy_at [OF dis(3)]
  have apart: "guest_ram_vaddr L + 0x80000 + of_nat i \<notin> region (GUEST_DTB_VADDR b) (dtb_size L)"
    "guest_ram_vaddr L + 0x80000 + of_nat i \<notin> region (GUEST_INIT_RAM_DISK_VADDR L) (initrd_size L)" if "i < kernel_size L"
    using assms region_mem [OF that, of "guest_ram_vaddr L + 0x80000"] by (auto simp: layout_ok_def Let_def)
  have apart_t: "GUEST_DTB_VADDR b + of_nat i \<notin> region (GUEST_INIT_RAM_DISK_VADDR L) (initrd_size L)"
    "guest_dtb_image L + of_nat i \<notin> region (guest_ram_vaddr L + 0x80000) (kernel_size L)" if "i < dtb_size L"
    using assms region_mem [OF that, of "GUEST_DTB_VADDR b"] region_mem [OF that, of "guest_dtb_image L"]
    by (auto simp: layout_ok_def Let_def)
  have apart_r: "guest_initrd_image L + of_nat i \<notin> region (guest_ram_vaddr L + 0x80000) (kernel_size L)"
    "guest_initrd_image L + of_nat i \<notin> region (GUEST_DTB_VADDR b) (dtb_size L)" if "i < initrd_size L"
    using assms region_mem [OF that, of "guest_initrd_image L"] by (auto simp: layout_ok_def Let_def)
  show ?thesis
    using apart apart_t apart_r by (simp add: copy_images_def at)
qed

theorem images_placed_witness:
  "copy_images Qemu_arm_virt_hyp demo_layout (\<lambda>a. if a = 0x1001 then 7 else 0) 0x40080001 = 7"
proof -
  have "layout_ok Qemu_arm_virt_hyp demo_layout"
    by (simp add: layout_ok_def demo_layout_def region_small GUEST_DTB_VADDR_def Let_def)
  from images_placed [OF this, of 1 "\<lambda>a. if a = 0x1001 then 7 else 0"] show ?thesis
    by (simp add: demo_layout_def)
qed

section \<open>Timer events\<close>

lemma inject_trace:
  assumes inv: "irq_inv s" and irq: "has_bit irq" and slot: "irq < 32 \<or> registered (vgic s) VCPU_ID irq \<noteq> None"
    and K: "inject_succeeds K" and few: "card (known_irqs (vgic s)) \<le> 66"
    and run: "vgic_inject_irq b K VCPU_ID irq s = Ret (r, s')"
  shows "if r then trace s' = trace s \<or> (\<exists>i. trace s' = trace s @ [Ev_InjectIRQ VM_ID irq 0 (irq_inject_group b) (int i)]) else s' = s"
proof (cases "deliverable b irq s")
  case False
  with inject_not_deliverable [OF inv irq False slot, of K] run show ?thesis by simp
next
  case True
  consider "pending (dist s) irq" | i where "\<not> pending (dist s) irq" "free_lr (vgic s) = Some i"
    | "\<not> pending (dist s) irq" "free_lr (vgic s) = None" by (cases "free_lr (vgic s)") auto
  then show ?thesis
  proof cases
    case 1
    with inject_already_pending [OF inv True, of K] run show ?thesis by simp
  next
    case 2
    with inject_into_list_register [OF inv True 2 K] run show ?thesis by auto
  next
    case 3
    with inject_into_queue [OF inv True 3 waiting_room [OF inv few], of K] run show ?thesis by auto
  qed
qed

text \<open>
  C12. A virtual timer event is never lost silently and is answered once: the interrupt goes to the
  controller exactly as the abstract injection says; if that refuses it, the event is acknowledged
  to the kernel so that it is unmasked; the fault is answered last, and once.
\<close>

theorem vppi_event_answered:
  assumes "irq_inv s" and "inject_succeeds K" and "ack_succeeds K" and "card (known_irqs (vgic s)) \<le> 66"
    and "k_mr_get K (trace s) seL4_VPPIEvent_IRQ = of_nat n" and "n < 32"
  shows "\<exists>s' t. handle_vppi_event b K s = Ret (True, s') \<and> irq_inv s' \<and>
     irq_abs_of b s' = snd (a_inject (int n) (irq_abs_of b s)) \<and> trace s' = trace s @ t @ [Ev_Send 4 0 0] \<and>
     (if fst (a_inject (int n) (irq_abs_of b s))
      then t = [] \<or> (\<exists>i. t = [Ev_InjectIRQ VM_ID (int n) 0 (irq_inject_group b) (int i)])
      else t = [Ev_AckVPPI VM_ID (of_nat n)])"
proof -
  have bit: "has_bit (int n)" "int n < 32" using assms(6) by (simp_all add: has_bit_def)
  have "unat (of_nat n :: u64) = n" using assms(6) by (simp add: unat_of_nat)
  then have n: "to_c_int (of_nat n) = int n" using to_c_int_small [of "of_nat n"] assms(6) by simp
  let ?r = "fst (a_inject (int n) (irq_abs_of b s))"
  from inject_refines [OF assms(1) bit(1) disjI1 assms(2) waiting_room [OF assms(1,4)]] bit(2) obtain s1 where
    s1: "vgic_inject_irq b K VCPU_ID (int n) s = Ret (?r, s1)" "irq_inv s1" "irq_abs_of b s1 = snd (a_inject (int n) (irq_abs_of b s))"
    by blast
  note tr = inject_trace [OF assms(1) bit(1) disjI1 [OF bit(2)] assms(2,4) s1(1)]
  have ack: "k_ack_vppi K t k = seL4_NoError" for t k using assms(3) by (simp add: ack_succeeds_def)
  let ?s2 = "if ?r then s1 else emit (Ev_AckVPPI VM_ID (of_nat n)) s1"
  have "handle_vppi_event b K s = Ret (True, reply_to_fault ?s2)"
    using s1(1) ack by (simp add: handle_vppi_event_def assms(5) n Let_def)
  moreover have "irq_inv (reply_to_fault ?s2)" using s1(2) by (simp add: reply_to_fault_def)
  moreover have "irq_abs_of b (reply_to_fault ?s2) = irq_abs_of b s1"
    by (simp add: irq_abs_of_def reply_to_fault_def emit_def)
  ultimately show ?thesis using s1(3) tr by (auto split: if_splits)
qed

theorem vppi_event_answered_witness:
  "\<exists>s' t. handle_vppi_event Qemu_arm_virt_hyp (demo_kernel zero_ctx (\<lambda>_. 26) Other_label) timer_state = Ret (True, s') \<and>
     trace s' = t @ [Ev_Send 4 0 0] \<and> irq_inv s'"
  using vppi_event_answered [OF irq_inv_timer_state, of "demo_kernel zero_ctx (\<lambda>_. 26) Other_label" 26 Qemu_arm_virt_hyp]
  by (fastforce simp: timer_deliverable(3))

section \<open>Data aborts\<close>

lemma beyond_distributor:
  assumes "gic_version_of b = GIC_V2" and "0x1000 \<le> offset"
  shows "dist_reg_value b d vcpu_id offset = Ret None"
proof -
  have "\<not> RANGE32 x y offset" if "y \<le> 0xFFB" for x y
  proof -
    have "unat y \<le> 0xFFB" "0x1000 \<le> unat offset" using that assms(2) by (simp_all add: word_le_nat_alt)
    then show ?thesis by (simp add: RANGE32_nat)
  qed
  then show ?thesis using assms(1) by (simp add: dist_reg_value_def)
qed

text \<open>
  C40. The case range of \<^verbatim>\<open>handle_vm_fault\<close> includes its upper end, so one page too many counts as the
  distributor. On the GICv2 boards a load from the page right behind the distributor is taken for
  a load of an unknown register, in the default case of the switch: apart from an error message,
  which the model of the handlers leaves out, the guest is only moved past the instruction with its
  registers as they were and the fault is answered, where every page after that stops the monitor.
\<close>

theorem vm_fault_one_page_too_many:
  assumes "b \<noteq> Imx8mm_evk" and "regs_calls_succeed K"
    and "page = k_mr_get K (trace s) seL4_VMFault_Addr AND NOT (0x1000 - 1)" and "GIC_DIST_PADDR b + GIC_DIST_SIZE b \<le> page"
    and "fault_is_read (k_mr_get K (trace s) seL4_VMFault_FSR)"
  shows "handle_vm_fault b K s =
    (if page = GIC_DIST_PADDR b + GIC_DIST_SIZE b then
       (let regs = snd (k_read_registers K (trace s)) in
        Ret (True, s\<lparr>trace := trace s @ [Ev_WriteRegisters VM_ID True (regs\<lparr>pc := pc regs + 4\<rparr>), Ev_Send 4 0 0]\<rparr>))
     else Fault Assert_failed)"
proof -
  let ?addr = "k_mr_get K (trace s) seL4_VMFault_Addr" and ?top = "GIC_DIST_PADDR b + GIC_DIST_SIZE b"
  have v2: "gic_version_of b = GIC_V2" using assms(1) by (cases b) (simp_all add: gic_version_of_def)
  have P: "GIC_DIST_PADDR b \<le> ?top" "GIC_DIST_SIZE b = 0x1000" "unat (GIC_DIST_PADDR b) + 0x1000 = unat ?top"
    using assms(1) by (cases b; simp add: GIC_DIST_PADDR_def GIC_DIST_SIZE_def)+
  have "page \<le> ?addr" unfolding assms(3) by (rule word_and_le2)
  then have addr: "?top \<le> ?addr" using assms(4) by (rule order_trans [rotated])
  then have ge: "GIC_DIST_PADDR b \<le> ?addr" using P(1) by (rule order_trans [rotated])
  have "0x1000 \<le> ?addr - GIC_DIST_PADDR b"
    using addr P(3) ge by (simp add: word_le_nat_alt unat_sub)
  note out = beyond_distributor [OF v2 this]
  obtain regs where regs: "k_read_registers K (trace s) = (seL4_NoError, regs)"
    using regs_calls_succeedD(1) [OF assms(2), of "trace s"] by (cases "k_read_registers K (trace s)") simp
  have "page \<le> ?top \<longleftrightarrow> page = ?top" using assms(4) by auto
  moreover have "GIC_DIST_PADDR b \<le> page" using P(1) assms(4) by (rule order_trans)
  ultimately have "handle_vm_fault b K s = (if page = ?top
      then handle_vgic_dist_fault b K VCPU_ID ?addr (k_mr_get K (trace s) seL4_VMFault_FSR) regs s else Fault Assert_failed)"
    unfolding handle_vm_fault_def Let_def regs prod.case assms(3) [symmetric] using v2 by simp
  moreover have "handle_vgic_dist_fault b K VCPU_ID ?addr (k_mr_get K (trace s) seL4_VMFault_FSR) regs s =
      Ret (True, s\<lparr>trace := trace s @ [Ev_WriteRegisters VM_ID True (regs\<lparr>pc := pc regs + 4\<rparr>), Ev_Send 4 0 0]\<rparr>)"
    using ge assms(5) by (simp add: handle_vgic_dist_fault_def vgic_dist_reg_read_def out fault_advance_vcpu_eq [OF assms(2)])
  ultimately show ?thesis by (simp add: regs)
qed

theorem vm_fault_one_page_too_many_witness:
  "handle_vm_fault Qemu_arm_virt_hyp (demo_kernel zero_ctx (\<lambda>r. if r = seL4_VMFault_Addr then 0x8001010 else 0x1850000) Other_label) timer_state =
     Ret (True, timer_state\<lparr>trace := [Ev_WriteRegisters VM_ID True (zero_ctx\<lparr>pc := pc zero_ctx + 4\<rparr>), Ev_Send 4 0 0]\<rparr>)"
  by (subst vm_fault_one_page_too_many [where page = "0x8001000"])
    (simp_all add: GIC_DIST_PADDR_def GIC_DIST_SIZE_def fault_is_read_def fault_is_write_def)

end
