(* ===== verification/Handlers.thy ===== *)
theory Handlers imports Vmm begin

text \<open>
  What the handlers keep, whatever it is: a property of the state that the operations on one
  interrupt, on one register and on the trace keep is kept by every handler that returns. The
  locale \<open>handlers\<close> names these operations; its lemmas follow the handlers from the register
  switches of \<^verbatim>\<open>vdist.h\<close> and \<^verbatim>\<open>vgic_v3.c\<close> up to the entry points of \<^verbatim>\<open>vmm.c\<close>. The one register class left out
  are the clear-pending registers.
\<close>

section \<open>Results that keep a property\<close>

definition keeps :: "('a \<Rightarrow> 's) \<Rightarrow> ('s \<Rightarrow> bool) \<Rightarrow> 'a res \<Rightarrow> bool" where
  "keeps f P r \<longleftrightarrow> (\<forall>x. r = Ret x \<longrightarrow> P (f x))"

lemma keeps_Ret: "P (f x) \<Longrightarrow> keeps f P (Ret x)"
  and keeps_Fault: "keeps f P (Fault e)"
  and keeps_assert: "(c \<Longrightarrow> keeps f P r) \<Longrightarrow> keeps f P (c_assert c r)"
  and keeps_bind: "(\<And>y. m = Ret y \<Longrightarrow> keeps f P (g y)) \<Longrightarrow> keeps f P (bind_res m g)"
  and keeps_if: "(c \<Longrightarrow> keeps f P r1) \<Longrightarrow> (\<not> c \<Longrightarrow> keeps f P r2) \<Longrightarrow> keeps f P (if c then r1 else r2)"
  and keepsD: "keeps f P r \<Longrightarrow> r = Ret x \<Longrightarrow> P (f x)"
  by (auto simp: keeps_def)

lemma keeps_simps [simp]: "keeps f P (Ret x) = P (f x)" "keeps f P (Fault e)"
  by (simp_all add: keeps_def)

lemmas keeps_intros = keeps_Ret keeps_Fault keeps_assert keeps_bind keeps_if

lemma keeps_for_each:
  assumes "\<And>x s. x \<in> set xs \<Longrightarrow> P s \<Longrightarrow> keeps (\<lambda>s. s) P (f x s)" and "P s"
  shows "keeps (\<lambda>s. s) P (for_each f xs s)"
  using assms
proof (induction xs arbitrary: s)
  case Nil
  then show ?case by (simp add: keeps_Ret)
next
  case (Cons x xs)
  have "keeps (\<lambda>s. s) P (f x s)" using Cons.prems(2) by (intro Cons.prems(1)) simp_all
  then show ?case
    using Cons.prems(1) by (auto intro!: keeps_bind Cons.IH dest: keepsD)
qed

lemma ctz_loop_keeps:
  assumes "\<And>i s. i < 32 \<Longrightarrow> P s \<Longrightarrow> keeps (\<lambda>s. s) P (body i s)" and "P s"
  shows "keeps (\<lambda>s. s) P (ctz_loop body data s)"
  unfolding ctz_loop_eq using assms by (intro keeps_for_each) auto

lemma keeps_not_err: "keeps snd P r \<Longrightarrow> keeps snd P (bind_res r (\<lambda>(err, s'). Ret (\<not> err, s')))"
  and keeps_forget: "keeps snd P r \<Longrightarrow> keeps (\<lambda>s. s) P (bind_res r (\<lambda>(_, s'). Ret s'))"
  by (auto simp: keeps_def)

text \<open>The interrupt that a bit of a stored word stands for, in a register class of the page.\<close>

lemma reg_irq_value:
  assumes "RANGE32 base stop offset" "unat stop < 0x10000" "i < 32"
  shows "reg_irq offset base i = int (i + 8 * (unat offset - unat base))"
proof -
  have le: "base \<le> offset" "unat offset < 0x10003" using assms(1,2) by (simp_all add: RANGE32_nat word_le_nat_alt)
  then have d: "unat (offset - base) = unat offset - unat base" by (simp add: unat_sub)
  with le(2) have small: "unat (offset - base) < 0x10003" by simp
  let ?w = "of_nat i + (offset - base) * 8"
  have "unat ((offset - base) * 8) = unat (offset - base) * 8" using small by (subst unat_mult_lem [THEN iffD1]) simp_all
  moreover have "unat (of_nat i :: u64) = i" using assms(3) by (simp add: unat_of_nat)
  moreover have "unat (of_nat i :: u64) + unat ((offset - base) * 8) < 2 ^ 64" using calculation small assms(3) by simp
  ultimately have w: "unat ?w = i + unat (offset - base) * 8" by (subst unat_add_lem [THEN iffD1]) simp_all
  then have "unat ?w < 2147483648" using small assms(3) by simp
  then show ?thesis unfolding reg_irq_def by (subst to_c_int_small) (simp_all only: w d mult.commute)
qed

lemma reg_irq_nonneg:
  assumes "RANGE32 base stop offset" and "unat stop < 0x10000" and "i < 32"
  shows "0 \<le> reg_irq offset base i"
  by (simp add: reg_irq_value [OF assms])

lemma emulate_arr_write_length: "emulate_arr_write regs addr fsr a i s = Ret a' \<Longrightarrow> length a' = length a"
  by (auto simp: emulate_arr_write_def arr_mod_eq_Ret)

text \<open>A data abort that stores to the clear-pending registers of the distributor.\<close>

definition icpendr_store :: "board \<Rightarrow> kernel \<Rightarrow> u64 \<Rightarrow> vmm_state \<Rightarrow> bool" where
  "icpendr_store b K msginfo s \<longleftrightarrow> k_msginfo_label K msginfo = seL4_Fault_VMFault \<and>
     \<not> fault_is_read (k_mr_get K (trace s) seL4_VMFault_FSR) \<and>
     RANGE32 GIC_DIST_ICPENDR0 GIC_DIST_ICPENDRN (k_mr_get K (trace s) seL4_VMFault_Addr - GIC_DIST_PADDR b)"

section \<open>The handlers\<close>

locale handlers =
  fixes b :: board and K :: kernel and P :: "vmm_state \<Rightarrow> bool"
  assumes P_trace: "P s \<Longrightarrow> P (s\<lparr>trace := t\<rparr>)" and P_wzr: "P s \<Longrightarrow> P (s\<lparr>wzr := w\<rparr>)"
    and P_group0: "P s \<Longrightarrow> length a = length (irq_group0 (dist s)) \<Longrightarrow> P (s\<lparr>dist := dist s\<lparr>irq_group0 := a\<rparr>\<rparr>)"
    and P_group: "P s \<Longrightarrow> length a = length (irq_group (dist s)) \<Longrightarrow> P (s\<lparr>dist := dist s\<lparr>irq_group := a\<rparr>\<rparr>)"
    and P_active0: "P s \<Longrightarrow> length a = length (active0 (dist s)) \<Longrightarrow> P (s\<lparr>dist := dist s\<lparr>active0 := a\<rparr>\<rparr>)"
    and P_active: "P s \<Longrightarrow> length a = length (active (dist s)) \<Longrightarrow> P (s\<lparr>dist := dist s\<lparr>active := a\<rparr>\<rparr>)"
    and P_active_clr0: "P s \<Longrightarrow> length a = length (active_clr0 (dist s)) \<Longrightarrow> P (s\<lparr>dist := dist s\<lparr>active_clr0 := a\<rparr>\<rparr>)"
    and P_active_clr: "P s \<Longrightarrow> length a = length (active_clr (dist s)) \<Longrightarrow> P (s\<lparr>dist := dist s\<lparr>active_clr := a\<rparr>\<rparr>)"
    and P_on: "P s \<Longrightarrow> P (s\<lparr>dist := vgic_dist_enable b (dist s)\<rparr>)"
    and P_off: "P s \<Longrightarrow> P (s\<lparr>dist := vgic_dist_disable b (dist s)\<rparr>)"
    and P_inject: "P s \<Longrightarrow> keeps snd P (vgic_inject_irq b K VCPU_ID irq s)"
    and P_enable: "P s \<Longrightarrow> 0 \<le> irq \<Longrightarrow> keeps (\<lambda>s. s) P (vgic_dist_enable_irq b K VCPU_ID irq s)"
    and P_clear: "P s \<Longrightarrow> 0 \<le> irq \<Longrightarrow>
      keeps (\<lambda>s. s) P (bind_res (set_enable (dist s) irq False (to_c_int VCPU_ID)) (\<lambda>d. Ret (s\<lparr>dist := d\<rparr>)))"
    and P_maintenance: "P s \<Longrightarrow> keeps snd P (handle_vgic_maintenance b K err0 s)"
begin

lemma P_emit: "P s \<Longrightarrow> P (emit e s)" and P_reply: "P s \<Longrightarrow> P (reply_to_fault s)"
  using P_trace [of s] by (simp_all add: emit_def reply_to_fault_def)

lemma disable_keeps: "P s \<Longrightarrow> 0 \<le> irq \<Longrightarrow> keeps (\<lambda>s. s) P (vgic_dist_disable_irq VCPU_ID irq s)"
  using P_clear [of s irq] by (auto simp: vgic_dist_disable_irq_def)

lemma set_pending_keeps:
  "P s \<Longrightarrow> keeps (\<lambda>s. s) P (bind_res (vgic_dist_set_pending_irq b K VCPU_ID irq s) (\<lambda>(_, s'). Ret s'))"
  using P_inject [of s irq] by (auto simp: vgic_inject_irq_def keeps_def)

lemma sgir_keeps: "P s \<Longrightarrow> keeps (\<lambda>s. s) P (sgir_write b K data s)"
  using P_inject [of s "uint (data AND 0xF)"] by (auto simp: sgir_write_def keeps_def Let_def)

text \<open>Registers that hold neither enable nor pending bits.\<close>

lemma plain_register_keeps:
  assumes "P s"
  shows "keeps (\<lambda>s. s) P (bind_res (emulate_arr_write regs addr fsr (irq_group0 (dist s)) i s)
      (\<lambda>a. Ret (s\<lparr>dist := dist s\<lparr>irq_group0 := a\<rparr>\<rparr>)))"
    "keeps (\<lambda>s. s) P (bind_res (emulate_arr_write regs addr fsr (irq_group (dist s)) i s)
      (\<lambda>a. Ret (s\<lparr>dist := dist s\<lparr>irq_group := a\<rparr>\<rparr>)))"
    "keeps (\<lambda>s. s) P (bind_res (emulate_arr_write regs addr fsr (active0 (dist s)) i s)
      (\<lambda>a. Ret (s\<lparr>dist := dist s\<lparr>active0 := a\<rparr>\<rparr>)))"
    "keeps (\<lambda>s. s) P (bind_res (emulate_arr_write regs addr fsr (active (dist s)) i s)
      (\<lambda>a. Ret (s\<lparr>dist := dist s\<lparr>active := a\<rparr>\<rparr>)))"
    "keeps (\<lambda>s. s) P (bind_res (emulate_arr_write regs addr fsr (active_clr0 (dist s)) i s)
      (\<lambda>a. Ret (s\<lparr>dist := dist s\<lparr>active_clr0 := a\<rparr>\<rparr>)))"
    "keeps (\<lambda>s. s) P (bind_res (emulate_arr_write regs addr fsr (active_clr (dist s)) i s)
      (\<lambda>a. Ret (s\<lparr>dist := dist s\<lparr>active_clr := a\<rparr>\<rparr>)))"
  using assms P_group0 P_group P_active0 P_active P_active_clr0 P_active_clr
  by (intro keeps_intros; simp add: emulate_arr_write_length)+

lemma dist_reg_store_keeps:
  assumes s: "P s" and ok: "\<not> RANGE32 GIC_DIST_ICPENDR0 GIC_DIST_ICPENDRN offset"
  shows "keeps (\<lambda>s. s) P (dist_reg_store b K VCPU_ID offset fsr m regs s)"
proof -
  let ?get = "\<lambda>f. bind_res (fault_get_data regs fsr s) (\<lambda>data. f (ucast data :: u32))"
  have en: "keeps (\<lambda>s. s) P (?get (\<lambda>data. ctz_loop (\<lambda>i. vgic_dist_enable_irq b K VCPU_ID
      (reg_irq offset GIC_DIST_ISENABLER0 i)) (data AND m) s))"
    if "RANGE32 GIC_DIST_ISENABLER0 GIC_DIST_ISENABLERN offset"
    by (intro keeps_bind ctz_loop_keeps [where P = P, OF _ s] P_enable reg_irq_nonneg [OF that]) simp_all
  have dis: "keeps (\<lambda>s. s) P (?get (\<lambda>data. ctz_loop (\<lambda>i. vgic_dist_disable_irq VCPU_ID
      (reg_irq offset GIC_DIST_ICENABLER0 i)) (data AND m) s))"
    if "RANGE32 GIC_DIST_ICENABLER0 GIC_DIST_ICENABLERN offset"
    by (intro keeps_bind ctz_loop_keeps [where P = P, OF _ s] disable_keeps reg_irq_nonneg [OF that]) simp_all
  have pend: "keeps (\<lambda>s. s) P (?get (\<lambda>data. ctz_loop (\<lambda>i s. bind_res
      (vgic_dist_set_pending_irq b K VCPU_ID (reg_irq offset GIC_DIST_ISPENDR0 i) s) (\<lambda>(_, s'). Ret s')) (data AND m) s))"
    by (intro keeps_bind ctz_loop_keeps [where P = P, OF _ s] set_pending_keeps)
  have ctl: "keeps (\<lambda>s. s) P (?get (\<lambda>data. if data = GIC_ENABLED b then Ret (s\<lparr>dist := vgic_dist_enable b (dist s)\<rparr>)
      else if data = 0 then Ret (s\<lparr>dist := vgic_dist_disable b (dist s)\<rparr>) else Ret s))"
    by (intro keeps_bind keeps_if keeps_Ret P_on P_off s)
  have sgi: "keeps (\<lambda>s. s) P (?get (\<lambda>data. sgir_write b K data s))"
    by (intro keeps_bind sgir_keeps s)
  have ret: "keeps (\<lambda>s. s) P (Ret s)" using s by simp
  note rules = ret keeps_Fault plain_register_keeps [OF s] ctl pend sgi
  show ?thesis
    unfolding dist_reg_store_def Let_def
    by (intro keeps_if; (rule rules | erule en | erule dis | erule notE [OF ok]))
qed

lemma advance_vcpu_keeps: "P s \<Longrightarrow> keeps snd P (fault_advance_vcpu K regs s)"
  by (auto simp: fault_advance_vcpu_def Let_def intro!: keeps_assert P_reply P_emit)

lemma advance_keeps:
  assumes "P s"
  shows "keeps snd P (fault_advance K regs addr fsr v s)"
proof -
  have "keeps snd P (case ptr_write p w regs s of (regs', s') \<Rightarrow> fault_advance_vcpu K regs' s')" for p w
    using assms by (cases p) (simp_all add: advance_vcpu_keeps P_wzr)
  then show ?thesis unfolding fault_advance_def by (intro keeps_bind)
qed

lemma dist_fault_keeps:
  assumes s: "P s"
    and ok: "fault_is_read fsr \<or> \<not> RANGE32 GIC_DIST_ICPENDR0 GIC_DIST_ICPENDRN (addr - GIC_DIST_PADDR b)"
  shows "keeps snd P (handle_vgic_dist_fault b K VCPU_ID addr fsr regs s)"
proof -
  have rd: "keeps snd P (vgic_dist_reg_read b K VCPU_ID off fsr regs s)" for off
    unfolding vgic_dist_reg_read_def Let_def
    by (intro keeps_bind keeps_not_err) (auto split: option.split intro!: keeps_bind advance_keeps advance_vcpu_keeps s)
  have wr: "keeps snd P (vgic_dist_reg_write b K VCPU_ID off fsr regs s)"
    if "\<not> RANGE32 GIC_DIST_ICPENDR0 GIC_DIST_ICPENDRN off" for off
    unfolding vgic_dist_reg_write_def
    by (intro keeps_bind keeps_not_err advance_vcpu_keeps) (erule keepsD [OF dist_reg_store_keeps [OF s that]])
  show ?thesis
    unfolding handle_vgic_dist_fault_def Let_def using ok rd wr by (intro keeps_assert keeps_if) auto
qed

lemma redist_store_keeps:
  assumes s: "P s" and b: "b = Imx8mm_evk"
  shows "keeps (\<lambda>s. s) P (redist_reg_store K VCPU_ID offset fsr m regs s)"
proof -
  let ?get = "\<lambda>f. bind_res (fault_get_data regs fsr s) (\<lambda>data. f (ucast data :: u32))"
  have en: "keeps (\<lambda>s. s) P (?get (\<lambda>data. ctz_loop (\<lambda>i. vgic_dist_enable_irq Imx8mm_evk K VCPU_ID (int i)) (data AND m) s))"
    by (intro keeps_bind ctz_loop_keeps [where P = P, OF _ s] P_enable [unfolded b]) simp_all
  have dis: "keeps (\<lambda>s. s) P (?get (\<lambda>data. ctz_loop (\<lambda>i s. bind_res (set_enable (dist s) (int i) False (to_c_int VCPU_ID))
      (\<lambda>d. Ret (s\<lparr>dist := d\<rparr>))) (data AND m) s))"
    by (intro keeps_bind ctz_loop_keeps [where P = P, OF _ s] P_clear) simp_all
  have ret: "keeps (\<lambda>s. s) P (Ret s)" using s by simp
  have other: "keeps (\<lambda>s. s) P (?get (\<lambda>_. Ret s))" by (intro keeps_bind ret)
  note rules = ret plain_register_keeps [OF s] en dis other
  show ?thesis unfolding redist_reg_store_def Let_def by (intro keeps_if; rule rules)
qed

lemma redist_fault_keeps:
  assumes s: "P s" and b: "b = Imx8mm_evk"
  shows "keeps snd P (handle_vgic_redist_fault K VCPU_ID addr fsr regs s)"
proof -
  have rd: "keeps snd P (handle_vgic_redist_read_fault K VCPU_ID off fsr regs s)" for off
    unfolding handle_vgic_redist_read_fault_def Let_def
    by (intro keeps_bind keeps_not_err) (auto split: option.split intro!: keeps_bind advance_keeps advance_vcpu_keeps s)
  have adv: "keeps snd P (bind_res (fault_advance_vcpu K regs s1) (\<lambda>(err, s2). c_assert (\<not> err) (Ret (\<not> err, s2))))"
    if "P s1" for s1 using advance_vcpu_keeps [OF that, of regs] by (auto simp: keeps_def)
  have wr: "keeps snd P (handle_vgic_redist_write_fault K VCPU_ID off fsr regs s)" for off
    unfolding handle_vgic_redist_write_fault_def
    by (intro keeps_bind adv) (erule keepsD [OF redist_store_keeps [OF s b]])
  show ?thesis
    unfolding handle_vgic_redist_fault_def Let_def by (intro keeps_assert keeps_if rd wr)
qed

lemma smc_keeps:
  assumes "P s"
  shows "keeps snd P (handle_smc K hsr s)"
proof -
  have fin: "keeps snd P (bind_res (fault_advance_vcpu K regs s) (\<lambda>(err, s'). c_assert (\<not> err) (Ret (err, s'))))" for regs
    using advance_vcpu_keeps [OF assms, of regs] by (auto simp: keeps_def)
  have "keeps snd P (handle_psci K v regs n h s)" for v regs n h
    using assms by (auto simp: handle_psci_def Let_def intro!: fin)
  then show ?thesis
    using assms by (auto simp: handle_smc_def Let_def intro!: keeps_assert keeps_bind split: prod.split smc_call_id_t.split)
qed

lemma vm_fault_keeps:
  assumes s: "P s" and ok: "fault_is_read (k_mr_get K (trace s) seL4_VMFault_FSR) \<or>
      \<not> RANGE32 GIC_DIST_ICPENDR0 GIC_DIST_ICPENDRN (k_mr_get K (trace s) seL4_VMFault_Addr - GIC_DIST_PADDR b)"
  shows "keeps snd P (handle_vm_fault b K s)"
proof -
  have "b = Imx8mm_evk" if "gic_version_of b = GIC_V3" using that by (cases b) (simp_all add: gic_version_of_def)
  then show ?thesis
    unfolding handle_vm_fault_def Let_def
    by (cases "k_read_registers K (trace s)", simp only: prod.case)
      (intro keeps_assert keeps_if keeps_Fault dist_fault_keeps [OF s ok] redist_fault_keeps [OF s]; blast)
qed

lemma vppi_keeps: "P s \<Longrightarrow> keeps snd P (handle_vppi_event b K s)"
  unfolding handle_vppi_event_def Let_def
  by (intro keeps_bind) (auto intro!: keeps_assert P_reply P_emit dest: keepsD [OF P_inject] split: prod.split)

lemma notified_keeps: "P s \<Longrightarrow> keeps (\<lambda>s. s) P (notified b K ch s)"
  by (auto simp: notified_def intro!: keeps_forget P_inject)

lemma fault_keeps:
  assumes s: "P s" and ok: "\<not> icpendr_store b K msginfo s"
  shows "keeps (\<lambda>s. s) P (fault b K err0 vm msginfo s)"
proof -
  have sys: "keeps snd P (handle_unknown_syscall K s)"
    using s by (auto simp: handle_unknown_syscall_def Let_def intro!: keeps_assert P_emit split: prod.split)
  have exc: "keeps snd P (handle_user_exception K s)"
    using s by (auto simp: handle_user_exception_def split: prod.split)
  have vcpu: "keeps snd P (handle_vcpu_fault K s)"
    using s by (auto simp: handle_vcpu_fault_def Let_def intro!: smc_keeps P_reply)
  have vm: "keeps snd P (handle_vm_fault b K s)" if "k_msginfo_label K msginfo = seL4_Fault_VMFault"
    using ok that by (intro vm_fault_keeps [OF s]) (auto simp: icpendr_store_def)
  show ?thesis
    unfolding fault_def Let_def using s
    by (auto intro!: keeps_forget sys exc vcpu vppi_keeps vm P_maintenance P_emit split: fault_label.split)
qed

end

end
