(* ===== verification/Runs.thy ===== *)
theory Runs imports Handlers begin

text \<open>
  Runs of the whole monitor: the boot followed by any number of notifications and faults. The lemmas
  show that every handler that returns keeps the invariant of the interrupt state and the table of
  registered interrupts; the one exception is a store to the clear-pending registers.
\<close>

section \<open>The invariant of the interrupt state\<close>

definition irq_ok :: "(int \<rightharpoonup> virq_handle) \<Rightarrow> vmm_state \<Rightarrow> bool" where
  "irq_ok R s \<longleftrightarrow> irq_inv s \<and> registered (vgic s) VCPU_ID = R"

definition kernel_ok :: "kernel \<Rightarrow> bool" where
  "kernel_ok K \<longleftrightarrow> inject_succeeds K \<and> ack_succeeds K"

lemma irq_ok_trace [simp]: "irq_ok R (s\<lparr>trace := t\<rparr>) = irq_ok R s"
  and irq_ok_wzr [simp]: "irq_ok R (s\<lparr>wzr := w\<rparr>) = irq_ok R s"
  and irq_ok_emit [simp]: "irq_ok R (emit e s) = irq_ok R s"
  and irq_ok_reply [simp]: "irq_ok R (reply_to_fault s) = irq_ok R s"
  by (simp_all add: irq_ok_def irq_inv_def emit_def reply_to_fault_def)

lemma irq_ok_dist:
  assumes "irq_ok R s" and "wf_dist d" "mirrored d" "pending d = pending (dist s)"
  shows "irq_ok R (s\<lparr>dist := d\<rparr>)"
  using assms by (simp add: irq_ok_def irq_inv_def)

lemma irq_ok_known: "irq_ok R s \<Longrightarrow> known_irqs (vgic s) = dom R"
  by (auto simp: irq_ok_def known_irqs_def)

section \<open>Operations on one interrupt\<close>

text \<open>The injection returns for the local interrupts and the registered ones, and for no other.\<close>

lemma inject_outcome:
  assumes s: "irq_ok R s" and K: "kernel_ok K" and few: "card (dom R) \<le> 66"
  shows "if 0 \<le> irq \<and> (irq < 32 \<or> R irq \<noteq> None)
    then \<exists>r s'. vgic_inject_irq b K VCPU_ID irq s = Ret (r, s') \<and> irq_ok R s'
    else \<exists>e. vgic_inject_irq b K VCPU_ID irq s = Fault e"
proof -
  have inv: "irq_inv s" and reg: "registered (vgic s) VCPU_ID = R" using s by (simp_all add: irq_ok_def)
  note wf = irq_invD(1) [OF inv]
  consider "0 \<le> irq" "irq < 32 \<or> R irq \<noteq> None" | "irq < 0" | "32 \<le> irq" "R irq = None" by linarith
  then show ?thesis
  proof cases
    case 1
    then have "has_bit irq" using irq_invD(4) [OF inv, of irq] reg by (auto simp: has_bit_def)
    from inject_same_config [OF inv this, of K b] 1 K few reg irq_ok_known [OF s] show ?thesis
      by (auto simp: irq_ok_def same_config_def kernel_ok_def)
  next
    case 2
    then show ?thesis
      using wf by (simp add: vgic_inject_irq_def vgic_dist_set_pending_irq_def virq_find_irq_data_def virq_get_sgi_ppi_def)
  next
    case 3
    then have "registered (vgic s) VCPU_ID irq = None" using reg by simp
    with 3 have "virq_find_irq_data (vgic s) VCPU_ID irq = Ret None"
      using wf by (simp add: registered_spi virq_find_irq_data_def virq_find_spi_irq_data_def)
    with 3 show ?thesis by (simp add: vgic_inject_irq_def vgic_dist_set_pending_irq_def deref_simps)
  qed
qed

lemma inject_keeps:
  assumes "irq_ok R s" "kernel_ok K" "card (dom R) \<le> 66"
  shows "keeps snd (irq_ok R) (vgic_inject_irq b K VCPU_ID irq s)"
  using inject_outcome [OF assms, of irq b] by (auto simp: keeps_def split: if_splits)

lemma set_enable_has_bit:
  assumes "wf_dist d" and "0 \<le> irq" and "set_enable d irq v 0 = Ret d'"
  shows "has_bit irq"
proof (cases "irq < 32")
  case True
  with assms(2) show ?thesis by (simp add: has_bit_def)
next
  case False
  with assms have "irq div 32 < 31"
    using wf_dist_lengths [OF assms(1)]
    by (auto simp: set_enable_def set_spi_enable_def IRQ_nonneg put_bit_def arr_mod_eq_Ret)
  then have "irq < 992" by linarith
  with assms(2) show ?thesis by (simp add: has_bit_def)
qed

lemma enable_keeps:
  assumes s: "irq_ok R s" and K: "kernel_ok K" and few: "card (dom R) \<le> 66" and irq: "0 \<le> irq"
  shows "keeps (\<lambda>s. s) (irq_ok R) (vgic_dist_enable_irq b K VCPU_ID irq s)"
proof (cases "has_bit irq")
  case True
  have inv: "irq_inv s" using s by (simp add: irq_ok_def)
  from enable_irq_ok [OF inv True, of K b] K few irq_ok_known [OF s] s show ?thesis
    by (auto simp: keeps_def irq_ok_def kernel_ok_def)
next
  case False
  have "wf_dist (dist s)" using s irq_invD(2) by (auto simp: irq_ok_def)
  from set_enable_has_bit [OF this irq] False show ?thesis by (auto simp: keeps_def vgic_dist_enable_irq_def)
qed

lemma irq_ok_enable_put: "irq_ok R s \<Longrightarrow> has_bit irq \<Longrightarrow> irq_ok R (s\<lparr>dist := enable_put (dist s) irq v\<rparr>)"
  using irq_inv_enable_put [of s irq v] by (simp add: irq_ok_def)

lemma set_enable_keeps:
  assumes s: "irq_ok R s" and irq: "0 \<le> irq"
  shows "keeps (\<lambda>s. s) (irq_ok R) (bind_res (set_enable (dist s) irq v 0) (\<lambda>d. Ret (s\<lparr>dist := d\<rparr>)))"
proof (intro keeps_intros)
  fix d assume d: "set_enable (dist s) irq v 0 = Ret d"
  have wf: "wf_dist (dist s)" using s irq_invD(2) by (auto simp: irq_ok_def)
  have "has_bit irq" by (rule set_enable_has_bit [OF wf irq d])
  with irq_ok_enable_put [OF s this, of v] set_enable_eq [OF wf this, of v] d show "irq_ok R (s\<lparr>dist := d\<rparr>)" by simp
qed

section \<open>The maintenance interrupt\<close>

lemma irq_ok_waiting: "irq_ok R s \<Longrightarrow> card (dom R) \<le> 4 \<Longrightarrow> waiting (vgic s) = []"
  using waiting_bound [of s] irq_ok_known [of R s] by (cases "waiting (vgic s)") (auto simp: irq_ok_def)

lemma irq_ok_cleared:
  assumes s: "irq_ok R s" and few: "card (dom R) \<le> 4" and i: "i < 4" "virq (lr_shadow (vcpu0 (vgic s)) ! i) \<noteq> VIRQ_INVALID"
  shows "irq_ok R (cleared i s)"
proof -
  have inv: "irq_inv s" using s by (simp add: irq_ok_def)
  have "wf_vcpu ((vcpu0 (vgic s))\<lparr>lr_shadow := (lr_shadow (vcpu0 (vgic s)))[i := no_virq]\<rparr>)"
    using wf_vgic_vcpu0 [OF irq_invD(1) [OF inv]] by (simp add: wf_vcpu_def)
  then have "registered (vgic (cleared i s)) VCPU_ID = registered (vgic s) VCPU_ID"
    unfolding cleared_def by (simp add: registered_put_vcpu0 [OF irq_invD(1) [OF inv]])
  with irq_inv_cleared [OF inv i irq_ok_waiting [OF s few]] s show ?thesis by (simp add: irq_ok_def)
qed

text \<open>
  A maintenance interrupt is served if it names a list register that holds an interrupt and the
  uninitialised local of the handler happens to be zero; otherwise the handler stops.
\<close>

definition maintenance_ok :: "kernel \<Rightarrow> int \<Rightarrow> vmm_state \<Rightarrow> bool" where
  "maintenance_ok K err0 s \<longleftrightarrow>
     (let idx = to_c_int (k_mr_get K (trace s) seL4_VGICMaintenance_IDX) in
      err0 = 0 \<and> 0 \<le> idx \<and> idx < 4 \<and> virq (lr_shadow (vcpu0 (vgic s)) ! nat idx) \<noteq> VIRQ_INVALID)"

lemma maintenance_outcome:
  assumes s: "irq_ok R s" and K: "kernel_ok K" and few: "card (dom R) \<le> 4"
  shows "if maintenance_ok K err0 s then \<exists>s'. handle_vgic_maintenance b K err0 s = Ret (True, s') \<and> irq_ok R s'
    else \<exists>e. handle_vgic_maintenance b K err0 s = Fault e"
proof -
  have inv: "irq_inv s" using s by (simp add: irq_ok_def)
  note D = irq_invD [OF inv]
  let ?c = "vcpu0 (vgic s)" and ?idx = "to_c_int (k_mr_get K (trace s) seL4_VGICMaintenance_IDX)"
  let ?i = "nat ?idx"
  have len: "length (lr_shadow ?c) = 4" using wf_vgic_vcpu0 [OF D(1)] by (simp add: wf_vcpu_def)
  show ?thesis
  proof (cases "0 \<le> ?idx \<and> ?idx < 4 \<and> virq (lr_shadow ?c ! ?i) \<noteq> VIRQ_INVALID")
    case False
    with D(1) len show ?thesis by (auto simp: handle_vgic_maintenance_def maintenance_ok_def c_assert_def Let_def)
  next
    case True
    then have i: "?i < 4" "virq (lr_shadow ?c ! ?i) \<noteq> VIRQ_INVALID" by auto
    have "lr_shadow ?c ! ?i \<in> set (lr_shadow ?c)" using i(1) len by simp
    with D(4,5) i(2) have bit: "has_bit (virq (lr_shadow ?c ! ?i))" unfolding good_handle_def by blast
    have ok: "irq_ok R (cleared ?i s)" by (rule irq_ok_cleared [OF s few i])
    then have "irq_inv (cleared ?i s)" "card (known_irqs (vgic (cleared ?i s))) \<le> 66"
      using few irq_ok_known [OF ok] by (simp_all add: irq_ok_def)
    from virq_ack_ok [OF this(1) maintained_handle [OF inv i] _ _ this(2), of K b] K ok obtain s2 where
      s2: "virq_ack b K VCPU_ID (lr_shadow ?c ! ?i) (cleared ?i s) = Ret s2" "irq_ok R s2"
      by (auto simp: kernel_ok_def irq_ok_def same_config_def)
    have "vgic_irq_dequeue (vgic s2) VCPU_ID = Ret (None, vgic s2)"
      using s2(2) irq_ok_waiting [OF s2(2) few] irq_invD(1) by (intro vgic_irq_dequeue_empty) (auto simp: irq_ok_def)
    with True s2 D(1,2) len bit show ?thesis
      by (simp add: handle_vgic_maintenance_def maintenance_ok_def set_pending_eq cleared_def no_virq_def Let_def)
  qed
qed

lemma maintenance_keeps:
  assumes "irq_ok R s" "kernel_ok K" "card (dom R) \<le> 4"
  shows "keeps snd (irq_ok R) (handle_vgic_maintenance b K err0 s)"
  using maintenance_outcome [OF assms, of err0 b] by (auto simp: keeps_def split: if_splits)

section \<open>The handlers keep the invariant\<close>

lemma irq_ok_switch:
  "irq_ok R s \<Longrightarrow> irq_ok R (s\<lparr>dist := vgic_dist_enable b (dist s)\<rparr>)"
  "irq_ok R s \<Longrightarrow> irq_ok R (s\<lparr>dist := vgic_dist_disable b (dist s)\<rparr>)"
  using irq_inv_switch [of s b] by (simp_all add: irq_ok_def)

lemma irq_ok_plain:
  assumes "irq_ok R s"
  shows "length a = length (irq_group0 (dist s)) \<Longrightarrow> irq_ok R (s\<lparr>dist := dist s\<lparr>irq_group0 := a\<rparr>\<rparr>)"
    "length a = length (irq_group (dist s)) \<Longrightarrow> irq_ok R (s\<lparr>dist := dist s\<lparr>irq_group := a\<rparr>\<rparr>)"
    "length a = length (active0 (dist s)) \<Longrightarrow> irq_ok R (s\<lparr>dist := dist s\<lparr>active0 := a\<rparr>\<rparr>)"
    "length a = length (active (dist s)) \<Longrightarrow> irq_ok R (s\<lparr>dist := dist s\<lparr>active := a\<rparr>\<rparr>)"
    "length a = length (active_clr0 (dist s)) \<Longrightarrow> irq_ok R (s\<lparr>dist := dist s\<lparr>active_clr0 := a\<rparr>\<rparr>)"
    "length a = length (active_clr (dist s)) \<Longrightarrow> irq_ok R (s\<lparr>dist := dist s\<lparr>active_clr := a\<rparr>\<rparr>)"
proof -
  have "wf_dist (dist s)" "mirrored (dist s)" using assms irq_invD by (auto simp: irq_ok_def)
  note ok = this [unfolded wf_dist_def mirrored_def]
  show "length a = length (irq_group0 (dist s)) \<Longrightarrow> irq_ok R (s\<lparr>dist := dist s\<lparr>irq_group0 := a\<rparr>\<rparr>)"
    "length a = length (irq_group (dist s)) \<Longrightarrow> irq_ok R (s\<lparr>dist := dist s\<lparr>irq_group := a\<rparr>\<rparr>)"
    "length a = length (active0 (dist s)) \<Longrightarrow> irq_ok R (s\<lparr>dist := dist s\<lparr>active0 := a\<rparr>\<rparr>)"
    "length a = length (active (dist s)) \<Longrightarrow> irq_ok R (s\<lparr>dist := dist s\<lparr>active := a\<rparr>\<rparr>)"
    "length a = length (active_clr0 (dist s)) \<Longrightarrow> irq_ok R (s\<lparr>dist := dist s\<lparr>active_clr0 := a\<rparr>\<rparr>)"
    "length a = length (active_clr (dist s)) \<Longrightarrow> irq_ok R (s\<lparr>dist := dist s\<lparr>active_clr := a\<rparr>\<rparr>)"
    by (intro irq_ok_dist [OF assms]; use ok in \<open>simp add: wf_dist_def mirrored_def\<close>)+
qed

lemma keeps_conj: "keeps f (\<lambda>s. c \<and> P s) r \<longleftrightarrow> c \<and> keeps f P r \<or> (\<exists>e. r = Fault e)"
  by (cases r) auto

interpretation irq_handlers: handlers b K "\<lambda>s. kernel_ok K \<and> card (dom R) \<le> 4 \<and> irq_ok R s" for b K R
  by unfold_locales (auto simp: keeps_conj irq_ok_switch irq_ok_plain intro: inject_keeps enable_keeps set_enable_keeps maintenance_keeps)

lemma irq_fault_keeps:
  assumes "irq_ok R s" "kernel_ok K" "card (dom R) \<le> 4" "\<not> icpendr_store b K msginfo s"
  shows "keeps (\<lambda>s. s) (irq_ok R) (fault b K err0 vm msginfo s)"
  using irq_handlers.fault_keeps [of K R s b msginfo] assms by (auto simp: keeps_def)

lemma irq_notified_keeps:
  assumes "irq_ok R s" "kernel_ok K" "card (dom R) \<le> 4"
  shows "keeps (\<lambda>s. s) (irq_ok R) (notified b K ch s)"
  using irq_handlers.notified_keeps [of K R s b ch] assms by (auto simp: keeps_def)

section \<open>Runs\<close>

text \<open>
  A run: the monitor has booted on a kernel whose calls succeed, and then serves notifications and
  faults, each of which returns. The kernel, the message and the uninitialised local may differ
  from step to step.
\<close>

definition booted :: "board \<Rightarrow> vmm_state \<Rightarrow> bool" where
  "booted b s \<longleftrightarrow> (\<exists>K L m. init b 1 K L (zero_state m) = Ret s)"

inductive vmm_step :: "board \<Rightarrow> vmm_state \<Rightarrow> vmm_state \<Rightarrow> bool" for b where
  step_notified: "kernel_ok K \<Longrightarrow> notified b K ch s = Ret s' \<Longrightarrow> vmm_step b s s'"
| step_fault: "kernel_ok K \<Longrightarrow> \<not> icpendr_store b K msginfo s \<Longrightarrow> fault b K err0 vm msginfo s = Ret s' \<Longrightarrow> vmm_step b s s'"

inductive_cases vmm_stepE: "vmm_step b s s'"

text \<open>The interface to the invariant proof: what holds at the start and is kept by each step holds
  in every state of a run.\<close>

locale invariant_system =
  fixes start :: "'s \<Rightarrow> bool" and step :: "'s \<Rightarrow> 's \<Rightarrow> bool" and inv :: "'s \<Rightarrow> bool"
  assumes start_inv: "start s \<Longrightarrow> inv s"
    and step_inv: "inv s \<Longrightarrow> step s s' \<Longrightarrow> inv s'"
begin

lemma run_inv:
  assumes "start s" and "step\<^sup>*\<^sup>* s s'"
  shows "inv s'"
  using assms(2) by induction (auto intro: start_inv [OF assms(1)] step_inv)

end

lemma card_boot_table: "card (dom (boot_table b)) \<le> 4"
  by (simp add: dom_boot_table card_insert_if)

lemma booted_irq_ok:
  assumes "booted b s"
  shows "irq_ok (boot_table b) s"
proof -
  from assms obtain K L m where i: "init b 1 K L (zero_state m) = Ret s" by (auto simp: booted_def)
  from init_registers [of b K L m] obtain s0 where s0: "init b 1 K L (zero_state m) = start_guest b K L s0"
    "irq_ok (boot_table b) s0" by (auto simp: irq_ok_def)
  then have "keeps (\<lambda>s. s) (irq_ok (boot_table b)) (start_guest b K L s0)"
    by (auto simp: start_guest_def Let_def intro!: keeps_assert)
  moreover have "start_guest b K L s0 = Ret s" using i s0(1) by simp
  ultimately show ?thesis by (rule keepsD)
qed

interpretation monitor: invariant_system "booted b" "vmm_step b" "irq_ok (boot_table b)" for b
proof unfold_locales
  fix s assume "booted b s"
  then show "irq_ok (boot_table b) s" by (rule booted_irq_ok)
next
  fix s s' assume "irq_ok (boot_table b) s" "vmm_step b s s'"
  then show "irq_ok (boot_table b) s'"
    by (auto elim!: vmm_stepE intro: card_boot_table dest: keepsD [OF irq_notified_keeps] keepsD [OF irq_fault_keeps])
qed

end
