(* ===== verification/Constant_Registers.thy ===== *)
theory Constant_Registers imports Runs begin

text \<open>
  The part of the register file that only one version of the controller has: identification,
  routing and reserved words. No operation of the monitor changes it after the boot.
\<close>

section \<open>Registers that never change\<close>

text \<open>The part of the register file that belongs to one version of the controller.\<close>

definition ids :: "vmm_state \<Rightarrow> gic_dist_v2 \<times> gic_dist_v3" where
  "ids s = (dist_v2 (dist s), dist_v3 (dist s))"

lemma set_bits_ids:
  "set_pending d irq v c = Ret d' \<Longrightarrow> dist_v2 d' = dist_v2 d \<and> dist_v3 d' = dist_v3 d"
  "set_enable d irq v c = Ret d' \<Longrightarrow> dist_v2 d' = dist_v2 d \<and> dist_v3 d' = dist_v3 d"
  by (auto simp: set_pending_def set_sgi_ppi_pending_def set_spi_pending_def
      set_enable_def set_sgi_ppi_enable_def set_spi_enable_def split: if_splits)

lemma load_list_reg_ids: "vgic_vcpu_load_list_reg K c i g p s = Ret (r, s') \<Longrightarrow> ids s' = ids s" for s :: vmm_state
  by (auto simp: vgic_vcpu_load_list_reg_def Let_def emit_def ids_def split: if_splits)

lemma inject_ids: "vgic_inject_irq b K c irq s = Ret (r, s') \<Longrightarrow> ids s' = ids s"
  by (auto simp: vgic_inject_irq_def vgic_dist_set_pending_irq_def queue_and_load_def Let_def ids_def
      split: if_splits prod.splits dest!: set_bits_ids load_list_reg_ids)

lemma virq_ack_ids:
  assumes "virq_ack b K c h s = Ret s'"
  shows "ids s' = ids s"
proof -
  obtain f where "ack_fn h = Some f" using assms by (cases "ack_fn h") (simp_all add: virq_ack_def)
  with assms show ?thesis
    by (cases f; cases b) (auto simp: virq_ack_def vppi_event_ack_def sgi_ack_def serial_ack_def Let_def ids_def emit_def
        dest!: inject_ids)
qed

lemma enable_ids: "vgic_dist_enable_irq b K c irq s = Ret s' \<Longrightarrow> ids s' = ids s"
  by (auto simp: vgic_dist_enable_irq_def Let_def ids_def split: if_splits dest!: set_bits_ids virq_ack_ids)

lemma maintenance_ids: "handle_vgic_maintenance b K err0 s = Ret (r, s') \<Longrightarrow> ids s' = ids s"
  by (auto simp: handle_vgic_maintenance_def Let_def reply_to_fault_def emit_def ids_def
      split: if_splits prod.splits dest!: set_bits_ids virq_ack_ids load_list_reg_ids)

interpretation id_handlers: handlers b K "\<lambda>s. ids s = i" for b K i
  by unfold_locales
    (auto simp: keeps_def ids_def vgic_dist_enable_def vgic_dist_disable_def split: gic_version.split
      dest!: inject_ids enable_ids maintenance_ids set_bits_ids)

lemma boot_dist_ids:
  "wf_dist_v2 (dist_v2 v2_dist_boot)" "wf_dist_v3 (dist_v3 v2_dist_boot)"
  "wf_dist_v2 (dist_v2 v3_dist_boot)" "wf_dist_v3 (dist_v3 v3_dist_boot)"
  by (simp_all add: v2_dist_boot_def v3_dist_boot_def zero_dist_def wf_dist_v2_def wf_dist_v3_def)

lemma vgic_init_ids: "\<exists>s. vgic_init b 1 (zero_state m) = Ret s \<and> wf_dist_v2 (fst (ids s)) \<and> wf_dist_v3 (snd (ids s))"
  by (cases b)
    (simp_all add: vgic_init_def gic_version_of_def v2_vgic_init_def v3_vgic_init_def zero_state_def ids_def
      clear_handles_zero v2_dist_reset_zero [unfolded One_nat_def] v3_dist_reset_zero boot_dist_ids)

lemma booted_ids:
  assumes "booted b s"
  shows "wf_dist_v2 (fst (ids s))" "wf_dist_v3 (snd (ids s))"
proof -
  from assms obtain K L m where i: "init b 1 K L (zero_state m) = Ret s" by (auto simp: booted_def)
  let ?m = "copy_images b L m"
  obtain s1 where s1: "vgic_init b 1 (zero_state ?m) = Ret s1" "wf_dist_v2 (fst (ids s1))" "wf_dist_v3 (snd (ids s1))"
    using vgic_init_ids by blast
  let ?same = "\<lambda>s. ids s = ids s1"
  have reg: "keeps snd ?same (vgic_register_irq c n f x s)" if "?same s" for c n f x s
    using that by (auto simp: vgic_register_irq_def ids_def keeps_def)
  have start: "keeps (\<lambda>s. s) ?same (start_guest b K L s)" if "?same s" for s
    using that by (auto simp: start_guest_def Let_def emit_def ids_def keeps_def)
  have z: "(zero_state m)\<lparr>memory := copy_images b L (memory (zero_state m))\<rparr> = zero_state ?m" by (simp add: zero_state_def)
  have more: "keeps (\<lambda>s. s) ?same (bind_res (vgic_register_irq c n f x s) (\<lambda>(ok, s'). if \<not> ok then Ret s' else g s'))"
    if "?same s" "\<And>s. ?same s \<Longrightarrow> keeps (\<lambda>s. s) ?same (g s)" for c n f x s g
    by (rule keeps_bind) (use keepsD [OF reg [OF that(1)]] that(2) in \<open>auto split: prod.split\<close>)
  have last: "keeps (\<lambda>s. s) ?same (bind_res (vgic_register_irq c n f x s) (\<lambda>(_, s'). start_guest b K L s'))"
    if "?same s" for c n f x s
    by (rule keeps_bind) (use keepsD [OF reg [OF that]] start in \<open>auto split: prod.split\<close>)
  have "keeps (\<lambda>s. s) ?same (init b 1 K L (zero_state m))"
    unfolding init_def z s1(1) bind_res.simps by (rule more [OF refl], rule more, assumption, rule more, assumption, erule last)
  from keepsD [OF this i] have "ids s = ids s1" .
  with s1 show "wf_dist_v2 (fst (ids s))" "wf_dist_v3 (snd (ids s))" by simp_all
qed

interpretation constant_registers: invariant_system "booted b" "vmm_step b"
  "\<lambda>s. wf_dist_v2 (fst (ids s)) \<and> wf_dist_v3 (snd (ids s))" for b
proof unfold_locales
  fix s assume "booted b s"
  then show "wf_dist_v2 (fst (ids s)) \<and> wf_dist_v3 (snd (ids s))" using booted_ids by blast
next
  fix s s' assume wf: "wf_dist_v2 (fst (ids s)) \<and> wf_dist_v3 (snd (ids s))" and "vmm_step b s s'"
  then have "ids s' = ids s"
    by (auto elim!: vmm_stepE dest: keepsD [OF id_handlers.notified_keeps [OF refl]] keepsD [OF id_handlers.fault_keeps [OF refl]])
  with wf show "wf_dist_v2 (fst (ids s')) \<and> wf_dist_v3 (snd (ids s'))" by simp
qed

end
