(* ===== verification/Load_Outcomes.thy ===== *)
theory Load_Outcomes imports Constant_Registers begin

text \<open>
  When a load returns: which offsets have a register, which loads leave the words of their register,
  and what the syndrome of the access has to say.
\<close>

lemma returns_bind: "returns (bind_res m f) \<longleftrightarrow> (\<exists>x. m = Ret x \<and> returns (f x))"
  by (cases m) simp_all

lemma returns_assert: "returns (c_assert P r) \<longleftrightarrow> P \<and> returns r"
  by (simp add: c_assert_def)

section \<open>Loads\<close>

lemma RANGE32_far:
  assumes "unat b < 0x20000"
  shows "RANGE32 a b x \<longleftrightarrow> unat a \<le> unat x \<and> unat x \<le> unat b + 3"
proof -
  have "unat (b + 3) = unat b + 3" using assms by (subst unat_add_lem [THEN iffD1]) auto
  then show ?thesis by (simp add: RANGE32_def word_le_nat_alt)
qed

fun has_register :: "gic_version \<Rightarrow> nat \<Rightarrow> bool" where
  "has_register GIC_V2 n \<longleftrightarrow> n < 0xFFF"
| "has_register GIC_V3 n \<longleftrightarrow> n < 0xFC0 \<and> \<not> (0xD00 \<le> n \<and> n < 0xDE8) \<or> 0x6100 \<le> n \<and> n \<le> 0x7F03 \<or> 0xFFD0 \<le> n \<and> n \<le> 0xFFFF"

fun load_overruns :: "gic_version \<Rightarrow> nat \<Rightarrow> bool" where
  "load_overruns GIC_V2 n \<longleftrightarrow> n = 0xFFD \<or> n = 0xFFE"
| "load_overruns GIC_V3 n \<longleftrightarrow> n = 0xFFFD \<or> n = 0xFFFE \<or> n = 0xFFFF"

text \<open>What a register switch returns: nothing where there is no register, a value where there is one,
  and a fault where the load leaves the words of the register.\<close>

definition load_result :: "bool \<Rightarrow> bool \<Rightarrow> 'a option res \<Rightarrow> bool" where
  "load_result reg over r \<longleftrightarrow> (case r of
     Ret None \<Rightarrow> \<not> reg
   | Ret (Some _) \<Rightarrow> reg \<and> \<not> over
   | Fault _ \<Rightarrow> reg \<and> over)"

lemma load_result_Some: "reg \<Longrightarrow> \<not> over \<Longrightarrow> load_result reg over (Ret (Some x))"
  by (simp add: load_result_def)

lemma load_if: "(c \<Longrightarrow> load_result v n r1) \<Longrightarrow> (\<not> c \<Longrightarrow> load_result v n r2) \<Longrightarrow> load_result v n (if c then r1 else r2)"
  by simp

lemma load_regn:
  assumes "RANGE32 base stop offset" "unat stop < 0x10000" "(unat stop + 3 - unat base) div 4 < length xs"
    "reg" "\<not> over"
  shows "load_result reg over (bind_res (arr_get xs (uint (GIC_DIST_REGN offset base))) (\<lambda>x. Ret (Some x)))"
proof -
  have "unat base \<le> unat offset" "unat offset \<le> unat stop + 3" using assms(1,2) by (simp_all add: RANGE32_nat)
  then have "(unat offset - unat base) div 4 \<le> (unat stop + 3 - unat base) div 4" by (intro div_le_mono) simp
  with assms(3) have "(unat offset - unat base) div 4 < length xs" by simp
  then show ?thesis using REGN_nat [of base offset] \<open>unat base \<le> unat offset\<close> assms(4,5) by (simp add: load_result_Some)
qed

text \<open>A load of four bytes returns if the bytes lie in the words.\<close>

lemma read_at_outcome: "returns (read_at ws off) \<longleftrightarrow> unat off + 4 \<le> 4 * length ws"
proof -
  have "unat (off div 4) = unat off div 4" "unat (off mod 4) = unat off mod 4"
    by (simp_all add: unat_div_distrib unat_mod_distrib)
  then have "returns (read_at ws off) \<longleftrightarrow> unat off div 4 + (if unat off mod 4 = 0 then 0 else 1) < length ws"
    using uint_nat [of "off div 4"] by (auto simp: read_at_def Let_def arr_get_def returns_def)
  also have "\<dots> \<longleftrightarrow> unat off + 4 \<le> 4 * length ws" by (cases "unat off mod 4 = 0") (simp, presburger)+
  finally show ?thesis .
qed

lemma load_read_at:
  assumes "RANGE32 base stop offset" "unat stop < 0x20000" "reg"
    and "over \<longleftrightarrow> 4 * length ws + unat base < unat offset + 4"
  shows "load_result reg over (bind_res (read_at ws (offset - base)) (\<lambda>x. Ret (Some x)))"
proof -
  have "unat base \<le> unat offset" using assms(1,2) by (simp add: RANGE32_far)
  then have "unat (offset - base) = unat offset - unat base" by (simp add: unat_sub word_le_nat_alt)
  with read_at_outcome [of ws "offset - base"] \<open>unat base \<le> unat offset\<close>
  have "returns (read_at ws (offset - base)) \<longleftrightarrow> \<not> over" unfolding assms(4) by linarith
  with assms(3) show ?thesis
    by (cases "read_at ws (offset - base)") (simp_all add: load_result_def)
qed

lemma dist_value_outcome:
  assumes wf: "wf_dist d" "wf_dist_v2 (dist_v2 d)" "wf_dist_v3 (dist_v3 d)"
  shows "load_result (has_register (gic_version_of b) (unat offset)) (load_overruns (gic_version_of b) (unat offset)) (dist_reg_value b d VCPU_ID offset)"
proof -
  note len = wf [unfolded wf_dist_def NUM_VCPUS_def wf_dist_v2_def wf_dist_v3_def] wf_dist_nested [OF wf(1)]
  let ?v = "gic_version_of b" and ?n = "unat offset"
  have some: "load_result (has_register ?v ?n) (load_overruns ?v ?n) (Ret (Some x))" if "RANGE32 a c offset" "unat c \<le> 0xCFC \<or> 0xDE8 \<le> unat a \<and> unat c \<le> 0xFBC" for a c x
    using that by (intro load_result_Some; cases ?v) (auto simp: RANGE32_nat)
  have reg: "load_result (has_register ?v ?n) (load_overruns ?v ?n) (bind_res (arr_get xs (uint (GIC_DIST_REGN offset a))) (\<lambda>x. Ret (Some x)))"
    if "RANGE32 a c offset" "unat c \<le> 0xCFC \<or> 0xDE8 \<le> unat a \<and> unat c \<le> 0xFBC"
      "(unat c + 3 - unat a) div 4 < length xs" for a c xs
    using that by (intro load_regn [of a c]; cases ?v) (auto simp: RANGE32_nat)
  have cpu: "arr_get xs (uint VCPU_ID) = Ret (xs ! 0)" if "length xs = 1" for xs :: "'a list"
    using that by (simp add: VCPU_ID_def)
  have "length (words64 xs) = 2 * length xs" for xs by (induction xs) (simp_all add: words64_def)
  note len' = len this
  have at: "load_result (has_register ?v ?n) (load_overruns ?v ?n) (bind_res (read_at ws (offset - a)) (\<lambda>x. Ret (Some x)))"
    if r: "?v = w \<and> RANGE32 a c offset" and "(w, unat a, unat c, length ws) \<in> {(GIC_V2, 0xD00, 0xDE4, 128), (GIC_V2, 0xFC0, 0xFFB, 16),
        (GIC_V3, 0x6100, 0x7F00, 6080), (GIC_V3, 0xFFD0, 0xFFFC, 12)}" for w a c ws
  proof -
    have c: "unat c < 0x10000" using that(2) by auto
    then have "unat a \<le> ?n" "?n \<le> unat c + 3" using r by (simp_all add: RANGE32_nat)
    with that c show ?thesis by (intro load_read_at [OF conjunct2 [OF r]]) auto
  qed
  show ?thesis
    unfolding dist_reg_value_def Let_def
    by (intro load_if; (erule at, simp add: len'; fail | (simp only: cpu len bind_res.simps)?, (erule some reg; simp add: len'); fail
        | cases ?v; (simp add: load_result_def RANGE32_nat not_le; (linarith | arith)?)))
qed

section \<open>Accesses\<close>

text \<open>The syndrome describes the access and the address is aligned to its width.\<close>

definition access_valid :: "u64 \<Rightarrow> u64 \<Rightarrow> bool" where
  "access_valid addr fsr \<longleftrightarrow> bit fsr 24 \<and> lane_aligned addr (syndrome_width fsr)"

text \<open>The bits of a register word that the access selects.\<close>

definition selected :: "u64 \<Rightarrow> u64 \<Rightarrow> u32" where
  "selected addr fsr = ucast (push_bit (8 * (unat addr mod 4)) (mask (8 * access_bytes (syndrome_width fsr))) :: u64)"

lemma data_mask_returns: "returns (fault_get_data_mask addr fsr) \<longleftrightarrow> access_valid addr fsr"
  and data_mask_value: "fault_get_data_mask addr fsr = Ret m \<Longrightarrow> ucast m = selected addr fsr"
  by (auto simp: fault_get_data_mask_eq access_valid_def selected_def split: if_splits)

lemma emulate_returns: "returns (fault_emulate reg addr fsr v) \<longleftrightarrow> access_valid addr fsr"
proof -
  have "returns (fault_emulate reg addr fsr v) = returns (fault_get_data_mask addr fsr)"
    by (cases "fault_get_data_mask addr fsr") (simp_all add: fault_emulate_def Let_def)
  then show ?thesis by (simp add: data_mask_returns)
qed

lemma decode_returns: "\<exists>p. decode_rt (HSR_SYNDROME_RT fsr) = Ret p"
proof (cases "unat (HSR_SYNDROME_RT fsr) = 31")
  case False
  moreover have "unat (HSR_SYNDROME_RT fsr) < 32" by (simp add: unat_HSR_SYNDROME_RT)
  ultimately have "unat (HSR_SYNDROME_RT fsr) \<le> 30" by simp
  from decode_rt_reg [OF this] show ?thesis by blast
qed (simp add: decode_rt_31)

lemma advance_vcpu_returns: "regs_calls_succeed K \<Longrightarrow> returns (fault_advance_vcpu K regs s)"
  by (simp add: fault_advance_vcpu_eq)

lemma advance_returns:
  fixes s :: vmm_state
  assumes K: "regs_calls_succeed K"
  shows "returns (fault_advance K regs addr fsr v s) \<longleftrightarrow> access_valid addr fsr"
proof (cases "bit fsr 24")
  case True
  obtain p where p: "decode_rt (HSR_SYNDROME_RT fsr) = Ret p" using decode_returns by blast
  have "returns (case ptr_write p w regs s of (regs', s') \<Rightarrow> fault_advance_vcpu K regs' s')" for w
    using advance_vcpu_returns [OF K] by (cases "ptr_write p w regs s") simp
  with True p emulate_returns [of "ptr_read p regs s" addr fsr v] show ?thesis
    by (auto simp: fault_advance_def get_rt_valid returns_bind) (auto simp: returns_def)
qed (simp add: fault_advance_def get_rt_invalid access_valid_def)

lemma masked_advance_returns:
  fixes s :: vmm_state
  assumes "regs_calls_succeed K"
  shows "returns (bind_res (fault_get_data_mask addr fsr) (\<lambda>m. fault_advance K regs addr fsr (f m) s)) \<longleftrightarrow> access_valid addr fsr"
  using data_mask_returns [of addr fsr] advance_returns [OF assms] by (cases "fault_get_data_mask addr fsr") simp_all

lemma returns_not_err: "returns (bind_res r (\<lambda>(err, s'). Ret (\<not> err, s'))) = returns r" for r :: "(bool \<times> vmm_state) res"
  by (cases r) (simp_all split: prod.split)

section \<open>The distributor\<close>

definition load_ok :: "board \<Rightarrow> u64 \<Rightarrow> u64 \<Rightarrow> bool" where
  "load_ok b offset fsr \<longleftrightarrow> (has_register (gic_version_of b) (unat offset) \<longrightarrow>
     \<not> load_overruns (gic_version_of b) (unat offset) \<and> access_valid (GIC_DIST_PADDR b + offset) fsr)"

lemma dist_read_returns:
  assumes wf: "wf_dist (dist s)" "wf_dist_v2 (dist_v2 (dist s))" "wf_dist_v3 (dist_v3 (dist s))" and K: "regs_calls_succeed K"
  shows "returns (vgic_dist_reg_read b K VCPU_ID offset fsr regs s) \<longleftrightarrow> load_ok b offset fsr"
  using dist_value_outcome [OF wf, of b offset]
  by (cases "dist_reg_value b (dist s) VCPU_ID offset" rule: res.exhaust)
    (auto simp: vgic_dist_reg_read_def load_result_def load_ok_def returns_not_err masked_advance_returns [OF K] Let_def advance_vcpu_returns [OF K] split: option.splits)

end
