(* ===== verification/Store_Outcomes.thy ===== *)
theory Store_Outcomes imports Load_Outcomes begin

text \<open>
  When a store to the distributor returns: the interrupts that the stored word names need a bit in
  the register file, or a handle where they are injected.
\<close>

section \<open>Loops over the bits of a stored word\<close>

lemma for_each_returns:
  assumes "\<And>x s. x \<in> set xs \<Longrightarrow> I s \<Longrightarrow> if ok x then \<exists>s'. f x s = Ret s' \<and> I s' else \<exists>e. f x s = Fault e" and "I s"
  shows "returns (for_each f xs s) \<longleftrightarrow> (\<forall>x \<in> set xs. ok x)"
  using assms
proof (induction xs arbitrary: s)
  case (Cons x xs)
  show ?case
  proof (cases "ok x")
    case True
    then obtain s' where s': "f x s = Ret s'" "I s'" using Cons.prems(1) [of x s] Cons.prems(2) by auto
    have "returns (for_each f xs s') \<longleftrightarrow> (\<forall>x \<in> set xs. ok x)" using Cons.prems(1) s'(2) by (intro Cons.IH) auto
    with s'(1) True show ?thesis by simp
  next
    case False
    then obtain e where "f x s = Fault e" using Cons.prems(1) [of x s] Cons.prems(2) by auto
    with False show ?thesis by simp
  qed
qed simp

text \<open>The interrupts that a store of \<open>data\<close> at offset \<open>n\<close> of a register class starting at \<open>base\<close> names.\<close>

definition store_irqs :: "nat \<Rightarrow> nat \<Rightarrow> u32 \<Rightarrow> int list" where
  "store_irqs base n data = map (\<lambda>i. int (i + 8 * (n - base))) (filter (bit data) [0..<32])"

lemma bits_loop_returns:
  assumes "RANGE32 base stop offset" "unat stop < 0x10000" "I s"
    and "\<And>irq s. 0 \<le> irq \<Longrightarrow> I s \<Longrightarrow> if ok irq then \<exists>s'. f irq s = Ret s' \<and> I s' else \<exists>e. f irq s = Fault e"
  shows "returns (ctz_loop (\<lambda>i. f (reg_irq offset base i)) data s) \<longleftrightarrow>
    (\<forall>irq \<in> set (store_irqs (unat base) (unat offset) data). ok irq)"
proof -
  note r = reg_irq_value [OF assms(1,2)]
  have "returns (for_each (\<lambda>i. f (reg_irq offset base i)) (filter (bit data) [0..<32]) s) \<longleftrightarrow>
      (\<forall>i \<in> set (filter (bit data) [0..<32]). ok (reg_irq offset base i))"
    by (rule for_each_returns [where I = I, OF _ assms(3)], rule assms(4)) (simp_all add: r)
  then show ?thesis by (simp add: ctz_loop_eq store_irqs_def r del: of_nat_add)
qed

section \<open>Operations on one interrupt\<close>

lemma enable_outcome:
  assumes s: "irq_ok R s" and K: "kernel_ok K" and few: "card (dom R) \<le> 66" and irq: "0 \<le> irq"
  shows "if irq < 992 then \<exists>s'. vgic_dist_enable_irq b K VCPU_ID irq s = Ret s' \<and> irq_ok R s'
    else \<exists>e. vgic_dist_enable_irq b K VCPU_ID irq s = Fault e"
proof (cases "irq < 992")
  case True
  then have "has_bit irq" using irq by (simp add: has_bit_def)
  from enable_irq_ok [OF _ this, of s K b] s K few irq_ok_known [OF s] True show ?thesis
    by (auto simp: irq_ok_def kernel_ok_def)
next
  case False
  have "wf_dist (dist s)" using s irq_invD(2) by (auto simp: irq_ok_def)
  from set_enable_has_bit [OF this irq] False show ?thesis
    by (cases "set_enable (dist s) irq True 0") (auto simp: vgic_dist_enable_irq_def has_bit_def)
qed

lemma clear_enable_outcome:
  assumes s: "irq_ok R s" and irq: "0 \<le> irq"
  shows "if irq < 992 then \<exists>s'. bind_res (set_enable (dist s) irq False 0) (\<lambda>d. Ret (s\<lparr>dist := d\<rparr>)) = Ret s' \<and> irq_ok R s'
    else \<exists>e. bind_res (set_enable (dist s) irq False 0) (\<lambda>d. Ret (s\<lparr>dist := d\<rparr>)) = Fault e"
proof -
  have wf: "wf_dist (dist s)" using s irq_invD(2) by (auto simp: irq_ok_def)
  show ?thesis
    using set_enable_has_bit [OF wf irq] set_enable_eq [OF wf, of irq False] irq_ok_enable_put [OF s, of irq False] irq
    by (cases "set_enable (dist s) irq False 0") (auto simp: has_bit_def)
qed

lemma disable_outcome:
  assumes s: "irq_ok R s" and irq: "0 \<le> irq"
  shows "if irq < 992 then \<exists>s'. vgic_dist_disable_irq VCPU_ID irq s = Ret s' \<and> irq_ok R s'
    else \<exists>e. vgic_dist_disable_irq VCPU_ID irq s = Fault e"
  using clear_enable_outcome [OF assms] s irq by (auto simp: vgic_dist_disable_irq_def split: if_splits)

lemma set_pending_outcome:
  assumes "irq_ok R s" "kernel_ok K" "card (dom R) \<le> 66" "0 \<le> irq"
  shows "if irq < 32 \<or> R irq \<noteq> None
    then \<exists>s'. bind_res (vgic_dist_set_pending_irq b K VCPU_ID irq s) (\<lambda>(_, s'). Ret s') = Ret s' \<and> irq_ok R s'
    else \<exists>e. bind_res (vgic_dist_set_pending_irq b K VCPU_ID irq s) (\<lambda>(_, s'). Ret s') = Fault e"
  using inject_outcome [OF assms(1-3), of irq b] assms(4) by (auto simp: vgic_inject_irq_def split: if_splits)

lemma clr_pending_outcome:
  assumes wf: "wf_dist (dist s)" and irq: "0 \<le> irq"
  shows "if irq < 992 then \<exists>s'. vgic_dist_clr_pending_irq VCPU_ID irq s = Ret s' \<and> wf_dist (dist s')
    else \<exists>e. vgic_dist_clr_pending_irq VCPU_ID irq s = Fault e"
proof (cases "irq < 992")
  case True
  with irq set_pending_eq [OF wf, of irq False] wf show ?thesis by (simp add: vgic_dist_clr_pending_irq_def has_bit_def)
next
  case False
  then have "31 \<le> irq div 32" by linarith
  with False irq wf_dist_lengths [OF wf] show ?thesis
    by (simp add: vgic_dist_clr_pending_irq_def set_pending_def set_spi_pending_def IRQ_nonneg put_bit_def arr_mod_out)
qed

section \<open>Stores\<close>

definition store_ok :: "(int \<rightharpoonup> virq_handle) \<Rightarrow> nat \<Rightarrow> u32 \<Rightarrow> bool" where
  "store_ok R n data \<longleftrightarrow>
     (0x100 \<le> n \<and> n < 0x180 \<longrightarrow> (\<forall>irq \<in> set (store_irqs 0x100 n data). irq < 992)) \<and>
     (0x180 \<le> n \<and> n < 0x200 \<longrightarrow> (\<forall>irq \<in> set (store_irqs 0x180 n data). irq < 992)) \<and>
     (0x200 \<le> n \<and> n < 0x280 \<longrightarrow> (\<forall>irq \<in> set (store_irqs 0x200 n data). irq < 32 \<or> R irq \<noteq> None)) \<and>
     (0x280 \<le> n \<and> n < 0x300 \<longrightarrow> (\<forall>irq \<in> set (store_irqs 0x280 n data). irq < 992)) \<and>
     \<not> (0xF10 \<le> n \<and> n < 0xF30)"

lemma returns_if: "(c \<Longrightarrow> returns r1 = Q) \<Longrightarrow> (\<not> c \<Longrightarrow> returns r2 = Q) \<Longrightarrow> returns (if c then r1 else r2) = Q"
  by simp

lemma sgir_returns:
  assumes "irq_ok R s" "kernel_ok K" "card (dom R) \<le> 66"
  shows "returns (sgir_write b K data s)"
proof -
  have "uint (data AND 0xF) < 16" using word_and_le1 [of data "0xF"] by (simp add: word_le_def)
  with inject_outcome [OF assms, of "uint (data AND 0xF)" b] show ?thesis by (auto simp: sgir_write_def Let_def)
qed

lemma emulate_arr_returns:
  assumes "access_valid addr fsr" "unat i < length a"
  shows "\<exists>a'. emulate_arr_write regs addr fsr a i s = Ret a'"
proof -
  have "bit fsr 24" using assms(1) by (simp add: access_valid_def)
  moreover obtain v where "fault_emulate (ucast (a ! unat i)) addr fsr (operand regs fsr s) = Ret v"
    using assms(1) emulate_returns [of _ addr fsr] unfolding returns_def by blast
  ultimately show ?thesis
    using assms(2) by (simp add: emulate_arr_write_def emulate_reg_write_access_def fault_get_data_eq)
qed

text \<open>The four register classes with one bit per interrupt.\<close>

lemma isenabler_returns:
  assumes s: "irq_ok R s" and K: "kernel_ok K" and few: "card (dom R) \<le> 66" and r: "RANGE32 GIC_DIST_ISENABLER0 GIC_DIST_ISENABLERN offset"
  shows "returns (ctz_loop (\<lambda>i. vgic_dist_enable_irq b K VCPU_ID (reg_irq offset GIC_DIST_ISENABLER0 i)) data s) = store_ok R (unat offset) data"
  using bits_loop_returns [where ok = "\<lambda>irq. irq < 992" and f = "vgic_dist_enable_irq b K VCPU_ID",
      OF r _ s enable_outcome [OF _ K few]] r
  by (simp add: store_ok_def RANGE32_nat)

lemma icenabler_returns:
  assumes s: "irq_ok R s" and r: "RANGE32 GIC_DIST_ICENABLER0 GIC_DIST_ICENABLERN offset"
  shows "returns (ctz_loop (\<lambda>i. vgic_dist_disable_irq VCPU_ID (reg_irq offset GIC_DIST_ICENABLER0 i)) data s) = store_ok R (unat offset) data"
  using bits_loop_returns [where ok = "\<lambda>irq. irq < 992" and f = "vgic_dist_disable_irq VCPU_ID",
      OF r _ s disable_outcome] r
  by (simp add: store_ok_def RANGE32_nat)

lemma ispendr_returns:
  assumes s: "irq_ok R s" and K: "kernel_ok K" and few: "card (dom R) \<le> 66" and r: "RANGE32 GIC_DIST_ISPENDR0 GIC_DIST_ISPENDRN offset"
  shows "returns (ctz_loop (\<lambda>i s. bind_res (vgic_dist_set_pending_irq b K VCPU_ID (reg_irq offset GIC_DIST_ISPENDR0 i) s)
      (\<lambda>(_, s'). Ret s')) data s) = store_ok R (unat offset) data"
  using bits_loop_returns [where ok = "\<lambda>irq. irq < 32 \<or> R irq \<noteq> None" and f = "\<lambda>irq s. bind_res (vgic_dist_set_pending_irq b K VCPU_ID irq s) (\<lambda>(_, s'). Ret s')",
      OF r _ s set_pending_outcome [OF _ K few]] r
  by (simp add: store_ok_def RANGE32_nat)

lemma icpendr_returns:
  assumes wf: "wf_dist (dist s)" and r: "RANGE32 GIC_DIST_ICPENDR0 GIC_DIST_ICPENDRN offset"
  shows "returns (ctz_loop (\<lambda>i. vgic_dist_clr_pending_irq VCPU_ID (reg_irq offset GIC_DIST_ICPENDR0 i)) data s) = store_ok R (unat offset) data"
  using bits_loop_returns [where ok = "\<lambda>irq. irq < 992" and f = "vgic_dist_clr_pending_irq VCPU_ID"
      and I = "\<lambda>s. wf_dist (dist s)",
      OF r _ wf clr_pending_outcome] r
  by (simp add: store_ok_def RANGE32_nat)

text \<open>Every other register but the unimplemented ones takes any store.\<close>

lemma store_ok_plain:
  assumes "RANGE32 a c offset"
    "unat c \<le> 0xFC \<or> 0x300 \<le> unat a \<and> (unat c \<le> 0xF0C \<or> 0xF30 \<le> unat a \<and> unat c < 0x10000)"
  shows "store_ok R (unat offset) data"
  using assms by (auto simp: store_ok_def RANGE32_nat)

lemma array_store_returns:
  assumes valid: "access_valid addr fsr" and r: "RANGE32 a c offset" "unat c < 0x1000" "(unat c + 3 - unat a) div 4 < length xs"
  shows "returns (bind_res (emulate_arr_write regs addr fsr xs (GIC_DIST_REGN offset a) s) (\<lambda>x. Ret (f x)))"
proof -
  have le: "unat a \<le> unat offset" "unat offset \<le> unat c + 3" using r(1,2) by (simp_all add: RANGE32_nat)
  then have "(unat offset - unat a) div 4 \<le> (unat c + 3 - unat a) div 4" by (intro div_le_mono) simp
  moreover have "unat (GIC_DIST_REGN offset a) = (unat offset - unat a) div 4"
    using le(1) by (simp add: GIC_DIST_REGN_def unat_div_distrib unat_sub word_le_nat_alt)
  ultimately show ?thesis using emulate_arr_returns [OF valid] r(3) by (fastforce simp: returns_bind)
qed

lemma cpu_store_returns:
  assumes "access_valid addr fsr" "length xs = 1"
  shows "returns (bind_res (emulate_arr_write regs addr fsr xs VCPU_ID s) (\<lambda>x. Ret (f x)))"
  using emulate_arr_returns [OF assms(1), of VCPU_ID xs] assms(2) by (auto simp: returns_bind VCPU_ID_def)

lemma dist_store_returns:
  assumes s: "irq_ok R s" and K: "kernel_ok K" and few: "card (dom R) \<le> 66" and valid: "access_valid (GIC_DIST_PADDR b + offset) fsr"
  shows "returns (dist_reg_store b K VCPU_ID offset fsr m regs s) \<longleftrightarrow> store_ok R (unat offset) (ucast (operand regs fsr s) AND m)"
    (is "_ \<longleftrightarrow> ?ok")
proof -
  let ?addr = "GIC_DIST_PADDR b + offset"
  have get: "fault_get_data regs fsr s = Ret (operand regs fsr s)" using valid by (simp add: access_valid_def fault_get_data_eq)
  have wf: "wf_dist (dist s)" using s irq_invD(2) by (auto simp: irq_ok_def)
  note len = this [unfolded wf_dist_def NUM_VCPUS_def]
  have plain: "returns r = ?ok" if "RANGE32 a c offset" "returns r"
      "unat c \<le> 0xFC \<or> 0x300 \<le> unat a \<and> (unat c \<le> 0xF0C \<or> 0xF30 \<le> unat a \<and> unat c < 0x10000)" for a c and r :: "vmm_state res"
    using store_ok_plain [OF that(1,3)] that(2) by simp
  have reg: "returns (bind_res (emulate_arr_write regs ?addr fsr xs (GIC_DIST_REGN offset a) s) (\<lambda>x. Ret (f x))) = ?ok"
    if "RANGE32 a c offset" "unat c \<le> 0xFC \<or> 0x300 \<le> unat a \<and> unat c \<le> 0xF0C" "(unat c + 3 - unat a) div 4 < length xs"
    for a c xs and f :: "u32 list \<Rightarrow> vmm_state"
    by (rule plain [OF that(1) array_store_returns [OF valid that(1)]]) (use that in auto)
  have bad: "returns (Fault e) = ?ok" if "RANGE32 GIC_DIST_CPENDSGIR0 GIC_DIST_SPENDSGIRN offset" for e :: vmm_error
    using that by (simp add: store_ok_def RANGE32_nat)
  have ctl: "returns (if c then Ret x else if c' then Ret y else Ret s)" for c c' and x y s :: vmm_state by simp
  note bits = isenabler_returns [OF s K few] icenabler_returns [OF s] ispendr_returns [OF s K few] icpendr_returns [OF wf]
  show ?thesis
    unfolding dist_reg_store_def Let_def get bind_res.simps
    by (intro returns_if; (erule bits bad | (erule reg; simp add: len; fail)
      | (erule plain; (rule ctl sgir_returns [OF s K few] | (rule cpu_store_returns [OF valid])?, simp add: len); fail)
      | (simp add: store_ok_def RANGE32_nat not_le; arith)))
qed

end
