(* ===== verification/Progress.thy ===== *)
theory Progress imports Store_Outcomes begin

text \<open>
  When the monitor goes on: for every message of the kernel, whether the fault handler returns or
  stops, as a predicate on the message and the state. The theorem on runs stands in the root
  theory.
\<close>

lemma dist_write_outcome:
  assumes s: "irq_ok R s" and K: "kernel_ok K" "regs_calls_succeed K" and few: "card (dom R) \<le> 66"
  shows "returns (vgic_dist_reg_write b K VCPU_ID offset fsr regs s) \<longleftrightarrow> access_valid (GIC_DIST_PADDR b + offset) fsr \<and>
    store_ok R (unat offset) (ucast (operand regs fsr s) AND selected (GIC_DIST_PADDR b + offset) fsr)"
proof (cases "fault_get_data_mask (GIC_DIST_PADDR b + offset) fsr")
  case (Fault e)
  then show ?thesis using data_mask_returns [of "GIC_DIST_PADDR b + offset" fsr] by (simp add: vgic_dist_reg_write_def)
next
  case (Ret m)
  then have valid: "access_valid (GIC_DIST_PADDR b + offset) fsr" using data_mask_returns [of "GIC_DIST_PADDR b + offset" fsr] by simp
  have "returns (bind_res r (\<lambda>s1. bind_res (fault_advance_vcpu K regs s1) (\<lambda>(err, s2). Ret (\<not> err, s2)))) = returns r"
    for r :: "vmm_state res"
    using K(2) by (cases r) (simp_all add: fault_advance_vcpu_eq)
  with dist_store_returns [OF s K(1) few valid, of "ucast m" regs] Ret valid show ?thesis
    by (simp add: vgic_dist_reg_write_def data_mask_value [OF Ret])
qed

section \<open>The redistributor\<close>

definition redist_register :: "nat \<Rightarrow> bool" where
  "redist_register n \<longleftrightarrow> n < 0xC \<or> 0x14 \<le> n \<and> n < 0x18 \<or> 0xFFD0 \<le> n \<and> n \<le> 0xFFFF \<or> 0x10080 \<le> n \<and> n < 0x10084 \<or>
     0x10C04 \<le> n \<and> n < 0x10C08"

definition redist_overruns :: "nat \<Rightarrow> bool" where
  "redist_overruns n \<longleftrightarrow> n = 0xFFFD \<or> n = 0xFFFE \<or> n = 0xFFFF"

lemma redist_value_outcome:
  assumes wf: "wf_dist d"
  shows "load_result (redist_register (unat offset)) (redist_overruns (unat offset)) (redist_reg_value d r VCPU_ID offset)"
proof -
  note len = wf [unfolded wf_dist_def NUM_VCPUS_def]
  let ?n = "unat offset"
  have some: "load_result (redist_register ?n) (redist_overruns ?n) (Ret (Some x))"
    if "RANGE32 a c offset" "unat c \<le> 8 \<or> unat a = 0x14 \<and> unat c = 0x14" for a c x
    using that by (intro load_result_Some) (auto simp: RANGE32_nat redist_register_def redist_overruns_def)
  have at: "load_result (redist_register ?n) (redist_overruns ?n) (bind_res (read_at ws off) (\<lambda>x. Ret (Some x)))"
    if "RANGE32 a c offset" "unat c < 0x20000" "unat off = unat offset - unat a + k" "redist_register ?n"
      "redist_overruns ?n \<longleftrightarrow> 4 * length ws < ?n - unat a + k + 4" for a c off k and ws :: "u32 list"
  proof -
    have "returns (read_at ws off) \<longleftrightarrow> \<not> redist_overruns ?n" unfolding read_at_outcome that(3,5) by linarith
    with that(4) show ?thesis by (cases "read_at ws off") (simp_all add: load_result_def)
  qed
  have sub: "unat (offset - a) = ?n - unat a" if "RANGE32 a c offset" for a c
    using that by (simp add: RANGE32_def unat_sub)
  have id: "load_result (redist_register ?n) (redist_overruns ?n) (bind_res (read_at [p4, p5, p6, p7, p0, p1, p2, p3, c0, c1, c2, c3]
      (offset - 0xFFD0)) (\<lambda>x. Ret (Some x)))" if r: "RANGE32 0xFFD0 0xFFFC offset" for p0 p1 p2 p3 p4 p5 p6 p7 c0 c1 c2 c3
    using r sub [OF r] by (intro at [OF r, of _ 0]) (auto simp: RANGE32_far redist_register_def redist_overruns_def)
  have grp: "load_result (redist_register ?n) (redist_overruns ?n) (bind_res (read_at (irq_group0 d @ irq_group d)
      (4 * VCPU_ID + (offset - GICR_IGROUPR0))) (\<lambda>x. Ret (Some x)))" if r: "RANGE32 GICR_IGROUPR0 GICR_IGROUPR0 offset"
    using r sub [OF r] len by (intro at [OF r, of _ 0]) (auto simp: VCPU_ID_def RANGE32_far redist_register_def redist_overruns_def)
  have cfg: "load_result (redist_register ?n) (redist_overruns ?n) (bind_res (read_at (config d)
      (4 + (offset - GICR_ICFGR1))) (\<lambda>x. Ret (Some x)))" if r: "RANGE32 GICR_ICFGR1 GICR_ICFGR1 offset"
  proof -
    have "unat (4 + (offset - GICR_ICFGR1)) = ?n - unat GICR_ICFGR1 + 4"
      using r sub [OF r] by (subst unat_add_lem [THEN iffD1]) (auto simp: RANGE32_far)
    with r len show ?thesis by (intro at [OF r, of _ 4]) (auto simp: RANGE32_far redist_register_def redist_overruns_def)
  qed
  show ?thesis
    unfolding redist_reg_value_def Let_def
    by (intro load_if; (erule id grp cfg | (erule some; simp; fail)
      | (simp add: load_result_def RANGE32_far not_le redist_register_def; arith)))
qed

lemma redist_store_returns:
  assumes s: "irq_ok R s" and K: "kernel_ok K" and few: "card (dom R) \<le> 66" and valid: "access_valid (GIC_REDIST_PADDR + offset) fsr"
  shows "returns (redist_reg_store K VCPU_ID offset fsr m regs s)"
proof -
  let ?get = "\<lambda>f. bind_res (fault_get_data regs fsr s) (\<lambda>data. f (ucast data :: u32))"
  have get: "fault_get_data regs fsr s = Ret (operand regs fsr s)" using valid by (simp add: access_valid_def fault_get_data_eq)
  have wf: "wf_dist (dist s)" using s irq_invD(2) by (auto simp: irq_ok_def)
  note len = wf [unfolded wf_dist_def NUM_VCPUS_def]
  have loop: "returns (ctz_loop (\<lambda>i. f (int i)) data s)"
    if "\<And>irq s. 0 \<le> irq \<Longrightarrow> irq_ok R s \<Longrightarrow> if irq < 992 then \<exists>s'. f irq s = Ret s' \<and> irq_ok R s' else \<exists>e. f irq s = Fault e"
    for f data
    unfolding ctz_loop_eq
    by (subst for_each_returns [where I = "irq_ok R" and ok = "\<lambda>i. int i < 992"]) (use that s in auto)
  have en: "returns (?get (\<lambda>data. ctz_loop (\<lambda>i. vgic_dist_enable_irq Imx8mm_evk K VCPU_ID (int i)) (data AND m) s))"
    unfolding get bind_res.simps by (rule loop [OF enable_outcome [OF _ K few]])
  have dis: "returns (?get (\<lambda>data. ctz_loop (\<lambda>i s. bind_res (set_enable (dist s) (int i) False (to_c_int VCPU_ID))
      (\<lambda>d. Ret (s\<lparr>dist := d\<rparr>))) (data AND m) s))"
    unfolding get bind_res.simps using loop [OF clear_enable_outcome] by simp
  show ?thesis unfolding redist_reg_store_def Let_def using en dis get len by (auto intro: cpu_store_returns [OF valid])
qed

definition redist_ok :: "u64 \<Rightarrow> u64 \<Rightarrow> bool" where
  "redist_ok offset fsr \<longleftrightarrow> unat offset < 0xC0000 \<and>
     (if fault_is_read fsr then redist_register (unat offset) \<longrightarrow>
        \<not> redist_overruns (unat offset) \<and> access_valid (GIC_REDIST_PADDR + offset) fsr
      else access_valid (GIC_REDIST_PADDR + offset) fsr)"

lemma redist_fault_returns:
  assumes s: "irq_ok R s" and K: "kernel_ok K" "regs_calls_succeed K" and few: "card (dom R) \<le> 66" and a: "GIC_REDIST_PADDR \<le> addr"
  shows "returns (handle_vgic_redist_fault K VCPU_ID addr fsr regs s) \<longleftrightarrow> redist_ok (addr - GIC_REDIST_PADDR) fsr"
proof -
  let ?off = "addr - GIC_REDIST_PADDR" and ?a = addr
  have wf: "wf_dist (dist s)" using s irq_invD(2) by (auto simp: irq_ok_def)
  have rd: "returns (handle_vgic_redist_read_fault K VCPU_ID ?off fsr regs s) \<longleftrightarrow>
      (redist_register (unat ?off) \<longrightarrow> \<not> redist_overruns (unat ?off) \<and> access_valid ?a fsr)"
    using redist_value_outcome [OF wf, of ?off "redist s"]
    by (cases "redist_reg_value (dist s) (redist s) VCPU_ID ?off" rule: res.exhaust)
      (auto simp: handle_vgic_redist_read_fault_def load_result_def returns_not_err masked_advance_returns [OF K(2)] Let_def advance_vcpu_returns [OF K(2)] split: option.splits)
  have wr: "returns (handle_vgic_redist_write_fault K VCPU_ID ?off fsr regs s) \<longleftrightarrow> access_valid ?a fsr"
  proof (cases "fault_get_data_mask ?a fsr")
    case (Fault e)
    then show ?thesis using data_mask_returns [of ?a fsr] by (simp add: handle_vgic_redist_write_fault_def)
  next
    case (Ret m)
    then have valid: "access_valid ?a fsr" using data_mask_returns [of ?a fsr] by simp
    from redist_store_returns [OF s K(1) few, of ?off fsr "ucast m" regs] valid obtain s1 where
      "redist_reg_store K VCPU_ID ?off fsr (ucast m) regs s = Ret s1" by (auto simp: returns_def)
    with Ret valid K(2) show ?thesis by (simp add: handle_vgic_redist_write_fault_def fault_advance_vcpu_eq)
  qed
  show ?thesis
    using a rd wr by (simp add: handle_vgic_redist_fault_def redist_ok_def Let_def returns_assert word_less_nat_alt GIC_REDIST_SIZE_def)
qed

section \<open>Messages that stop the monitor\<close>

definition access_ok :: "board \<Rightarrow> (int \<rightharpoonup> virq_handle) \<Rightarrow> u64 \<Rightarrow> u64 \<Rightarrow> u64 \<Rightarrow> bool" where
  "access_ok b R addr fsr data \<longleftrightarrow>
     (let page = addr AND NOT (0x1000 - 1); offset = addr - GIC_DIST_PADDR b in
      if GIC_DIST_PADDR b \<le> page \<and> page \<le> GIC_DIST_PADDR b + GIC_DIST_SIZE b then
        (if fault_is_read fsr then load_ok b offset fsr
         else access_valid addr fsr \<and> store_ok R (unat offset) (ucast data AND selected addr fsr))
      else gic_version_of b = GIC_V3 \<and> GIC_REDIST_PADDR \<le> page \<and> page \<le> GIC_REDIST_PADDR + GIC_REDIST_SIZE \<and>
        redist_ok (addr - GIC_REDIST_PADDR) fsr)"

definition accepted :: "board \<Rightarrow> (int \<rightharpoonup> virq_handle) \<Rightarrow> kernel \<Rightarrow> int \<Rightarrow> u64 \<Rightarrow> vmm_state \<Rightarrow> bool" where
  "accepted b R K err0 msginfo s \<longleftrightarrow>
     (case k_msginfo_label K msginfo of
        seL4_Fault_VMFault \<Rightarrow>
          (let fsr = k_mr_get K (trace s) seL4_VMFault_FSR in
           access_ok b R (k_mr_get K (trace s) seL4_VMFault_Addr) fsr (operand (snd (k_read_registers K (trace s))) fsr s))
      | seL4_Fault_VGICMaintenance \<Rightarrow> maintenance_ok K err0 s
      | seL4_Fault_VPPIEvent \<Rightarrow>
          (let irq = to_c_int (k_mr_get K (trace s) seL4_VPPIEvent_IRQ) in 0 \<le> irq \<and> (irq < 32 \<or> R irq \<noteq> None))
      | _ \<Rightarrow> True)"

lemma page_le: "addr AND NOT (0x1000 - 1) \<le> (addr :: u64)"
  by (rule word_and_le2)

lemma vm_fault_returns:
  assumes s: "irq_ok R s" and K: "kernel_ok K" "regs_calls_succeed K" and few: "card (dom R) \<le> 66"
    and wf: "wf_dist_v2 (dist_v2 (dist s))" "wf_dist_v3 (dist_v3 (dist s))"
  shows "returns (handle_vm_fault b K s) \<longleftrightarrow> access_ok b R (k_mr_get K (trace s) seL4_VMFault_Addr)
    (k_mr_get K (trace s) seL4_VMFault_FSR) (operand (snd (k_read_registers K (trace s))) (k_mr_get K (trace s) seL4_VMFault_FSR) s)"
proof -
  let ?addr = "k_mr_get K (trace s) seL4_VMFault_Addr" and ?fsr = "k_mr_get K (trace s) seL4_VMFault_FSR"
  let ?page = "?addr AND NOT (0x1000 - 1)" and ?regs = "snd (k_read_registers K (trace s))"
  have wfd: "wf_dist (dist s)" using s irq_invD(2) by (auto simp: irq_ok_def)
  have read: "fst (k_read_registers K (trace s)) = seL4_NoError" using K(2) by (simp add: regs_calls_succeed_def)
  have dist: "returns (handle_vgic_dist_fault b K VCPU_ID ?addr ?fsr ?regs s) \<longleftrightarrow>
      (if fault_is_read ?fsr then load_ok b (?addr - GIC_DIST_PADDR b) ?fsr
       else access_valid ?addr ?fsr \<and> store_ok R (unat (?addr - GIC_DIST_PADDR b)) (ucast (operand ?regs ?fsr s) AND selected ?addr ?fsr))"
    if "GIC_DIST_PADDR b \<le> ?page"
    using order_trans [OF that page_le] dist_read_returns [OF wfd wf K(2)] dist_write_outcome [OF s K few, of b "?addr - GIC_DIST_PADDR b"]
    by (simp add: handle_vgic_dist_fault_def Let_def)
  have redist: "returns (handle_vgic_redist_fault K VCPU_ID ?addr ?fsr ?regs s) \<longleftrightarrow> redist_ok (?addr - GIC_REDIST_PADDR) ?fsr"
    if "GIC_REDIST_PADDR \<le> ?page" by (rule redist_fault_returns [OF s K few order_trans [OF that page_le]])
  show ?thesis
    using read dist redist by (auto simp: handle_vm_fault_def access_ok_def Let_def case_prod_unfold)
qed

lemma vppi_returns:
  assumes s: "irq_ok R s" and K: "kernel_ok K" and few: "card (dom R) \<le> 66"
  shows "returns (handle_vppi_event b K s) \<longleftrightarrow>
    (let irq = to_c_int (k_mr_get K (trace s) seL4_VPPIEvent_IRQ) in 0 \<le> irq \<and> (irq < 32 \<or> R irq \<noteq> None))"
proof -
  have "k_ack_vppi K t i = seL4_NoError" for t i using K by (simp add: kernel_ok_def ack_succeeds_def)
  with inject_outcome [OF assms, of "to_c_int (k_mr_get K (trace s) seL4_VPPIEvent_IRQ)" b] show ?thesis
    by (auto simp: handle_vppi_event_def Let_def split: if_splits)
qed

lemma smc_returns: "regs_calls_succeed K \<Longrightarrow> returns (handle_smc K hsr s)" for s :: vmm_state
  by (auto simp: handle_smc_def smc_get_call_eq handle_psci_def fault_advance_vcpu_eq regs_calls_succeed_def Let_def case_prod_unfold
      split: smc_call_id_t.split)

lemma fault_returns:
  assumes s: "irq_ok R s" and K: "kernel_ok K" "regs_calls_succeed K" and few: "card (dom R) \<le> 4"
    and wf: "wf_dist_v2 (dist_v2 (dist s))" "wf_dist_v3 (dist_v3 (dist s))"
  shows "returns (fault b K err0 vm msginfo s) \<longleftrightarrow> accepted b R K err0 msginfo s"
proof -
  have few': "card (dom R) \<le> 66" using few by simp
  have forget: "returns (bind_res r (\<lambda>(_, s'). Ret s')) = returns r" for r :: "(bool \<times> vmm_state) res"
    by (cases r) (simp_all split: prod.split)
  have "returns (handle_unknown_syscall K s)" "returns (handle_user_exception K s)"
    using K(2) by (simp_all add: handle_unknown_syscall_def handle_user_exception_def regs_calls_succeed_def Let_def case_prod_unfold seL4_NoError_def)
  moreover have "returns (handle_vcpu_fault K s)" using smc_returns [OF K(2)] by (simp add: handle_vcpu_fault_def Let_def)
  moreover have "returns (handle_vgic_maintenance b K err0 s) \<longleftrightarrow> maintenance_ok K err0 s"
    using maintenance_outcome [OF s K(1) few, of err0 b] by (auto split: if_splits)
  ultimately show ?thesis
    using vm_fault_returns [OF s K few' wf, of b] vppi_returns [OF s K(1) few', of b]
    by (simp add: fault_def accepted_def forget Let_def split: fault_label.split)
qed

section \<open>Runs\<close>

lemma run_fault_returns:
  assumes "booted b s0" "(vmm_step b)\<^sup>*\<^sup>* s0 s" "kernel_ok K" "regs_calls_succeed K"
  shows "returns (fault b K err0 vm msginfo s) \<longleftrightarrow> accepted b (boot_table b) K err0 msginfo s"
proof -
  have "wf_dist_v2 (dist_v2 (dist s))" "wf_dist_v3 (dist_v3 (dist s))"
    using constant_registers.run_inv [OF assms(1,2)] by (simp_all add: ids_def)
  then show ?thesis by (rule fault_returns [OF monitor.run_inv [OF assms(1,2)] assms(3,4) card_boot_table])
qed

lemma run_notified_returns:
  assumes "booted b s0" "(vmm_step b)\<^sup>*\<^sup>* s0 s" "kernel_ok K"
  shows "returns (notified b K ch s)"
proof -
  have "card (dom (boot_table b)) \<le> 66" using card_boot_table [of b] by simp
  from inject_outcome [OF monitor.run_inv [OF assms(1,2)] assms(3) this, of "SERIAL_IRQ b" b] SERIAL_IRQ_bounds [of b]
  show ?thesis by (auto simp: notified_def boot_table_def)
qed

end
