(* ===== verification/Cycle.thy ===== *)
theory Cycle imports Runs begin

text \<open>
  The life of a device interrupt across the parts of the monitor: the guest's two stores that
  switch the controller and the interrupt on, the notification that injects it, and the
  maintenance interrupt that ends it (the handlers of src/vmm.c, src/vgic/vdist.h and
  src/vgic/vgic.c run one after the other). The lemmas say that each of these faults returns and
  what it leaves; the theorem on the whole cycle stands in the root theory.
\<close>

text \<open>A fault on the distributor's page, on a store.\<close>

definition dist_store :: "board \<Rightarrow> kernel \<Rightarrow> u64 \<Rightarrow> u64 \<Rightarrow> vmm_state \<Rightarrow> bool" where
  "dist_store b K msginfo offset s \<longleftrightarrow> k_msginfo_label K msginfo = seL4_Fault_VMFault \<and>
     k_mr_get K (trace s) seL4_VMFault_Addr = GIC_DIST_PADDR b + offset \<and>
     word_access (k_mr_get K (trace s) seL4_VMFault_FSR) \<and> \<not> fault_is_read (k_mr_get K (trace s) seL4_VMFault_FSR)"

definition stored :: "kernel \<Rightarrow> vmm_state \<Rightarrow> u32" where
  "stored K s = ucast (operand (snd (k_read_registers K (trace s))) (k_mr_get K (trace s) seL4_VMFault_FSR) s)"

text \<open>A kernel that reports one store of a word to a given address.\<close>

definition store_kernel :: "u64 \<Rightarrow> u64 \<Rightarrow> kernel" where
  "store_kernel addr v = demo_kernel (zero_ctx\<lparr>x5 := v\<rparr>)
     (\<lambda>r. if r = seL4_VMFault_Addr then addr else if r = seL4_VMFault_FSR then 0x1850040 else 0) (\<lambda>_. seL4_Fault_VMFault)"

section \<open>A notification and its maintenance interrupt\<close>

text \<open>A deliverable interrupt is injected at once into a free list register, with its handle.\<close>

lemma irq_injected:
  assumes ok: "irq_ok R s" and few: "card (dom R) \<le> 4" and K: "kernel_ok K" and h: "R irq = Some h"
    and del: "deliverable b irq s" "\<not> pending (dist s) irq"
  shows "\<exists>i s'. free_lr (vgic s) = Some i \<and> i < 4 \<and> a_lrs (irq_abs_of b s) ! i = None \<and>
     vgic_inject_irq b K VCPU_ID irq s = Ret (True, s') \<and> irq_ok R s' \<and>
     irq_abs_of b s' = (irq_abs_of b s)\<lparr>a_lrs := (a_lrs (irq_abs_of b s))[i := Some irq]\<rparr> \<and>
     lr_shadow (vcpu0 (vgic s')) ! i = h \<and>
     trace s' = trace s @ [Ev_InjectIRQ VM_ID irq 0 (irq_inject_group b) (int i)]"
proof -
  have inv: "irq_inv s" and reg: "registered (vgic s) VCPU_ID = R" using ok by (simp_all add: irq_ok_def)
  note wf = irq_invD(1) [OF inv]
  have "card (known_irqs (vgic s)) \<le> 4" using few irq_ok_known [OF ok] by simp
  from few_irqs_free_lr [OF inv _ del(2) this] del(1) obtain i where i: "free_lr (vgic s) = Some i"
    by (auto simp: deliverable_def)
  have i4: "i < 4" "length (lr_shadow (vcpu0 (vgic s))) = 4" "a_lrs (irq_abs_of b s) ! i = None"
    using free_lr_SomeD [OF wf i] wf_vgic_vcpu0 [OF wf] by (auto simp: lr_irq_def wf_vcpu_def irq_abs_of_def)
  have Ki: "inject_succeeds K" using K by (simp add: kernel_ok_def)
  from inject_into_list_register [OF inv del i Ki] inject_list_register_refines [OF inv del i Ki] h reg i4(1,2)
  obtain s' where s': "vgic_inject_irq b K VCPU_ID irq s = Ret (True, s')"
    "irq_abs_of b s' = (irq_abs_of b s)\<lparr>a_lrs := (a_lrs (irq_abs_of b s))[i := Some irq]\<rparr>"
    "lr_shadow (vcpu0 (vgic s')) ! i = h" "trace s' = trace s @ [Ev_InjectIRQ VM_ID irq 0 (irq_inject_group b) (int i)]"
    by auto
  have "keeps snd (irq_ok R) (vgic_inject_irq b K VCPU_ID irq s)" using few by (intro inject_keeps ok K) simp
  from keepsD [OF this s'(1)] have "irq_ok R s'" by simp
  with i i4(1,3) s' show ?thesis by blast
qed

text \<open>The maintenance interrupt for a list register empties it and acknowledges the interrupt.\<close>

lemma irq_finished:
  assumes ok: "irq_ok R s" and few: "card (dom R) \<le> 4" and K: "kernel_ok K"
    and L: "k_msginfo_label K msginfo = seL4_Fault_VGICMaintenance" and i: "maintained K s = i" "i < 4"
    and h: "lr_shadow (vcpu0 (vgic s)) ! i = h" "virq h \<noteq> VIRQ_INVALID"
    and a: "(irq_abs_of b s)\<lparr>a_lrs := (a_lrs (irq_abs_of b s))[i := None]\<rparr> = a"
  shows "if err0 = 0
     then \<exists>s'. fault b K err0 vm msginfo s = Ret s' \<and> irq_ok R s' \<and> irq_abs_of b s' = ack_abs b h a \<and>
       trace s' = trace s @ ack_events b h a @ [Ev_Send 4 0 0]
     else fault b K err0 vm msginfo s = Fault Assert_failed"
proof -
  have inv: "irq_inv s" using ok by (simp add: irq_ok_def)
  have Ks: "ack_succeeds K" "inject_succeeds K" using K by (simp_all add: kernel_ok_def)
  have "maintained K s < 4" "virq (lr_shadow (vcpu0 (vgic s)) ! maintained K s) \<noteq> VIRQ_INVALID"
    "lr_shadow (vcpu0 (vgic s)) ! maintained K s = h" using h i by simp_all
  note run = maintenance_run [OF inv this(1,2) irq_ok_waiting [OF ok few] Ks this(3) a [folded i(1)], of err0]
  have f: "fault b K err0 vm msginfo s = bind_res (handle_vgic_maintenance b K err0 s) (\<lambda>(_, s'). Ret s')"
    using L by (simp add: fault_def)
  show ?thesis
  proof (cases "err0 = 0")
    case True
    with run f obtain s' where s': "fault b K err0 vm msginfo s = Ret s'" "irq_abs_of b s' = ack_abs b h a"
      "trace s' = trace s @ ack_events b h a @ [Ev_Send 4 0 0]" by auto
    have "\<not> icpendr_store b K msginfo s" using L by (simp add: icpendr_store_def)
    then have "irq_ok R s'" by (rule keepsD [OF irq_fault_keeps [OF ok K few] s'(1)])
    with s' True show ?thesis by auto
  qed (use run f in simp)
qed

lemma slot_restored: "xs ! i = None \<Longrightarrow> xs[i := None] = xs"
  using list_update_id [of xs i] by simp

text \<open>What the maintenance interrupt of the serial interrupt adds to the trace, before the reply.\<close>

definition serial_ack_events :: "board \<Rightarrow> irq_abs \<Rightarrow> event list" where
  "serial_ack_events b a =
     (case b of
        Qemu_arm_virt_hyp \<Rightarrow> [Ev_IrqAck SERIAL_IRQ_CH]
      | Odroidc2 \<Rightarrow> Ev_IrqAck SERIAL_IRQ_CH # inject_events b 1 a
      | Imx8mm_evk \<Rightarrow> [])"

lemma serial_cycle:
  assumes ok: "irq_ok (boot_table b) s" and K: "kernel_ok K" "kernel_ok K'"
    and del: "deliverable b (SERIAL_IRQ b) s" "\<not> pending (dist s) (SERIAL_IRQ b)"
    and L: "k_msginfo_label K' msginfo = seL4_Fault_VGICMaintenance"
  shows "\<exists>i s1. free_lr (vgic s) = Some i \<and> notified b K SERIAL_IRQ_CH s = Ret s1 \<and>
     trace s1 = trace s @ [Ev_InjectIRQ VM_ID (SERIAL_IRQ b) 0 (irq_inject_group b) (int i)] \<and>
     (maintained K' s1 = i \<longrightarrow>
       (if err0 = 0
        then \<exists>s2. fault b K' err0 vm msginfo s1 = Ret s2 \<and> irq_ok (boot_table b) s2 \<and>
          irq_abs_of b s2 = (if b = Odroidc2 then snd (a_inject 1 (irq_abs_of b s)) else irq_abs_of b s) \<and>
          trace s2 = trace s1 @ serial_ack_events b (irq_abs_of b s) @ [Ev_Send 4 0 0]
        else fault b K' err0 vm msginfo s1 = Fault Assert_failed))"
proof -
  let ?h = "\<lparr>virq = SERIAL_IRQ b, ack_fn = Some Serial_ack, ack_data = 0\<rparr>"
  have "boot_table b (SERIAL_IRQ b) = Some ?h" by (simp add: boot_table_def)
  from irq_injected [OF ok card_boot_table K(1) this del] obtain i s1 where
    i: "free_lr (vgic s) = Some i" "i < 4" "a_lrs (irq_abs_of b s) ! i = None" and
    s1: "vgic_inject_irq b K VCPU_ID (SERIAL_IRQ b) s = Ret (True, s1)" "irq_ok (boot_table b) s1"
    "irq_abs_of b s1 = (irq_abs_of b s)\<lparr>a_lrs := (a_lrs (irq_abs_of b s))[i := Some (SERIAL_IRQ b)]\<rparr>"
    "lr_shadow (vcpu0 (vgic s1)) ! i = ?h"
    "trace s1 = trace s @ [Ev_InjectIRQ VM_ID (SERIAL_IRQ b) 0 (irq_inject_group b) (int i)]" by blast
  have "notified b K SERIAL_IRQ_CH s = Ret s1" using s1(1) by (simp add: notified_def)
  moreover have "if err0 = 0
      then \<exists>s2. fault b K' err0 vm msginfo s1 = Ret s2 \<and> irq_ok (boot_table b) s2 \<and>
        irq_abs_of b s2 = (if b = Odroidc2 then snd (a_inject 1 (irq_abs_of b s)) else irq_abs_of b s) \<and>
        trace s2 = trace s1 @ serial_ack_events b (irq_abs_of b s) @ [Ev_Send 4 0 0]
      else fault b K' err0 vm msginfo s1 = Fault Assert_failed"
    if m: "maintained K' s1 = i"
  proof -
    have "virq ?h \<noteq> VIRQ_INVALID" using SERIAL_IRQ_bounds [of b] by simp
    moreover have "(irq_abs_of b s1)\<lparr>a_lrs := (a_lrs (irq_abs_of b s1))[i := None]\<rparr> = irq_abs_of b s"
      unfolding s1(3) by (simp add: slot_restored [OF i(3)])
    ultimately have f: "if err0 = 0
       then \<exists>s2. fault b K' err0 vm msginfo s1 = Ret s2 \<and> irq_ok (boot_table b) s2 \<and>
         irq_abs_of b s2 = ack_abs b ?h (irq_abs_of b s) \<and>
         trace s2 = trace s1 @ ack_events b ?h (irq_abs_of b s) @ [Ev_Send 4 0 0]
       else fault b K' err0 vm msginfo s1 = Fault Assert_failed"
      by (rule irq_finished [OF s1(2) card_boot_table K(2) L m i(2) s1(4)])
    have ack: "ack_events b ?h a = serial_ack_events b a" "ack_abs b ?h a = (if b = Odroidc2 then snd (a_inject 1 a) else a)" for a
      by (cases b; simp add: ack_events_def serial_ack_events_def ack_abs_def)+
    from f show ?thesis unfolding ack .
  qed
  ultimately show ?thesis using i(1) s1(5) by blast
qed

lemma timer_cycle:
  assumes ok: "irq_ok (boot_table b) s" and K: "kernel_ok K" "kernel_ok K'"
    and del: "deliverable b PPI_VTIMER_IRQ s" "\<not> pending (dist s) PPI_VTIMER_IRQ"
    and E: "k_msginfo_label K event = seL4_Fault_VPPIEvent" "k_mr_get K (trace s) seL4_VPPIEvent_IRQ = 27"
    and L: "k_msginfo_label K' msginfo = seL4_Fault_VGICMaintenance"
  shows "\<exists>i s1. free_lr (vgic s) = Some i \<and> fault b K err vm event s = Ret s1 \<and>
     trace s1 = trace s @ [Ev_InjectIRQ VM_ID PPI_VTIMER_IRQ 0 (irq_inject_group b) (int i), Ev_Send 4 0 0] \<and>
     (maintained K' s1 = i \<longrightarrow>
       (if err0 = 0
        then \<exists>s2. fault b K' err0 vm msginfo s1 = Ret s2 \<and> irq_abs_of b s2 = irq_abs_of b s \<and>
          irq_ok (boot_table b) s2 \<and> trace s2 = trace s1 @ [Ev_AckVPPI VM_ID 27, Ev_Send 4 0 0]
        else fault b K' err0 vm msginfo s1 = Fault Assert_failed))"
proof -
  let ?h = "\<lparr>virq = 27, ack_fn = Some Vppi_event_ack, ack_data = 0\<rparr>"
  have irq: "to_c_int 27 = 27" by (simp add: to_c_int_small)
  have "boot_table b 27 = Some ?h" using SERIAL_IRQ_bounds [of b] by (simp add: boot_table_def)
  from irq_injected [OF ok card_boot_table K(1) this del] obtain i s1 where
    i: "free_lr (vgic s) = Some i" "i < 4" "a_lrs (irq_abs_of b s) ! i = None" and
    s1: "vgic_inject_irq b K VCPU_ID 27 s = Ret (True, s1)" "irq_ok (boot_table b) s1"
    "irq_abs_of b s1 = (irq_abs_of b s)\<lparr>a_lrs := (a_lrs (irq_abs_of b s))[i := Some 27]\<rparr>"
    "lr_shadow (vcpu0 (vgic s1)) ! i = ?h"
    "trace s1 = trace s @ [Ev_InjectIRQ VM_ID 27 0 (irq_inject_group b) (int i)]" by blast
  let ?s1 = "reply_to_fault s1"
  have r: "irq_ok (boot_table b) ?s1" "irq_abs_of b ?s1 = irq_abs_of b s1" "vgic ?s1 = vgic s1" "trace ?s1 = trace s1 @ [Ev_Send 4 0 0]"
    using s1(2) by (simp_all add: irq_abs_of_def reply_to_fault_def emit_def)
  have "fault b K err vm event s = Ret ?s1" using s1(1) E irq by (simp add: fault_def handle_vppi_event_def)
  moreover have "if err0 = 0
      then \<exists>s2. fault b K' err0 vm msginfo ?s1 = Ret s2 \<and> irq_abs_of b s2 = irq_abs_of b s \<and> irq_ok (boot_table b) s2 \<and>
        trace s2 = trace ?s1 @ [Ev_AckVPPI VM_ID 27, Ev_Send 4 0 0]
      else fault b K' err0 vm msginfo ?s1 = Fault Assert_failed" if m: "maintained K' ?s1 = i"
  proof -
    have "(irq_abs_of b ?s1)\<lparr>a_lrs := (a_lrs (irq_abs_of b ?s1))[i := None]\<rparr> = irq_abs_of b s"
      unfolding r(2) s1(3) by (simp add: slot_restored [OF i(3)])
    note f = irq_finished [OF r(1) card_boot_table K(2) L m i(2) _ _ this, of ?h err0 vm]
    show ?thesis using f s1(4) by (cases "err0 = 0") (auto simp: ack_events_def ack_abs_def r(3))
  qed
  ultimately show ?thesis using i(1) s1(5) r(4) by auto
qed

section \<open>The guest switches the controller on\<close>

lemma unat_page: "unat (w AND NOT (0x1000 - 1) :: u64) = unat w div 4096 * 4096"
proof -
  have m: "(0x1000 - 1 :: u64) = mask 12" by (simp add: mask_eq_exp_minus_1)
  have "w AND NOT (0x1000 - 1) = push_bit 12 (drop_bit 12 w)"
    unfolding m by (rule bit_word_eqI) (auto simp: bit_simps)
  moreover have "unat w div 4096 * 4096 < 2 ^ 64" by (rule le_less_trans [OF div_times_less_eq_dividend]) (use unsigned_less [of w, where 'a = nat] in simp)
  ultimately show ?thesis
    by (simp only: unsigned_push_bit_eq unsigned_drop_bit_eq) (simp add: push_bit_eq_mult drop_bit_eq_div take_bit_nat_eq_self)
qed

lemma dist_page_bounds:
  assumes "unat offset < 0x1000"
  shows "unat (GIC_DIST_PADDR b + offset) = unat (GIC_DIST_PADDR b) + unat offset"
    "GIC_DIST_PADDR b \<le> GIC_DIST_PADDR b + offset" "(GIC_DIST_PADDR b + offset) AND NOT (0x1000 - 1) = GIC_DIST_PADDR b"
proof -
  have P: "unat (GIC_DIST_PADDR b) < 2 ^ 40" "unat (GIC_DIST_PADDR b) div 4096 * 4096 = unat (GIC_DIST_PADDR b)"
    by (cases b; simp add: GIC_DIST_PADDR_def)+
  show u: "unat (GIC_DIST_PADDR b + offset) = unat (GIC_DIST_PADDR b) + unat offset"
    using P(1) assms by (subst unat_add_lem [THEN iffD1]) simp_all
  then show "GIC_DIST_PADDR b \<le> GIC_DIST_PADDR b + offset" by (simp add: word_le_nat_alt)
  obtain q where q: "unat (GIC_DIST_PADDR b) = q * 4096" using P(2) by metis
  have "(unat (GIC_DIST_PADDR b) + unat offset) div 4096 * 4096 = unat (GIC_DIST_PADDR b)"
    using assms unfolding q by simp
  then show "(GIC_DIST_PADDR b + offset) AND NOT (0x1000 - 1) = GIC_DIST_PADDR b"
    unfolding word_unat_eq_iff unat_page u .
qed

lemma dist_store_fault:
  assumes st: "dist_store b K msginfo offset s" and K: "regs_calls_succeed K" and off: "unat offset < 0x1000"
  shows "fault b K err vm msginfo s =
    bind_res (vgic_dist_reg_write b K VCPU_ID offset (k_mr_get K (trace s) seL4_VMFault_FSR)
      (snd (k_read_registers K (trace s))) s) (\<lambda>(_, s'). Ret s')"
proof -
  let ?P = "GIC_DIST_PADDR b"
  note P = dist_page_bounds(2,3) [OF off, of b]
  have "?P \<le> ?P + GIC_DIST_SIZE b" by (cases b) (simp_all add: GIC_DIST_PADDR_def GIC_DIST_SIZE_def)
  moreover have "fst (k_read_registers K (trace s)) = seL4_NoError" using K by (simp add: regs_calls_succeed_def)
  ultimately show ?thesis
    using st P by (simp add: fault_def handle_vm_fault_def handle_vgic_dist_fault_def dist_store_def Let_def case_prod_unfold)
qed

text \<open>
  The guest's driver: one store to the control register, then one to the set-enable register that
  names the interrupt. Both return, and the interrupt can be delivered.
\<close>

lemma icpendr_not: "RANGE32 GIC_DIST_ICPENDR0 GIC_DIST_ICPENDRN offset \<Longrightarrow> 0x280 \<le> unat offset"
  by (simp add: RANGE32_nat)

lemma dist_store_step:
  assumes "dist_store b K m offset s" "kernel_ok K" "fault b K err vm m s = Ret s'" "unat offset < 0x280"
  shows "vmm_step b s s'"
  using assms icpendr_not [of offset] by (intro step_fault [where msginfo = m]) (auto simp: icpendr_store_def dist_store_def)

lemma ctlr_fault:
  assumes ok: "irq_ok R s" and K: "kernel_ok K" "regs_calls_succeed K"
    and st: "dist_store b K m 0 s" "stored K s = GIC_ENABLED b"
  shows "\<exists>s'. fault b K err vm m s = Ret s' \<and> vmm_step b s s' \<and> vgic s' = vgic s \<and> vgic_dist_is_enabled b (dist s')"
proof -
  have "irq_inv s" using ok by (simp add: irq_ok_def)
  moreover have "word_access (k_mr_get K (trace s) seL4_VMFault_FSR)" using st(1) by (simp add: dist_store_def)
  ultimately obtain s' where
    s': "vgic_dist_reg_write b K VCPU_ID 0 (k_mr_get K (trace s) seL4_VMFault_FSR) (snd (k_read_registers K (trace s))) s = Ret (True, s')"
    "vgic s' = vgic s" "vgic_dist_is_enabled b (dist s')"
    using ctlr_store_switches [of s "k_mr_get K (trace s) seL4_VMFault_FSR" K b "snd (k_read_registers K (trace s))"] K(2) st(2)
    by (auto simp: stored_def Let_def)
  then have "fault b K err vm m s = Ret s'" by (simp add: dist_store_fault [OF st(1) K(2)])
  then show ?thesis using s'(2,3) dist_store_step [OF st(1) K(1)] by auto
qed

lemma isenabler_fault:
  assumes ok: "irq_ok R s" and few: "card (dom R) \<le> 66" and K: "kernel_ok K" "regs_calls_succeed K"
    and st: "dist_store b K m offset s" "unat offset = 0x100 + 4 * r" "r < 31" "irq \<in> named_irqs r (stored K s)"
    and irq: "R irq \<noteq> None" "vgic_dist_is_enabled b (dist s)"
  shows "\<exists>s'. fault b K err vm m s = Ret s' \<and> vmm_step b s s' \<and> deliverable b irq s'"
proof -
  have inv: "irq_inv s" "registered (vgic s) VCPU_ID = R" using ok by (simp_all add: irq_ok_def)
  have few': "card (known_irqs (vgic s)) \<le> 66" using few irq_ok_known [OF ok] by simp
  have Ks: "inject_succeeds K" "ack_succeeds K" using K(1) by (simp_all add: kernel_ok_def)
  have w: "word_access (k_mr_get K (trace s) seL4_VMFault_FSR)" using st(1) by (simp add: dist_store_def)
  from isenabler_store_run [OF inv(1) few' Ks K(2) w st(2,3), of b "snd (k_read_registers K (trace s))"] st(4) obtain s' where
    s': "vgic_dist_reg_write b K VCPU_ID offset (k_mr_get K (trace s) seL4_VMFault_FSR) (snd (k_read_registers K (trace s))) s = Ret (True, s')"
    "registered (vgic s') VCPU_ID = registered (vgic s) VCPU_ID" "ctlr (dist s') = ctlr (dist s)" "enabled (dist s') irq"
    by (auto simp: stored_def)
  have on: "vgic_dist_is_enabled b (dist s')" using irq(2) unfolding vgic_dist_is_enabled_def s'(3) .
  have off: "unat offset < 0x1000" "unat offset < 0x280" using st(2,3) by simp_all
  have f: "fault b K err vm m s = Ret s'" by (simp add: dist_store_fault [OF st(1) K(2) off(1)] s'(1))
  show ?thesis
    using f dist_store_step [OF st(1) K(1) f off(2)] s'(2,4) on irq(1) inv(2) by (auto simp: deliverable_def)
qed

section \<open>A run in which the serial interrupt can be delivered\<close>

lemma map_filter_update_None:
  assumes "distinct (List.map_filter id xs)" "i < length xs" "xs ! i = Some k"
  shows "k \<notin> set (List.map_filter id (xs[i := None]))"
proof -
  have "List.map_filter id xs = List.map_filter id (take i xs @ Some k # drop (Suc i) xs)"
    using id_take_nth_drop [OF assms(2)] assms(3) by simp
  also have "\<dots> = List.map_filter id (take i xs) @ k # List.map_filter id (drop (Suc i) xs)"
    by (simp add: map_filter_append List.map_filter_simps)
  finally have "List.map_filter id xs = List.map_filter id (take i xs) @ k # List.map_filter id (drop (Suc i) xs)" .
  moreover have "List.map_filter id (xs[i := None]) = List.map_filter id (take i xs) @ List.map_filter id (drop (Suc i) xs)"
    using assms(2) by (simp add: upd_conv_take_nth_drop map_filter_append map_filter_simps)
  ultimately show ?thesis using assms(1) by simp
qed

lemma maintained_demo: "i < 4 \<Longrightarrow> maintained (demo_kernel c (\<lambda>_. of_nat i) l) s = i"
  by (simp add: maintained_def unat_of_nat)

lemma run_free_lr:
  assumes "booted b s0" "(vmm_step b)\<^sup>*\<^sup>* s0 s" "free_lr (vgic s) = Some i"
  shows "maintained (demo_kernel c (\<lambda>_. of_nat i) l) s' = i"
  using free_lr_SomeD(1) [OF _ assms(3)] irq_invD(1) monitor.run_inv [OF assms(1,2)] by (auto simp: irq_ok_def maintained_demo)

text \<open>An interrupt that is pending can be finished: there is a maintenance interrupt that clears it.\<close>

lemma pending_can_finish:
  assumes ok: "irq_ok R s" and few: "card (dom R) \<le> 4" and k: "pending (dist s) k" and b: "b \<noteq> Odroidc2"
  obtains s' where "vmm_step b s s'" "\<not> pending (dist s') k" "deliverable b k s \<longrightarrow> deliverable b k s'"
proof -
  have inv: "irq_inv s" using ok by (simp add: irq_ok_def)
  have w: "waiting (vgic s) = []" by (rule irq_ok_waiting [OF ok few])
  let ?lrs = "lr_shadow (vcpu0 (vgic s))"
  have "k \<in> set (List.map_filter lr_irq ?lrs)" using irq_invD(8) [OF inv] k w by (auto simp: flight_def)
  then obtain i where i: "i < length ?lrs" "lr_irq (?lrs ! i) = Some k"
    by (auto simp: map_filter_def in_set_conv_nth)
  have "length ?lrs = 4" using wf_vgic_vcpu0 [OF irq_invD(1) [OF inv]] by (simp add: wf_vcpu_def)
  let ?K = "demo_kernel zero_ctx (\<lambda>_. of_nat i) (\<lambda>_. seL4_Fault_VGICMaintenance)"
  have m: "maintained ?K s = i" using i(1) \<open>length ?lrs = 4\<close> by (simp add: maintained_demo)
  have v: "virq (?lrs ! i) \<noteq> VIRQ_INVALID" using i(2) by (auto simp: lr_irq_def split: if_splits)
  have K: "kernel_ok ?K" by (simp add: kernel_ok_def)
  from irq_finished [OF ok few K _ m _ refl v refl, where b = b and ?err0.0 = 0 and vm = 0 and msginfo = 0] i(1) \<open>length ?lrs = 4\<close> b obtain s' where
    s': "fault b ?K 0 0 0 s = Ret s'" "irq_ok R s'"
    "irq_abs_of b s' = (irq_abs_of b s)\<lparr>a_lrs := (a_lrs (irq_abs_of b s))[i := None]\<rparr>" by (auto simp: ack_abs_def)
  have step: "vmm_step b s s'" by (rule step_fault [OF K _ s'(1)]) (simp add: icpendr_store_def)
  have "distinct (List.map_filter id (a_lrs (irq_abs_of b s)))"
    using irq_invD(7) [OF inv] unfolding in_flight_irq_abs_of [of b s, symmetric] in_flight_def by simp
  moreover have "a_lrs (irq_abs_of b s) ! i = Some k" "i < length (a_lrs (irq_abs_of b s))" using i by (simp_all add: irq_abs_of_def)
  ultimately have "k \<notin> set (List.map_filter id ((a_lrs (irq_abs_of b s))[i := None]))" by (intro map_filter_update_None)
  then have "k \<notin> set (in_flight (irq_abs_of b s'))"
    using w unfolding s'(3) in_flight_def by (simp add: irq_abs_of_def)
  then have "\<not> pending (dist s') k" using irq_invD(8) s'(2) by (auto simp: irq_ok_def)
  moreover have "deliverable b k s \<longrightarrow> deliverable b k s'"
    using s'(3) by (auto simp: irq_abs_of_def deliverable_def fun_eq_iff)
  ultimately show thesis using that step by blast
qed

lemma store_kernel_ok: "kernel_ok (store_kernel addr v)" "regs_calls_succeed (store_kernel addr v)"
  by (simp_all add: store_kernel_def kernel_ok_def)

lemma store_kernel_store:
  "dist_store b (store_kernel (GIC_DIST_PADDR b + offset) v) m offset s" "stored (store_kernel addr v) s = ucast v"
  by (simp_all add: store_kernel_def dist_store_def stored_def timer_operand fault_is_read_def fault_is_write_def)

lemma deliverable_run:
  fixes v offset :: u64
  assumes irq: "irq \<in> named_irqs r (ucast v)" "r < 31" "unat offset = 0x100 + 4 * r" "boot_table b irq \<noteq> None"
    and b: "b = Qemu_arm_virt_hyp"
  obtains s0 s where "booted b s0" "(vmm_step b)\<^sup>*\<^sup>* s0 s" "deliverable b irq s" "\<not> pending (dist s) irq"
proof -
  let ?K2 = "store_kernel (GIC_DIST_PADDR b + offset) v"
  from init_registers [of b "store_kernel 0 0" demo_layout "\<lambda>_. 0"] b obtain s0 where
    "init b 1 (store_kernel 0 0) demo_layout (zero_state (\<lambda>_. 0)) = Ret s0"
    by (auto simp: start_guest_eq store_kernel_ok)
  then have boot: "booted b s0" unfolding booted_def by blast
  from ctlr_fault [OF booted_irq_ok [OF boot] store_kernel_ok store_kernel_store(1) [where offset = 0 and v = 1 and m = 0 and b = b], of 0 0] b
  obtain s1 where s1: "vmm_step b s0 s1" "vgic_dist_is_enabled b (dist s1)"
    by (auto simp: store_kernel_store GIC_ENABLED_def gic_version_of_def)
  have ok1: "irq_ok (boot_table b) s1" by (rule monitor.run_inv [OF boot]) (use s1(1) in blast)
  have few: "card (dom (boot_table b)) \<le> 66" using card_boot_table [of b] by simp
  from isenabler_fault [OF ok1 few store_kernel_ok store_kernel_store(1) [where m = 0 and b = b] irq(3,2) _ irq(4) s1(2), of v 0 0] irq(1)
  obtain s2 where "vmm_step b s1 s2" and del: "deliverable b irq s2" by (auto simp: store_kernel_store)
  then have run: "(vmm_step b)\<^sup>*\<^sup>* s0 s2" using s1(1) by auto
  have ok2: "irq_ok (boot_table b) s2" by (rule monitor.run_inv [OF boot run])
  show thesis
  proof (cases "pending (dist s2) irq")
    case True
    from pending_can_finish [OF ok2 card_boot_table True, of b] b obtain s3 where
      "vmm_step b s2 s3" "\<not> pending (dist s3) irq" "deliverable b irq s3" using del by auto
    then show thesis using that [OF boot] run by (meson rtranclp.rtrancl_into_rtrancl)
  qed (use that [OF boot run del] in simp)
qed

text \<open>The serial interrupt and the timer on the emulated board.\<close>

lemma serial_deliverable:
  obtains s0 s where "booted Qemu_arm_virt_hyp s0" "(vmm_step Qemu_arm_virt_hyp)\<^sup>*\<^sup>* s0 s"
    "deliverable Qemu_arm_virt_hyp 33 s" "\<not> pending (dist s) 33"
  by (rule deliverable_run [of 33 1 2 "0x104" Qemu_arm_virt_hyp]) (simp_all add: named_irqs_def boot_table_def SERIAL_IRQ_def)

lemma timer_can_deliver:
  obtains s0 s where "booted Qemu_arm_virt_hyp s0" "(vmm_step Qemu_arm_virt_hyp)\<^sup>*\<^sup>* s0 s"
    "deliverable Qemu_arm_virt_hyp 27 s" "\<not> pending (dist s) 27"
  by (rule deliverable_run [of 27 0 "0x8000000" "0x100" Qemu_arm_virt_hyp]) (simp_all add: named_irqs_def boot_table_def SERIAL_IRQ_def)

text \<open>In such a run the guest sends itself interrupt 1, which the boot has registered.\<close>

theorem sgir_store_injects_witness:
  "\<exists>s0 s s' i. booted Qemu_arm_virt_hyp s0 \<and> (vmm_step Qemu_arm_virt_hyp)\<^sup>*\<^sup>* s0 s \<and>
     vgic_dist_reg_write Qemu_arm_virt_hyp (demo_kernel zero_ctx (\<lambda>_. 0) Other_label) VCPU_ID 0xF00 0x1850040
       (zero_ctx\<lparr>x5 := 0x2000001\<rparr>) s = Ret (True, s') \<and> irq_inv s' \<and>
     trace s' = trace s @ [Ev_InjectIRQ VM_ID 1 0 0 (int i),
       Ev_WriteRegisters VM_ID True (zero_ctx\<lparr>x5 := 0x2000001, pc := 4\<rparr>), Ev_Send 4 0 0]"
proof (rule deliverable_run [of 1 0 2 "0x100" Qemu_arm_virt_hyp])
  let ?b = Qemu_arm_virt_hyp and ?K = "demo_kernel zero_ctx (\<lambda>_. 0) Other_label"
  fix s0 s assume run: "booted ?b s0" "(vmm_step ?b)\<^sup>*\<^sup>* s0 s" and del: "deliverable ?b 1 s" "\<not> pending (dist s) 1"
  have ok: "irq_ok (boot_table ?b) s" by (rule monitor.run_inv [OF run])
  then have inv: "irq_inv s" by (simp add: irq_ok_def)
  have few: "card (known_irqs (vgic s)) \<le> 4" using card_boot_table [of ?b] irq_ok_known [OF ok] by simp
  then obtain i where "free_lr (vgic s) = Some i"
    using few_irqs_free_lr [OF inv _ del(2)] del(1) by (auto simp: deliverable_def)
  moreover have "pc zero_ctx = 0" by (simp add: zero_ctx_def)
  moreover have "inject_succeeds ?K" "regs_calls_succeed ?K" by simp_all
  ultimately obtain s' where
    "vgic_dist_reg_write ?b ?K VCPU_ID 0xF00 0x1850040 (zero_ctx\<lparr>x5 := 0x2000001\<rparr>) s = Ret (True, s')" "irq_inv s'"
    "trace s' = trace s @ [Ev_InjectIRQ VM_ID 1 0 0 (int i),
       Ev_WriteRegisters VM_ID True (zero_ctx\<lparr>x5 := 0x2000001, pc := 4\<rparr>), Ev_Send 4 0 0]"
    using sgir_store_injects [OF inv _ _ _ timer_operand(1), of ?K "zero_ctx\<lparr>x5 := 0x2000001\<rparr>" "0x2000001" 1 ?b] few del
    by (auto simp: timer_operand irq_inject_group_def gic_version_of_def)
  with run show ?thesis by blast
qed (simp_all add: named_irqs_def boot_table_def SERIAL_IRQ_def)

end
