(* ===== verification/Spec2Isabelle.thy ===== *)
theory Spec2Isabelle
  imports Messages Vmm_Riscv Progress Cycle
begin

text \<open>
  \<^bold>\<open>sel4cp_vmm: a virtual machine monitor on the seL4 Core Platform\<close>

  The program (\<^verbatim>\<open>src/src\<close>) runs one guest with one vCPU. At start it copies the guest's images into
  guest memory, initialises a virtual interrupt controller (GICv2, or GICv3 on one board), registers
  four interrupts and starts the guest. From then on the kernel calls it at two entry points:
  \<^verbatim>\<open>notified\<close>, when the serial device raises an interrupt, and \<^verbatim>\<open>fault\<close>, when the guest faults: on a
  page of the interrupt controller, which the monitor emulates register by register; with a virtual
  timer event; with a maintenance interrupt, when the guest has finished an interrupt; with a secure
  monitor call. All text goes to the console through a small \<^verbatim>\<open>printf\<close> (\<^verbatim>\<open>src/src/util\<close>). A second,
  separate monitor (\<^verbatim>\<open>vmm_riscv.c\<close>) starts a guest on RISC-V.

  \<^bold>\<open>Theories and what they model\<close>

  \<^item> \<open>Prelude\<close>: machine words, the result type \<open>res\<close> (\<open>Ret\<close>, or \<open>Fault\<close> for a failed \<^verbatim>\<open>assert\<close> of
    \<^verbatim>\<open>util.h\<close>, which spins for ever, and for undefined behaviour: null dereference, array index out of
    bounds, negative shift), C arrays with checked indices, C's conversion to \<^verbatim>\<open>int\<close>.
  \<^item> \<open>Platform\<close>: the boards, \<^verbatim>\<open>seL4_UserContext\<close>, and the kernel. seL4 and the Core Platform library are not
    in the repository: they are the parameter \<open>kernel\<close>, whose functions answer each call and may look
    at the whole history; the calls that act outside the monitor are recorded, in order, in \<open>trace\<close>.
    What the monitor relies on are the hypotheses \<open>regs_calls_succeed\<close>, \<open>inject_succeeds\<close>, \<open>ack_succeeds\<close>;
    \<open>demo_kernel\<close> satisfies all of them.
  \<^item> \<open>Faults\<close> (\<^verbatim>\<open>fault.c\<close>): decoding of the fault syndrome, byte lanes, register operand, advancing the guest.
  \<^item> \<open>Virq\<close> (\<^verbatim>\<open>vgic/virq.h\<close>): handles and their tables, the ring of waiting interrupts, list registers.
  \<^item> \<open>Dist\<close> (\<^verbatim>\<open>vgic/vgic_v2.h\<close>, \<^verbatim>\<open>vgic/vgic_v3.h\<close>, the bit operations of \<^verbatim>\<open>vgic/vdist.h\<close>): the register files.
  \<^item> \<open>Pending\<close> (\<^verbatim>\<open>vgic/vdist.h\<close>, \<^verbatim>\<open>vgic/vgic.c\<close>, the acknowledge functions of \<^verbatim>\<open>vmm.c\<close>): injection.
  \<^item> \<open>Vdist\<close> (\<^verbatim>\<open>vgic/vdist.h\<close>): every load and store of the distributor's register page.
  \<^item> \<open>Vgic\<close> (\<^verbatim>\<open>vgic/vgic.c\<close>): maintenance, registration, the entry point for distributor faults.
  \<^item> \<open>Vgic_V2\<close>, \<open>Vgic_V3\<close> (\<^verbatim>\<open>vgic/vgic_v2.c\<close>, \<^verbatim>\<open>vgic/vgic_v3.c\<close>): reset values, initialisation, redistributor.
  \<^item> \<open>Smc\<close> (\<^verbatim>\<open>smc.c\<close>, \<^verbatim>\<open>psci.c\<close>): secure monitor calls.
  \<^item> \<open>Vmm\<close> (\<^verbatim>\<open>vmm.c\<close>): \<^verbatim>\<open>init\<close>, \<^verbatim>\<open>notified\<close>, \<^verbatim>\<open>fault\<close> and the handlers they dispatch to.
  \<^item> \<open>Handlers\<close>: what the handlers keep. \<open>Runs\<close>: runs of the whole monitor as a step relation over the entry
    points. \<open>Cycle\<close>: the life of a device interrupt in such a run. \<open>Constant_Registers\<close>, \<open>Load_Outcomes\<close>,
    \<open>Store_Outcomes\<close>, \<open>Progress\<close>: when a handler returns and when it stops.
  \<^item> \<open>Printf_Num\<close>, \<open>Cdouble\<close>, \<open>Printf_Float\<close>, \<open>Printf\<close> (\<^verbatim>\<open>util/printf.c\<close>): the output functions and integer
    conversion; doubles as exact binary64 values with C's conversions, rounding to nearest even;
    \<^verbatim>\<open>_ftoa\<close> and \<^verbatim>\<open>_etoa\<close>; the formatter and the functions of \<^verbatim>\<open>printf.h\<close>.
  \<^item> \<open>Printf_Text\<close>, \<open>Printf_Facts\<close>, \<open>Float_Bounds\<close>, \<open>Float_Error\<close>, \<open>Float_Returns\<close>, \<open>Printf_Types\<close>: what is
    shown of it (below).
  \<^item> \<open>Messages\<close>: the format and the argument types of every message that the monitor prints.
  \<^item> \<open>Util\<close> (\<^verbatim>\<open>util/util.h\<close>, \<^verbatim>\<open>util/util.c\<close>): console output, the assertion message, the register dump.
  \<^item> \<open>Vmm_Riscv\<close> (\<^verbatim>\<open>vmm_riscv.c\<close>): the RISC-V monitor and its runs.

  The state is one record, extended by each component with its global variables: \<open>world\<close> (the trace),
  \<open>fault_state\<close> (\<^verbatim>\<open>wzr\<close>), \<open>vgic_state\<close> (\<^verbatim>\<open>vgic\<close>), \<open>vmm_state\<close> (\<^verbatim>\<open>dist\<close>, \<^verbatim>\<open>redist\<close>, memory). Functions take the
  state and return it updated; a pointer to a handle is a table slot, so that what is read through it
  is what the table holds at that time. The formatter works on a state of its own: the buffer, the
  console and the calls of an output function.

  \<^bold>\<open>What is shown\<close>

  \<^item> The ring of \<open>Virq\<close> is a bounded queue (locale \<open>bounded_fifo\<close>), the handle tables are a finite map with a
    capacity (\<open>handle_table\<close>), the bit banks of \<open>Dist\<close> are sets of interrupts (\<open>irq_bits\<close>, interpreted for
    pending and enable bits); the clients rest on these contracts.
  \<^item> \<open>Pending\<close> has an abstract controller without pending flags (\<open>irq_abs\<close>); \<open>irq_inv\<close> says that exactly the
    pending interrupts sit in list registers or wait in the queue, each once. Injection refines the
    abstract injection and keeps \<open>irq_inv\<close>; with at most 66 registered interrupts the ring of 63 usable
    entries never fills, with at most four nothing ever waits.
  \<^item> \<open>Vdist\<close>, \<open>Vgic_V3\<close>: loads read the page word; stores to each register class do what the register
    stands for and nothing else; \<open>Faults\<close>: emulated stores and loads transfer exactly the accessed lanes.
  \<^item> \<open>Vgic\<close>, \<open>Smc\<close>, \<open>Vmm\<close>: each handler acts, acknowledges and answers the fault once, in that order; the
    boot establishes the invariant, and \<open>Runs\<close> (locale \<open>invariant_system\<close>) carries it through every run. What
    a handler keeps is proved once for any property of the state that the single operations keep
    (locale \<open>handlers\<close>, interpreted for the invariant and for the constant registers).
  \<^item> \<open>Progress\<close>: for every message of the kernel, in every state of a run, whether \<^verbatim>\<open>fault\<close> returns or stops: the
    predicate \<open>accepted\<close> on the message is exact.
  \<^item> \<open>Cycle\<close>: the guest's stores that switch the controller and an interrupt on are steps that return, a
    notification or a timer event is injected at once, and the maintenance interrupt acknowledges it
    and brings the controller back to the state before (on \<open>Odroidc2\<close>, after a serial interrupt, with
    interrupt 1 injected), or stops the monitor if its uninitialised local is not zero.
  \<^item> \<open>Printf_Text\<close>: the character-by-character loops of \<^verbatim>\<open>printf.c\<close> refine the function \<open>render\<close> from a format
    and its arguments to a text (locale \<open>text_output\<close>, interpreted for the console, for no output, for
    an output function and for a buffer); the bounds of \<^verbatim>\<open>snprintf\<close> and \<^verbatim>\<open>sprintf\<close> follow.
    \<open>Printf_Facts\<close>: numbers printed and read back, formats that overrun.
  \<^item> \<open>Float_Bounds\<close>, \<open>Float_Error\<close>, \<open>Float_Returns\<close>: where fixed notation stays in its buffer and table; error
    bounds of the arithmetic with which \<^verbatim>\<open>_etoa\<close> finds the exponent; from them, that the calls between
    \<^verbatim>\<open>_ftoa\<close> and \<^verbatim>\<open>_etoa\<close> end for every double.
  \<^item> \<open>Printf_Types\<close>: a type checker for formats, exact for the formatter: it says of every format it
    covers and all arguments whether the call fails and how. \<open>Messages\<close> runs it on the monitor's own
    messages, all of them, with the foreign argument types as parameters. \<open>Util\<close> gives the text of the
    register dump from the register numbers.
  \<^item> The places where the code does not do what it means to are theorems too: they say what happens
    instead, on which states.

  Loops are structural recursions or \<open>for_each\<close> over an index list; the loop over the set bits of a
  stored word (\<open>ctz_loop\<close>) and the loops over a format have a termination measure. The one bound is on
  the mutual calls of \<^verbatim>\<open>_ftoa\<close> and \<^verbatim>\<open>_etoa\<close>: three, more would be the value \<open>Fault Call_depth\<close>;
  \<open>float_conversion_terminates\<close> shows that it is never reached. The bound of \<^verbatim>\<open>vgic_v2.c\<close>'s reset loops,
  \<^verbatim>\<open>CONFIG_MAX_NUM_NODES\<close> of the kernel, is the parameter \<open>nodes\<close>; \<open>err0\<close> is the uninitialised local of
  the maintenance handler.

  \<^bold>\<open>What is not modelled\<close>

  The assembly that includes the images, board descriptions and build files: there is no program
  code of the monitor in them. The handlers are modelled without the messages they print, which
  have no effect on the state the monitor keeps; the debugging macros \<^verbatim>\<open>LOG_IRQ\<close> and \<^verbatim>\<open>LOG_DIST\<close> expand to
  nothing. \<open>Messages\<close> gives them. Sixteen of them pass an argument of another width than the conversion
  reads, which the C standard leaves undefined: for \<open>Messages\<close> these calls are faults, whereas the
  theorems about the handlers that print them hold where such a call returns, as it does with a
  calling convention that gives both widths one argument slot. A store to the clear-pending registers drops a pending
  bit behind the back of the queue, which the comment in \<^verbatim>\<open>vgic_v2.c\<close> assumes the guest does not do; the
  runs of \<open>Runs\<close> exclude it, and \<open>Vdist\<close> shows its effect.

  \<^bold>\<open>Left to do\<close>: the interrupt cycle for the software-generated interrupts, sub-word accesses to the group
  and active registers.
\<close>

section \<open>Runs of the monitor\<close>

text \<open>
  C1. The interrupt state stays sound for ever. After the boot and any sequence of notifications and
  faults that the monitor completes, with any messages from the guest except stores to the
  clear-pending registers: the registered interrupts are the four of the boot; an interrupt is
  pending exactly if it sits in a list register, each in at most one; and no interrupt waits in
  the queue.
\<close>

theorem runs_keep_invariant:
  assumes "booted b s" and "(vmm_step b)\<^sup>*\<^sup>* s s'"
  shows "irq_inv s' \<and> registered (vgic s') VCPU_ID = boot_table b \<and> waiting (vgic s') = [] \<and>
    distinct (List.map_filter lr_irq (lr_shadow (vcpu0 (vgic s')))) \<and>
    set (List.map_filter lr_irq (lr_shadow (vcpu0 (vgic s')))) = {k. pending (dist s') k}"
proof -
  have ok: "irq_ok (boot_table b) s'" by (rule monitor.run_inv [OF assms])
  have "waiting (vgic s') = []" by (rule irq_ok_waiting [OF ok card_boot_table])
  moreover have "irq_inv s'" using ok by (simp add: irq_ok_def)
  ultimately show ?thesis using ok irq_invD(7,8) [of s'] by (simp add: irq_ok_def flight_def)
qed

theorem runs_keep_invariant_witness:
  "\<exists>s s'. booted Qemu_arm_virt_hyp s \<and> notified Qemu_arm_virt_hyp (demo_kernel zero_ctx (\<lambda>_. 0) Other_label) 1 s = Ret s' \<and>
     irq_inv s' \<and> waiting (vgic s') = []"
proof -
  let ?K = "demo_kernel zero_ctx (\<lambda>_. 0) Other_label" and ?b = Qemu_arm_virt_hyp
  from init_registers [of ?b ?K demo_layout "\<lambda>_. 0"] obtain s where "init ?b 1 ?K demo_layout (zero_state (\<lambda>_. 0)) = Ret s"
    by (auto simp: start_guest_eq)
  then have b: "booted ?b s" unfolding booted_def by blast
  note ok = booted_irq_ok [OF b]
  have inv: "irq_inv s" using ok by (simp add: irq_ok_def)
  have few: "card (known_irqs (vgic s)) \<le> 66" using card_boot_table [of ?b] irq_ok_known [OF ok] by simp
  have "registered (vgic s) VCPU_ID 33 \<noteq> None" using ok by (simp add: irq_ok_def boot_table_def SERIAL_IRQ_def)
  with inject_same_config [OF inv, of 33 ?K ?b] few obtain r s' where "vgic_inject_irq ?b ?K VCPU_ID 33 s = Ret (r, s')"
    by (auto simp: has_bit_def)
  then have n: "notified ?b ?K 1 s = Ret s'" by (simp add: notified_def SERIAL_IRQ_CH_def SERIAL_IRQ_def)
  then have "vmm_step ?b s s'" by (rule step_notified [rotated]) (simp add: kernel_ok_def)
  from runs_keep_invariant [OF b, of s'] this b n show ?thesis by blast
qed

text \<open>
  C2. The messages that stop the monitor, in every state of every run and on a kernel whose calls
  succeed. A notification always returns. A fault returns exactly if it is accepted: a maintenance
  interrupt names a list register that holds an interrupt (and the uninitialised local is zero); a
  timer event names a local or a registered interrupt; an access to memory lies in the pages of
  the controller, is described by its syndrome and aligned, a load stays in the words of its
  register, a store names only interrupts that have a bit in the register file, or a handle where
  it makes them pending, and is not one to the unimplemented registers. All other faults return.
\<close>
theorem monitor_stops_exactly:
  assumes "booted b s0" and "(vmm_step b)\<^sup>*\<^sup>* s0 s" and "kernel_ok K" and "regs_calls_succeed K"
  shows "((\<exists>s'. fault b K err0 vm msginfo s = Ret s') \<longleftrightarrow> accepted b (boot_table b) K err0 msginfo s) \<and>
     (\<exists>s'. notified b K ch s = Ret s')"
  using run_fault_returns [OF assms, of err0 vm msginfo] run_notified_returns [OF assms(1-3), of ch]
  unfolding returns_def by blast

text \<open>A guest that has just started stops the monitor with one store to an unimplemented register.\<close>

theorem monitor_stops_exactly_witness:
  "\<exists>s. booted Qemu_arm_virt_hyp s \<and> (\<nexists>s'. fault Qemu_arm_virt_hyp (store_kernel 0x8000F10 1) 0 0 0 s = Ret s') \<and>
     (\<exists>s'. fault Qemu_arm_virt_hyp (store_kernel 0x8000104 2) 0 0 0 s = Ret s')"
proof -
  let ?b = Qemu_arm_virt_hyp
  from init_registers [of ?b "store_kernel 0 0" demo_layout "\<lambda>_. 0"] obtain s where
    "init ?b 1 (store_kernel 0 0) demo_layout (zero_state (\<lambda>_. 0)) = Ret s" by (auto simp: start_guest_eq store_kernel_ok)
  then have b: "booted ?b s" unfolding booted_def by blast
  have k: "accepted ?b R (store_kernel a v) 0 0 s = access_ok ?b R a 0x1850040 v" for R a v
    by (simp add: accepted_def store_kernel_def timer_operand)
  have stops: "(\<exists>s'. fault ?b (store_kernel a v) 0 0 0 s = Ret s') \<longleftrightarrow> access_ok ?b (boot_table ?b) a 0x1850040 v" for a v
    by (rule trans [OF conjunct1 [OF monitor_stops_exactly [OF b rtranclp.rtrancl_refl store_kernel_ok]] k])
  have "\<not> access_ok ?b R 0x8000F10 0x1850040 1" for R
    by (simp add: access_ok_def store_ok_def GIC_DIST_PADDR_def GIC_DIST_SIZE_def fault_is_read_def fault_is_write_def)
  moreover have "access_ok ?b R 0x8000104 0x1850040 2" for R
    by (simp add: access_ok_def store_ok_def store_irqs_def access_valid_def GIC_DIST_PADDR_def GIC_DIST_SIZE_def
        fault_is_read_def fault_is_write_def lane_aligned_def timer_operand(1) [unfolded word_access_def])
  ultimately show ?thesis using b stops [of "0x8000F10" 1] stops [of "0x8000104" 2] by (intro exI [of _ s]) blast
qed

text \<open>
  C3. The life of a serial interrupt, on every board, on a kernel whose calls succeed and in every
  state of every run (runs as in the first property, without stores to the clear-pending registers): once the guest
  has switched the controller and the serial interrupt on, a notification puts the interrupt into
  the first free list register with one call to the kernel. When the guest has finished it, the
  maintenance interrupt for that register, if its uninitialised local happens to be zero,
  acknowledges the channel (on two of the three boards), answers the fault and brings the controller
  back to the state before; on \<open>Odroidc2\<close>, where the acknowledgement also injects interrupt 1, to that
  state with interrupt 1 injected as the abstract controller would, with at most one further call
  to the kernel. If the local is not zero, the maintenance interrupt stops the monitor.
\<close>
theorem serial_interrupt_cycle:
  assumes "booted b s0" and "(vmm_step b)\<^sup>*\<^sup>* s0 s" and "kernel_ok K" and "kernel_ok K'"
    and "deliverable b (SERIAL_IRQ b) s" and "\<not> pending (dist s) (SERIAL_IRQ b)"
    and "k_msginfo_label K' msginfo = seL4_Fault_VGICMaintenance"
  shows "\<exists>i s1. free_lr (vgic s) = Some i \<and> notified b K SERIAL_IRQ_CH s = Ret s1 \<and>
     trace s1 = trace s @ [Ev_InjectIRQ VM_ID (SERIAL_IRQ b) 0 (irq_inject_group b) (int i)] \<and>
     (maintained K' s1 = i \<longrightarrow>
       (if err0 = 0
        then \<exists>s2. fault b K' err0 vm msginfo s1 = Ret s2 \<and> irq_ok (boot_table b) s2 \<and>
          irq_abs_of b s2 = (if b = Odroidc2 then snd (a_inject 1 (irq_abs_of b s)) else irq_abs_of b s) \<and>
          trace s2 = trace s1 @ serial_ack_events b (irq_abs_of b s) @ [Ev_Send 4 0 0]
        else fault b K' err0 vm msginfo s1 = Fault Assert_failed))"
  by (rule serial_cycle [OF monitor.run_inv [OF assms(1,2)] assms(3-7)])

theorem serial_interrupt_cycle_witness:
  "\<exists>s i s1 s2. notified Qemu_arm_virt_hyp (demo_kernel zero_ctx (\<lambda>_. 0) Other_label) 1 s = Ret s1 \<and>
     fault Qemu_arm_virt_hyp (demo_kernel zero_ctx (\<lambda>_. of_nat i) (\<lambda>_. seL4_Fault_VGICMaintenance)) 0 0 0 s1 = Ret s2 \<and>
     irq_abs_of Qemu_arm_virt_hyp s2 = irq_abs_of Qemu_arm_virt_hyp s \<and>
     trace s2 = trace s @ [Ev_InjectIRQ VM_ID 33 0 (irq_inject_group Qemu_arm_virt_hyp) (int i), Ev_IrqAck 1, Ev_Send 4 0 0]"
proof (rule serial_deliverable)
  fix s0 s assume run: "booted Qemu_arm_virt_hyp s0" "(vmm_step Qemu_arm_virt_hyp)\<^sup>*\<^sup>* s0 s"
    and del: "deliverable Qemu_arm_virt_hyp 33 s" "\<not> pending (dist s) 33"
  let ?b = Qemu_arm_virt_hyp and ?K = "demo_kernel zero_ctx (\<lambda>_. 0) Other_label"
  let ?K' = "\<lambda>i. demo_kernel zero_ctx (\<lambda>_. of_nat i) (\<lambda>_. seL4_Fault_VGICMaintenance)"
  have cyc': "\<exists>i s1. free_lr (vgic s) = Some i \<and> notified ?b ?K SERIAL_IRQ_CH s = Ret s1 \<and>
     trace s1 = trace s @ [Ev_InjectIRQ VM_ID 33 0 (irq_inject_group ?b) (int i)] \<and>
     (maintained (?K' j) s1 = i \<longrightarrow> (\<exists>s2. fault ?b (?K' j) 0 0 0 s1 = Ret s2 \<and> irq_abs_of ?b s2 = irq_abs_of ?b s \<and>
        trace s2 = trace s1 @ [Ev_IrqAck SERIAL_IRQ_CH, Ev_Send 4 0 0]))" for j
    using serial_interrupt_cycle [OF run, where K = ?K and K' = "?K' j" and msginfo = 0 and vm = 0 and ?err0.0 = 0] del
    by (simp add: kernel_ok_def SERIAL_IRQ_def serial_ack_events_def) blast
  from cyc' [of 0] obtain i where i: "free_lr (vgic s) = Some i" by auto
  with cyc' [of i] i run_free_lr [OF run i] show ?thesis by (fastforce simp: SERIAL_IRQ_CH_def)
qed

text \<open>
  C4. The life of a timer interrupt, on every board, on a kernel whose calls succeed and in every
  state of every run (runs as in the first property, without stores to the clear-pending registers): once the guest
  has switched the controller and the timer's interrupt on, the kernel's timer event puts the
  interrupt into the first free list register and the guest is resumed. When the guest has finished
  it, the maintenance interrupt for that register, if its uninitialised local happens to be zero,
  brings the controller back to the state before, acknowledges the event, so that the timer can
  fire again, and resumes the guest; if the local is not zero, it stops the monitor.
\<close>
theorem timer_interrupt_cycle:
  assumes "booted b s0" and "(vmm_step b)\<^sup>*\<^sup>* s0 s" and "kernel_ok K" and "kernel_ok K'"
    and "deliverable b PPI_VTIMER_IRQ s" and "\<not> pending (dist s) PPI_VTIMER_IRQ"
    and "k_msginfo_label K event = seL4_Fault_VPPIEvent" and "k_mr_get K (trace s) seL4_VPPIEvent_IRQ = 27"
    and "k_msginfo_label K' msginfo = seL4_Fault_VGICMaintenance"
  shows "\<exists>i s1. free_lr (vgic s) = Some i \<and> fault b K err1 vm event s = Ret s1 \<and>
     trace s1 = trace s @ [Ev_InjectIRQ VM_ID PPI_VTIMER_IRQ 0 (irq_inject_group b) (int i), Ev_Send 4 0 0] \<and>
     (maintained K' s1 = i \<longrightarrow>
       (if err0 = 0
        then \<exists>s2. fault b K' err0 vm msginfo s1 = Ret s2 \<and> irq_abs_of b s2 = irq_abs_of b s \<and>
          irq_ok (boot_table b) s2 \<and> trace s2 = trace s1 @ [Ev_AckVPPI VM_ID 27, Ev_Send 4 0 0]
        else fault b K' err0 vm msginfo s1 = Fault Assert_failed))"
  by (rule timer_cycle [OF monitor.run_inv [OF assms(1,2)] assms(3-9)])

theorem timer_interrupt_cycle_witness:
  "\<exists>s i s1 s2. fault Qemu_arm_virt_hyp (demo_kernel zero_ctx (\<lambda>_. 27) (\<lambda>_. seL4_Fault_VPPIEvent)) 0 0 0 s = Ret s1 \<and>
     fault Qemu_arm_virt_hyp (demo_kernel zero_ctx (\<lambda>_. of_nat i) (\<lambda>_. seL4_Fault_VGICMaintenance)) 0 0 0 s1 = Ret s2 \<and>
     irq_abs_of Qemu_arm_virt_hyp s2 = irq_abs_of Qemu_arm_virt_hyp s \<and>
     trace s2 = trace s @ [Ev_InjectIRQ VM_ID 27 0 (irq_inject_group Qemu_arm_virt_hyp) (int i), Ev_Send 4 0 0,
       Ev_AckVPPI VM_ID 27, Ev_Send 4 0 0]"
proof (rule timer_can_deliver)
  fix s0 s assume run: "booted Qemu_arm_virt_hyp s0" "(vmm_step Qemu_arm_virt_hyp)\<^sup>*\<^sup>* s0 s"
    and del: "deliverable Qemu_arm_virt_hyp 27 s" "\<not> pending (dist s) 27"
  let ?b = Qemu_arm_virt_hyp and ?K = "demo_kernel zero_ctx (\<lambda>_. 27) (\<lambda>_. seL4_Fault_VPPIEvent)"
  let ?K' = "\<lambda>i. demo_kernel zero_ctx (\<lambda>_. of_nat i) (\<lambda>_. seL4_Fault_VGICMaintenance)"
  have cyc': "\<exists>i s1. free_lr (vgic s) = Some i \<and> fault ?b ?K 0 0 0 s = Ret s1 \<and>
     trace s1 = trace s @ [Ev_InjectIRQ VM_ID 27 0 (irq_inject_group ?b) (int i), Ev_Send 4 0 0] \<and>
     (maintained (?K' j) s1 = i \<longrightarrow> (\<exists>s2. fault ?b (?K' j) 0 0 0 s1 = Ret s2 \<and> irq_abs_of ?b s2 = irq_abs_of ?b s \<and>
        trace s2 = trace s1 @ [Ev_AckVPPI VM_ID 27, Ev_Send 4 0 0]))" for j
    using timer_interrupt_cycle [OF run, where K = ?K and K' = "?K' j" and event = 0 and msginfo = 0 and vm = 0 and ?err1.0 = 0 and ?err0.0 = 0] del
    by (simp add: kernel_ok_def) blast
  from cyc' [of 0] obtain i where i: "free_lr (vgic s) = Some i" by auto
  with cyc' [of i] i run_free_lr [OF run i] show ?thesis by fastforce
qed

end
